(* ===== verification/Prelude.thy ===== *)
theory Prelude
  imports Main "HOL-Library.Multiset" "HOL-Library.Mapping" "HOL-Library.AList_Mapping"
    "HOL-Library.Char_ord" "HOL-Library.List_Lexorder" "HOL-Library.Word"
begin

text \<open>
  Shared vocabulary of the development.
  \<^item> Run-time panics of Go as values (\<open>go_panic\<close>), results that may panic as sums.
  \<^item> Signed 64-bit arithmetic (\<open>wrap64\<close>) and the units of \<^verbatim>\<open>time.Duration\<close>.
  \<^item> Instants of \<^verbatim>\<open>time.Time\<close> as a linearly ordered type.
  \<^item> The iteration order of Go maps: a \<^verbatim>\<open>range\<close> over a map visits every key once in an
    order the run time chooses, so an operation that ranges over a map takes a permutation
    (\<open>is_shuffle\<close>) as an argument.
  \<^item> The generic lemmas on lists and mappings the components share.
\<close>

subsection \<open>Collections of rewrite rules\<close>

named_theorems str_simps \<open>evaluation of the string primitives\<close>
named_theorems dur_simps \<open>the duration constants\<close>

subsection \<open>Panics and results\<close>

text \<open>A Go panic. \<open>Explicit\<close> carries the text of a \<^verbatim>\<open>panic(...)\<close> in the source or in the runtime.\<close>

datatype go_panic =
    IndexOutOfRange
  | SliceBounds
  | NilDeref
  | SendOnClosedChannel
  | TypeAssertion
  | Explicit string

type_synonym 'a outcome = "go_panic + 'a"

text \<open>Sequencing of computations that may stop with an error or a panic (\<open>Inl\<close>).\<close>

definition and_then :: "'e + 'a \<Rightarrow> ('a \<Rightarrow> 'e + 'b) \<Rightarrow> 'e + 'b" where
  "and_then r f = (case r of Inl e \<Rightarrow> Inl e | Inr x \<Rightarrow> f x)"

lemma and_then_Inl [simp]: "and_then (Inl e) f = Inl e"
  by (simp add: and_then_def)

lemma and_then_Inr [simp]: "and_then (Inr x) f = f x"
  by (simp add: and_then_def)

lemma and_then_eq_Inr: "and_then r f = Inr y \<longleftrightarrow> (\<exists>x. r = Inr x \<and> f x = Inr y)"
  by (cases r) auto

lemma and_then_eq_Inl: "and_then r f = Inl e \<longleftrightarrow> r = Inl e \<or> (\<exists>x. r = Inr x \<and> f x = Inl e)"
  by (cases r) auto

subsection \<open>64-bit integers and durations\<close>

text \<open>
  \<^verbatim>\<open>int\<close> and \<^verbatim>\<open>int64\<close> of the 64-bit targets: the result of an
  arithmetic operation is reduced to the range \<open>[-2^63, 2^63)\<close>.
\<close>

definition wrap64 :: "int \<Rightarrow> int" where
  "wrap64 x = (x + 2 ^ 63) mod 2 ^ 64 - 2 ^ 63"

definition in_int64 :: "int \<Rightarrow> bool" where
  "in_int64 x \<longleftrightarrow> - (2 ^ 63) \<le> x \<and> x < 2 ^ 63"

lemma wrap64_range: "in_int64 (wrap64 x)"
proof -
  have "0 \<le> (x + 2 ^ 63) mod 2 ^ 64" and "(x + 2 ^ 63) mod 2 ^ 64 < 2 ^ 64"
    by simp_all
  then show ?thesis by (simp add: wrap64_def in_int64_def)
qed

lemma wrap64_id: "in_int64 x \<Longrightarrow> wrap64 x = x"
  by (simp add: wrap64_def in_int64_def)

lemma wrap64_sint: "wrap64 x = sint (word_of_int x :: 64 word)"
proof -
  have "sint (word_of_int x :: 64 word) = signed_take_bit 63 x"
    by (simp add: signed_of_int)
  also have "\<dots> = wrap64 x"
    by (simp add: signed_take_bit_eq_take_bit_shift wrap64_def take_bit_eq_mod)
  finally show ?thesis ..
qed

text \<open>\<^verbatim>\<open>time.Duration\<close> counts nanoseconds in an \<^verbatim>\<open>int64\<close>.\<close>

type_synonym duration = int

definition Millisecond :: duration where "Millisecond = 1000000"
definition Second :: duration where "Second = 1000 * Millisecond"
definition Minute :: duration where "Minute = 60 * Second"
definition Hour :: duration where "Hour = 60 * Minute"

lemmas duration_defs [dur_simps] = Millisecond_def Second_def Minute_def Hour_def

subsection \<open>Instants\<close>

text \<open>
  \<^verbatim>\<open>time.Time\<close> as nanoseconds on an unbounded axis, ordered by
  \<^verbatim>\<open>Before\<close>; \<open>add\<close> is \<^verbatim>\<open>Time.Add\<close> and \<open>until\<close> the difference
  \<^verbatim>\<open>time.Until\<close> computes.
\<close>

datatype instant = Instant (nanos: int)

instantiation instant :: linorder
begin

definition less_eq_instant :: "instant \<Rightarrow> instant \<Rightarrow> bool" where
  "less_eq_instant s t \<longleftrightarrow> nanos s \<le> nanos t"

definition less_instant :: "instant \<Rightarrow> instant \<Rightarrow> bool" where
  "less_instant s t \<longleftrightarrow> nanos s < nanos t"

instance
  by standard (auto simp: less_eq_instant_def less_instant_def intro: instant.expand)

end

lemma instant_le_iff [simp]: "Instant x \<le> Instant y \<longleftrightarrow> x \<le> y"
  by (simp add: less_eq_instant_def)

lemma instant_less_iff [simp]: "Instant x < Instant y \<longleftrightarrow> x < y"
  by (simp add: less_instant_def)

definition add_dur :: "instant \<Rightarrow> duration \<Rightarrow> instant" where
  "add_dur t d = Instant (nanos t + d)"

definition until :: "instant \<Rightarrow> instant \<Rightarrow> duration" where
  "until now t = nanos t - nanos now"

lemma add_dur_le_iff: "add_dur t d \<le> add_dur t e \<longleftrightarrow> d \<le> e"
  by (simp add: add_dur_def)

lemma until_less_0: "until now t < 0 \<longleftrightarrow> t < now"
  by (simp add: until_def less_instant_def)

lemma le_add_dur: "0 \<le> d \<Longrightarrow> t \<le> add_dur t d"
  by (simp add: add_dur_def less_eq_instant_def)

subsection \<open>Iteration over Go maps\<close>

definition is_shuffle :: "('a list \<Rightarrow> 'a list) \<Rightarrow> bool" where
  "is_shuffle f \<longleftrightarrow> (\<forall>xs. mset (f xs) = mset xs)"

definition map_range :: "('k list \<Rightarrow> 'k list) \<Rightarrow> ('k::linorder, 'v) mapping \<Rightarrow> 'k list" where
  "map_range sh m = sh (Mapping.ordered_keys m)"

lemma is_shuffle_id [simp]: "is_shuffle (\<lambda>xs. xs)"
  by (simp add: is_shuffle_def)

lemma is_shuffle_rev [simp]: "is_shuffle rev"
  by (simp add: is_shuffle_def)

lemma set_map_range:
  assumes "is_shuffle sh" and "finite (Mapping.keys m)"
  shows "set (map_range sh m) = Mapping.keys m"
proof -
  have "set_mset (mset (map_range sh m)) = set_mset (mset (Mapping.ordered_keys m))"
    using assms(1) by (simp add: is_shuffle_def map_range_def)
  with assms(2) show ?thesis by simp
qed

lemma distinct_map_range: "is_shuffle sh \<Longrightarrow> distinct (map_range sh m)"
  by (metis distinct_ordered_keys is_shuffle_def map_range_def mset_eq_imp_distinct_iff)

subsection \<open>Lists\<close>

lemma nth_list_swap:
  assumes "i < length xs" "j < length xs" "k < length xs"
  shows "xs[i := xs ! j, j := xs ! i] ! k = (if k = j then xs ! i else if k = i then xs ! j else xs ! k)"
  using assms by (auto simp: nth_list_update)

lemma mset_list_swap:
  assumes "i < length xs" "j < length xs"
  shows "mset (xs[i := xs ! j, j := xs ! i]) = mset xs"
  using mset_swap [OF assms(2,1)] .

lemma set_list_swap:
  assumes "i < length xs" "j < length xs"
  shows "set (xs[i := xs ! j, j := xs ! i]) = set xs"
  using mset_list_swap [OF assms] by (rule mset_eq_setD)

lemma distinct_list_swap:
  assumes "i < length xs" "j < length xs"
  shows "distinct (xs[i := xs ! j, j := xs ! i]) = distinct xs"
  using mset_list_swap [OF assms] by (rule mset_eq_imp_distinct_iff)

lemma map_list_swap:
  assumes "i < length xs" "j < length xs"
  shows "map f (xs[i := xs ! j, j := xs ! i]) = (map f xs)[i := map f xs ! j, j := map f xs ! i]"
  using assms by (simp add: map_update)

lemma lookup_mapping_if:
  "Mapping.lookup (Mapping.update k v m) l = (if l = k then Some v else Mapping.lookup m l)"
  "Mapping.lookup (Mapping.delete k m) l = (if l = k then None else Mapping.lookup m l)"
  by (auto simp: lookup_update')

lemma in_keys_lookup: "k \<in> Mapping.keys m \<longleftrightarrow> Mapping.lookup m k \<noteq> None"
  by (auto simp: keys_dom_lookup)

end
