(* ===== verification/Go_Heap.thy ===== *)
theory Go_Heap
  imports Prelude
begin

text \<open>
  The algorithms of Go's \<^verbatim>\<open>container/heap\<close> over an arbitrary state with the operations
  of \<^verbatim>\<open>heap.Interface\<close> that reorder it (\<open>lt\<close>, \<open>sw\<close>), and their
  correctness for every implementation of that interface: the locale \<open>heap_iface\<close> states what
  an implementation has to promise, the lemmas proved in it say that sifting repairs a heap
  with one wrong entry. The cache's priority queue is an interpretation of it.
\<close>

subsection \<open>Sifting\<close>

definition parent :: "nat \<Rightarrow> nat" where
  "parent k = (k - 1) div 2"

lemma parent_less: "0 < k \<Longrightarrow> parent k < k"
  by (simp add: parent_def)

lemma parent_0 [simp]: "parent 0 = 0"
  by (simp add: parent_def)

lemma parent_le: "parent k \<le> k"
  by (simp add: parent_def)

lemma parent_iff: "0 < k \<Longrightarrow> parent k = i \<longleftrightarrow> k = 2 * i + 1 \<or> k = 2 * i + 2"
  unfolding parent_def by presburger

function heap_up :: "('s \<Rightarrow> nat \<Rightarrow> nat \<Rightarrow> bool) \<Rightarrow> ('s \<Rightarrow> nat \<Rightarrow> nat \<Rightarrow> 's) \<Rightarrow> 's \<Rightarrow> nat \<Rightarrow> 's" where
  "heap_up lt sw s j =
     (let i = parent j in
      if i = j \<or> \<not> lt s j i then s else heap_up lt sw (sw s i j) i)"
  by pat_completeness auto
termination
  by (relation "measure (\<lambda>(lt, sw, s, j). j)") (auto simp: parent_def)

text \<open>The result carries the final position; Go's \<^verbatim>\<open>down\<close> returns whether it moved.\<close>

function heap_down ::
  "('s \<Rightarrow> nat \<Rightarrow> nat \<Rightarrow> bool) \<Rightarrow> ('s \<Rightarrow> nat \<Rightarrow> nat \<Rightarrow> 's) \<Rightarrow> 's \<Rightarrow> nat \<Rightarrow> nat \<Rightarrow> 's \<times> nat" where
  "heap_down lt sw s i n =
     (let j1 = 2 * i + 1 in
      if n \<le> j1 then (s, i)
      else let j = (if j1 + 1 < n \<and> lt s (j1 + 1) j1 then j1 + 1 else j1) in
        if \<not> lt s j i then (s, i) else heap_down lt sw (sw s i j) j n)"
  by pat_completeness auto
termination
  by (relation "measure (\<lambda>(lt, sw, s, i, n). n - i)") auto

declare heap_up.simps [simp del] heap_down.simps [simp del]

lemma heap_down_leaf: "n \<le> 2 * i + 1 \<Longrightarrow> heap_down lt sw s i n = (s, i)"
  by (subst heap_down.simps) (simp add: Let_def)

lemma heap_down_inner:
  assumes "2 * i + 1 < n"
    and j: "j = (if 2 * i + 2 < n \<and> lt s (2 * i + 2) (2 * i + 1) then 2 * i + 2 else 2 * i + 1)"
  shows "heap_down lt sw s i n = (if lt s j i then heap_down lt sw (sw s i j) j n else (s, i))"
  using assms(1) unfolding j by (subst heap_down.simps) (auto simp: Let_def)

text \<open>\<^verbatim>\<open>if !down(h, i, n) { up(h, i) }\<close>, the repair step of \<^verbatim>\<open>Remove\<close> and \<^verbatim>\<open>Fix\<close>.\<close>

definition heap_sift ::
  "('s \<Rightarrow> nat \<Rightarrow> nat \<Rightarrow> bool) \<Rightarrow> ('s \<Rightarrow> nat \<Rightarrow> nat \<Rightarrow> 's) \<Rightarrow> 's \<Rightarrow> nat \<Rightarrow> nat \<Rightarrow> 's" where
  "heap_sift lt sw s i n =
     (let (s', i') = heap_down lt sw s i n in
      if i < i' then s' else heap_up lt sw s' i)"

text \<open>What every in-range swap keeps, sifting keeps.\<close>

lemma heap_up_preserves:
  assumes step: "\<And>s i j. P s \<Longrightarrow> i < n \<Longrightarrow> j < n \<Longrightarrow> P (sw s i j)"
  shows "P s \<Longrightarrow> j < n \<Longrightarrow> P (heap_up lt sw s j)"
  using step
proof (induction lt sw s j rule: heap_up.induct [case_names up])
  case (up lt sw s j)
  then show ?case
    using parent_le [of j] by (subst heap_up.simps) (auto simp: Let_def)
qed

lemma heap_down_preserves:
  assumes step: "\<And>s i j. P s \<Longrightarrow> i < n \<Longrightarrow> j < n \<Longrightarrow> P (sw s i j)"
  shows "P s \<Longrightarrow> i < n \<Longrightarrow> P (fst (heap_down lt sw s i n))"
  using step
proof (induction lt sw s i n rule: heap_down.induct [case_names down])
  case (down lt sw s i n)
  then show ?case
    by (subst heap_down.simps) (auto simp: Let_def)
qed

lemma heap_down_pos: "i < n \<Longrightarrow> snd (heap_down lt sw s i n) < n"
proof (induction lt sw s i n rule: heap_down.induct [case_names down])
  case (down lt sw s i n)
  then show ?case
    by (subst heap_down.simps) (auto simp: Let_def)
qed

lemma heap_sift_preserves:
  assumes "\<And>s i j. P s \<Longrightarrow> i < n \<Longrightarrow> j < n \<Longrightarrow> P (sw s i j)" "P s" "i < n"
  shows "P (heap_sift lt sw s i n)"
  using heap_down_preserves [of P n sw s i lt, OF assms]
    heap_up_preserves [of P n sw "fst (heap_down lt sw s i n)" i lt] assms
  by (auto simp: heap_sift_def split: prod.split)

subsection \<open>Heaps as arrays of keys\<close>

text \<open>
  \<open>heap_upto ks n\<close>: the first \<open>n\<close> keys are a heap. \<open>hole ks i n\<close>: they are one but for the
  entry at \<open>i\<close>, whose neighbours still agree with each other. \<open>up_hole\<close> and \<open>down_hole\<close>
  say in addition that the entry is in order with its children, respectively its parent.
\<close>

definition heap_upto :: "'k::linorder list \<Rightarrow> nat \<Rightarrow> bool" where
  "heap_upto ks n \<longleftrightarrow> (\<forall>k. 0 < k \<and> k < n \<longrightarrow> ks ! parent k \<le> ks ! k)"

definition hole :: "'k::linorder list \<Rightarrow> nat \<Rightarrow> nat \<Rightarrow> bool" where
  "hole ks i n \<longleftrightarrow>
     (\<forall>k. 0 < k \<and> k < n \<and> k \<noteq> i \<and> parent k \<noteq> i \<longrightarrow> ks ! parent k \<le> ks ! k) \<and>
     (\<forall>k. 0 < i \<and> 0 < k \<and> k < n \<and> parent k = i \<longrightarrow> ks ! parent i \<le> ks ! k)"

definition above_ok :: "'k::linorder list \<Rightarrow> nat \<Rightarrow> bool" where
  "above_ok ks i \<longleftrightarrow> 0 < i \<longrightarrow> ks ! parent i \<le> ks ! i"

definition below_ok :: "'k::linorder list \<Rightarrow> nat \<Rightarrow> nat \<Rightarrow> bool" where
  "below_ok ks i n \<longleftrightarrow> (\<forall>k. 0 < k \<and> k < n \<and> parent k = i \<longrightarrow> ks ! i \<le> ks ! k)"

lemma below_ok_iff:
  "below_ok ks i n \<longleftrightarrow>
     (2 * i + 1 < n \<longrightarrow> ks ! i \<le> ks ! (2 * i + 1)) \<and> (2 * i + 2 < n \<longrightarrow> ks ! i \<le> ks ! (2 * i + 2))"
proof -
  have "0 < k \<and> k < n \<and> parent k = i \<longleftrightarrow> k < n \<and> (k = 2 * i + 1 \<or> k = 2 * i + 2)" for k
    using parent_iff [of k i] by auto
  then show ?thesis unfolding below_ok_def by metis
qed

lemma heap_uptoI: "hole ks i n \<Longrightarrow> above_ok ks i \<Longrightarrow> below_ok ks i n \<Longrightarrow> heap_upto ks n"
  unfolding hole_def above_ok_def below_ok_def heap_upto_def by metis

lemma heap_upto_root: "heap_upto ks n \<Longrightarrow> k < n \<Longrightarrow> ks ! 0 \<le> ks ! k"
proof (induction k rule: less_induct)
  case (less k)
  show ?case
  proof (cases "k = 0")
    case False
    then have "parent k < k" by (simp add: parent_less)
    with less have "ks ! 0 \<le> ks ! parent k" by simp
    also have "\<dots> \<le> ks ! k"
      using less.prems False by (auto simp: heap_upto_def)
    finally show ?thesis .
  qed simp
qed

lemma heap_upto_hole:
  assumes "heap_upto ks n" "i < n" "\<And>k. k < n \<Longrightarrow> k \<noteq> i \<Longrightarrow> ks' ! k = ks ! k"
  shows "hole ks' i n"
proof -
  have le: "ks ! parent k \<le> ks ! k" if "0 < k" "k < n" for k
    using assms(1) that by (simp add: heap_upto_def)
  note par = parent_less
  have "ks' ! parent k \<le> ks' ! k" if "0 < k" "k < n" "k \<noteq> i" "parent k \<noteq> i" for k
    using le [of k] assms(3) [of k] assms(3) [of "parent k"] par [of k] that by simp
  moreover have "ks' ! parent i \<le> ks' ! k" if "0 < i" "0 < k" "k < n" "parent k = i" for k
  proof -
    have "ks ! parent i \<le> ks ! k"
      using le [of i] le [of k] that assms(2) by force
    moreover have "ks' ! parent i = ks ! parent i"
      using assms(2,3) par [of i] that by simp
    moreover have "ks' ! k = ks ! k"
      using assms(3) [of k] par [of k] that by auto
    ultimately show ?thesis by simp
  qed
  ultimately show ?thesis by (auto simp: hole_def)
qed

lemma hole_swap_up:
  assumes h: "hole ks j n" and b: "below_ok ks j n" and n: "n \<le> length ks" "0 < j" "j < n"
    and lt: "ks ! j < ks ! parent j"
  defines "i \<equiv> parent j"
  defines "ks' \<equiv> ks[i := ks ! j, j := ks ! i]"
  shows "hole ks' i n \<and> below_ok ks' i n"
proof -
  have ij: "i < j" unfolding i_def using n by (simp add: parent_less)
  have upd: "ks' ! k = (if k = j then ks ! i else if k = i then ks ! j else ks ! k)" if "k < n" for k
    unfolding ks'_def using that n ij by (intro nth_list_swap) auto
  note par = parent_less
  have le: "ks ! parent k \<le> ks ! k" if "0 < k" "k < n" "k \<noteq> j" for k
    using h b that unfolding hole_def below_ok_def by (cases "parent k = j") auto
  have grand: "ks ! i \<le> ks ! k" if "0 < k" "k < n" "parent k = j" for k
    using h that n unfolding hole_def i_def by blast
  have "below_ok ks' i n"
    unfolding below_ok_def
  proof (intro allI impI)
    fix k assume k: "0 < k \<and> k < n \<and> parent k = i"
    show "ks' ! i \<le> ks' ! k"
      using k le [of k] lt ij par [of k] n by (auto simp: upd i_def)
  qed
  moreover have "ks' ! parent k \<le> ks' ! k" if k: "0 < k" "k < n" "k \<noteq> i" "parent k \<noteq> i" for k
    using k le [of k] grand [of k] par [of k] by (auto simp: upd i_def)
  moreover have "ks' ! parent i \<le> ks' ! k" if k: "0 < i" "0 < k" "k < n" "parent k = i" for k
  proof -
    have "ks' ! parent i = ks ! parent i"
      using par [of i] k ij n by (simp add: upd)
    moreover have "ks ! parent i \<le> ks ! i" using le [of i] k ij n by simp
    moreover have "ks ! i \<le> ks' ! k"
      using k le [of k] par [of k] by (auto simp: upd)
    ultimately show ?thesis by simp
  qed
  ultimately show ?thesis by (auto simp: hole_def)
qed

lemma hole_swap_down:
  assumes h: "hole ks i n" and n: "n \<le> length ks" and j: "0 < j" "j < n" "parent j = i"
    and lt: "ks ! j < ks ! i" and least: "\<And>k. 0 < k \<Longrightarrow> k < n \<Longrightarrow> parent k = i \<Longrightarrow> ks ! j \<le> ks ! k"
  defines "ks' \<equiv> ks[i := ks ! j, j := ks ! i]"
  shows "hole ks' j n \<and> above_ok ks' j"
proof -
  note par = parent_less
  have ij: "i < j" using par j by auto
  have upd: "ks' ! k = (if k = j then ks ! i else if k = i then ks ! j else ks ! k)" if "k < n" for k
    unfolding ks'_def using that n ij j by (intro nth_list_swap) auto
  have le: "ks ! parent k \<le> ks ! k" if "0 < k" "k < n" "k \<noteq> i" "parent k \<noteq> i" for k
    using h that by (auto simp: hole_def)
  have grand: "ks ! parent i \<le> ks ! j" if "0 < i"
    using h j that by (auto simp: hole_def)
  have "above_ok ks' j"
    using j lt ij by (auto simp: above_ok_def upd)
  moreover have "ks' ! parent k \<le> ks' ! k" if k: "0 < k" "k < n" "k \<noteq> j" "parent k \<noteq> j" for k
    using k le [of k] least [of k] grand par [of k] by (auto simp: upd)
  moreover have "ks' ! parent j \<le> ks' ! k" if k: "0 < j" "0 < k" "k < n" "parent k = j" for k
    using k le [of k] par [of k] ij j by (auto simp: upd)
  ultimately show ?thesis by (auto simp: hole_def)
qed

subsection \<open>Correctness for every implementation of the interface\<close>

locale heap_iface =
  fixes keys :: "'s \<Rightarrow> 'k::linorder list"
    and lt :: "'s \<Rightarrow> nat \<Rightarrow> nat \<Rightarrow> bool"
    and sw :: "'s \<Rightarrow> nat \<Rightarrow> nat \<Rightarrow> 's"
    and ok :: "'s \<Rightarrow> bool"
  assumes lt_iff: "ok s \<Longrightarrow> i < length (keys s) \<Longrightarrow> j < length (keys s) \<Longrightarrow>
      lt s i j \<longleftrightarrow> keys s ! i < keys s ! j"
    and keys_sw: "ok s \<Longrightarrow> i < length (keys s) \<Longrightarrow> j < length (keys s) \<Longrightarrow>
      keys (sw s i j) = (keys s)[i := keys s ! j, j := keys s ! i]"
    and ok_sw: "ok s \<Longrightarrow> i < length (keys s) \<Longrightarrow> j < length (keys s) \<Longrightarrow> ok (sw s i j)"
begin

lemma up_correct:
  assumes "ok s" "n \<le> length (keys s)" "j < n" "hole (keys s) j n" "below_ok (keys s) j n"
  shows "heap_upto (keys (heap_up lt sw s j)) n"
  using assms
proof (induction j arbitrary: s rule: less_induct)
  case (less j s)
  let ?i = "parent j"
  have i: "?i \<le> j" by (rule parent_le)
  have iff: "lt s j ?i \<longleftrightarrow> keys s ! j < keys s ! ?i"
    using less.prems i by (intro lt_iff) auto
  show ?case
  proof (cases "?i = j \<or> \<not> lt s j ?i")
    case True
    then have "above_ok (keys s) j" using iff by (auto simp: above_ok_def)
    then have "heap_upto (keys s) n" using less.prems by (blast intro: heap_uptoI)
    with True show ?thesis by (subst heap_up.simps) (simp only: Let_def if_True)
  next
    case False
    then have ij: "?i < j" "0 < j" and lt: "keys s ! j < keys s ! ?i" using i iff by (auto intro: gr0I)
    have sw: "keys (sw s ?i j) = (keys s)[?i := keys s ! j, j := keys s ! ?i]" "ok (sw s ?i j)"
      using less.prems ij by (auto intro: keys_sw ok_sw)
    have "hole (keys (sw s ?i j)) ?i n \<and> below_ok (keys (sw s ?i j)) ?i n"
      unfolding sw(1) using less.prems ij lt by (intro hole_swap_up) auto
    then have "heap_upto (keys (heap_up lt sw (sw s ?i j) ?i)) n"
      using less.prems ij sw by (intro less.IH) auto
    with False show ?thesis by (subst heap_up.simps) (simp only: Let_def if_False)
  qed
qed

lemma down_correct:
  assumes "ok s" "n \<le> length (keys s)" "i < n" "hole (keys s) i n"
  shows "(snd (heap_down lt sw s i n) = i \<and> fst (heap_down lt sw s i n) = s \<and> below_ok (keys s) i n)
    \<or> (i < snd (heap_down lt sw s i n) \<and> heap_upto (keys (fst (heap_down lt sw s i n))) n)"
  using assms
proof (induction "n - i" arbitrary: s i rule: less_induct)
  case (less i s)
  define j where "j = (if 2 * i + 2 < n \<and> lt s (2 * i + 2) (2 * i + 1) then 2 * i + 2 else 2 * i + 1)"
  consider (leaf) "n \<le> 2 * i + 1" | (stay) "2 * i + 1 < n" "\<not> lt s j i" | (move) "2 * i + 1 < n" "lt s j i"
    by fastforce
  then show ?case
  proof cases
    case leaf
    then show ?thesis by (simp add: heap_down_leaf below_ok_iff)
  next
    case stay
    have j: "j < n" using stay(1) by (auto simp: j_def)
    have eq: "heap_down lt sw s i n = (s, i)"
      using heap_down_inner [of i n j lt s sw] stay j_def by simp
    have "keys s ! i \<le> keys s ! j"
      using stay(2) less.prems j by (auto simp: lt_iff)
    moreover have "keys s ! j \<le> keys s ! (2 * i + 1)" "2 * i + 2 < n \<Longrightarrow> keys s ! j \<le> keys s ! (2 * i + 2)"
      using less.prems stay(1) by (auto simp: j_def lt_iff)
    ultimately have "below_ok (keys s) i n" by (fastforce simp: below_ok_iff)
    with eq show ?thesis by simp
  next
    case move
    have j: "j < n" "0 < j" "parent j = i" "i < j" using move(1) by (auto simp: j_def parent_def)
    have eq: "heap_down lt sw s i n = heap_down lt sw (sw s i j) j n"
      using heap_down_inner [of i n j lt s sw] move j_def by simp
    have lt: "keys s ! j < keys s ! i"
      using move(2) less.prems j by (auto simp: lt_iff)
    have least: "keys s ! j \<le> keys s ! k" if "0 < k" "k < n" "parent k = i" for k
      using that less.prems unfolding j_def by (auto simp: parent_iff lt_iff)
    have sw: "keys (sw s i j) = (keys s)[i := keys s ! j, j := keys s ! i]" "ok (sw s i j)"
      using less.prems j by (auto intro: keys_sw ok_sw)
    have hole: "hole (keys (sw s i j)) j n \<and> above_ok (keys (sw s i j)) j"
      unfolding sw(1) using less.prems j lt least by (intro hole_swap_down) auto
    have "(snd (heap_down lt sw (sw s i j) j n) = j \<and> fst (heap_down lt sw (sw s i j) j n) = sw s i j
        \<and> below_ok (keys (sw s i j)) j n)
      \<or> (j < snd (heap_down lt sw (sw s i j) j n) \<and> heap_upto (keys (fst (heap_down lt sw (sw s i j) j n))) n)"
      using less.prems j sw hole by (intro less.hyps) auto
    then show ?thesis
      unfolding eq using hole j(4) heap_uptoI by fastforce
  qed
qed

lemma sift_correct:
  assumes "ok s" "n \<le> length (keys s)" "i < n" "hole (keys s) i n"
  shows "heap_upto (keys (heap_sift lt sw s i n)) n"
  using down_correct [OF assms] up_correct [OF assms]
  by (cases "heap_down lt sw s i n") (auto simp: heap_sift_def)

end

end
