(* ===== verification/Cache.thy ===== *)
theory Cache
  imports Go_Heap
begin

text \<open>
  The TTL cache of \<^verbatim>\<open>src/cache/cache.go\<close>. The elements are objects shared by a map
  from keys and by a priority queue ordered by expiry, and each element knows its position in
  the queue; so the model has an explicit store (\<open>mem\<close>) from addresses to elements, a queue of
  addresses and a map from keys to addresses. \<open>cache_inv\<close> says that the three agree and that
  the queue is a heap; every operation keeps it, and through \<open>cache_abs\<close> the operations are
  those of a map from keys to values with their expiry. An operation holds the mutex for its
  whole body and is one step of the model; the interleavings of the cleaner and of closing are
  the subject of \<open>Cache_Cleaner\<close>.
\<close>

subsection \<open>State\<close>

type_synonym addr = nat

record 'v element =
  index :: int
  key :: string
  "value" :: 'v
  ttl :: duration
  expTime :: instant

text \<open>\<open>mem\<close> and \<open>nextAddr\<close> are the Go heap: the objects, and the next unused address.\<close>

record 'v cache =
  closed :: bool
  queue :: "addr list"
  elements :: "(string, addr) mapping"
  mem :: "addr \<Rightarrow> 'v element"
  nextAddr :: addr

definition nil_element :: "'v element" where
  "nil_element = \<lparr>index = - 1, key = [], value = undefined, ttl = 0, expTime = Instant 0\<rparr>"

definition NewTTLCache :: "'v cache" where
  "NewTTLCache = \<lparr>closed = False, queue = [], elements = Mapping.empty, mem = (\<lambda>_. nil_element), nextAddr = 0\<rparr>"

subsection \<open>The priority queue\<close>

definition hasExpired :: "instant \<Rightarrow> 'v element \<Rightarrow> bool" where
  "hasExpired now e = (if ttl e = 0 then True else expTime e < now)"

definition pq_Len :: "'v cache \<Rightarrow> nat" where
  "pq_Len c = length (queue c)"

definition pq_first :: "'v cache \<Rightarrow> 'v option" where
  "pq_first c = (if pq_Len c = 0 then None else Some (value (mem c (queue c ! 0))))"

definition pq_Less :: "'v cache \<Rightarrow> nat \<Rightarrow> nat \<Rightarrow> bool" where
  "pq_Less c i j \<longleftrightarrow> expTime (mem c (queue c ! i)) < expTime (mem c (queue c ! j))"

text \<open>The index is written through the pointers now at \<open>i\<close> and \<open>j\<close>.\<close>

definition pq_Swap :: "'v cache \<Rightarrow> nat \<Rightarrow> nat \<Rightarrow> 'v cache" where
  "pq_Swap c i j =
     (let a = queue c ! i; b = queue c ! j;
          c1 = c\<lparr>queue := (queue c)[i := b, j := a]\<rparr>;
          c2 = c1\<lparr>mem := (mem c1)(b := (mem c1 b)\<lparr>index := int i\<rparr>)\<rparr>
      in c2\<lparr>mem := (mem c2)(a := (mem c2 a)\<lparr>index := int j\<rparr>)\<rparr>)"

definition pq_Push :: "'v cache \<Rightarrow> addr \<Rightarrow> 'v cache" where
  "pq_Push c a =
     (let n = length (queue c) in
      c\<lparr>mem := (mem c)(a := (mem c a)\<lparr>index := int n\<rparr>), queue := queue c @ [a]\<rparr>)"

definition pq_Pop :: "'v cache \<Rightarrow> 'v cache" where
  "pq_Pop c =
     (let n = length (queue c); item = queue c ! (n - 1) in
      c\<lparr>mem := (mem c)(item := (mem c item)\<lparr>index := - 1\<rparr>), queue := take (n - 1) (queue c)\<rparr>)"

definition heappush :: "'v cache \<Rightarrow> addr \<Rightarrow> 'v cache" where
  "heappush c a = (let c1 = pq_Push c a in heap_up pq_Less pq_Swap c1 (pq_Len c1 - 1))"

text \<open>\<^verbatim>\<open>heap.Remove(q, i)\<close>: a swap, or the final pop of an empty queue, panics for an
  index outside the queue.\<close>

definition heapremove :: "'v cache \<Rightarrow> int \<Rightarrow> 'v cache outcome" where
  "heapremove c idx =
     (if idx < 0 \<or> int (pq_Len c) \<le> idx then Inl IndexOutOfRange
      else let i = nat idx; n = pq_Len c - 1 in
        Inr (pq_Pop (if n \<noteq> i then heap_sift pq_Less pq_Swap (pq_Swap c i n) i n else c)))"

text \<open>\<^verbatim>\<open>heap.Fix(q, i)\<close>: \<open>-1\<close> is its own parent, so nothing happens; an index below
  it, or one past the end, panics when it is compared.\<close>

definition heapify :: "'v cache \<Rightarrow> int \<Rightarrow> 'v cache outcome" where
  "heapify c idx =
     (if idx < - 1 \<or> (0 < idx \<and> int (pq_Len c) \<le> idx) then Inl IndexOutOfRange
      else if idx = - 1 then Inr c
      else Inr (heap_sift pq_Less pq_Swap c (nat idx) (pq_Len c)))"

subsection \<open>The operations of the cache\<close>

definition add0 :: "'v cache \<Rightarrow> addr \<Rightarrow> 'v cache" where
  "add0 c a =
     (let c1 = heappush c a in
      c1\<lparr>elements := Mapping.update (key (mem c1 a)) a (elements c1)\<rparr>)"

definition update0 :: "'v cache \<Rightarrow> addr \<Rightarrow> 'v \<Rightarrow> duration \<Rightarrow> instant \<Rightarrow> 'v cache outcome" where
  "update0 c a v d t =
     (let c1 = c\<lparr>mem := (mem c)(a := (mem c a)\<lparr>ttl := d, value := v, expTime := t\<rparr>)\<rparr>
      in heapify c1 (index (mem c1 a)))"

definition remove0 :: "'v cache \<Rightarrow> addr \<Rightarrow> 'v cache outcome" where
  "remove0 c a =
     (let c1 = c\<lparr>elements := Mapping.delete (key (mem c a)) (elements c)\<rparr>
      in heapremove c1 (index (mem c1 a)))"

definition Size :: "'v cache \<Rightarrow> int" where
  "Size c = (if closed c then - 1 else int (Mapping.size (elements c)))"

definition First :: "'v cache \<Rightarrow> 'v option" where
  "First c = (if closed c then None else pq_first c)"

definition Get :: "string \<Rightarrow> 'v cache \<Rightarrow> 'v option" where
  "Get k c =
     (if closed c then None
      else case Mapping.lookup (elements c) k of
        Some a \<Rightarrow> Some (value (mem c a)) | None \<Rightarrow> None)"

text \<open>
  The boolean result of \<open>Put\<close> and \<open>Remove\<close> is also the flag on which the deferred
  \<^verbatim>\<open>setchanges\<close> notifies the cleaner.
\<close>

definition Put :: "instant \<Rightarrow> string \<Rightarrow> 'v \<Rightarrow> duration \<Rightarrow> 'v cache \<Rightarrow> ('v cache \<times> bool) outcome" where
  "Put now k v d c =
     (if d < 0 then Inl (Explicit ''ttl < 0'')
      else if closed c then Inr (c, False)
      else let expireAt = add_dur now d in
        case Mapping.lookup (elements c) k of
          Some a \<Rightarrow> and_then (update0 c a v d expireAt) (\<lambda>c'. Inr (c', True))
        | None \<Rightarrow>
            let a = nextAddr c;
                e = \<lparr>index = - 1, key = k, value = v, ttl = d, expTime = expireAt\<rparr>;
                c1 = c\<lparr>mem := (mem c)(a := e), nextAddr := a + 1\<rparr>
            in Inr (add0 c1 a, True))"

definition Remove :: "string \<Rightarrow> 'v cache \<Rightarrow> ('v cache \<times> bool) outcome" where
  "Remove k c =
     (if closed c then Inr (c, False)
      else case Mapping.lookup (elements c) k of
        Some a \<Rightarrow> and_then (remove0 c a) (\<lambda>c'. Inr (c', True))
      | None \<Rightarrow> Inr (c, False))"

text \<open>\<open>doClose\<close> returns whether the cache was closed before; \<^verbatim>\<open>Close\<close> closes the
  control channel if it was not.\<close>

definition doClose :: "'v cache \<Rightarrow> 'v cache \<times> bool" where
  "doClose c = (c\<lparr>closed := True\<rparr>, closed c)"

definition pauseTime :: "instant \<Rightarrow> 'v cache \<Rightarrow> duration" where
  "pauseTime now c =
     (if pq_Len c > 0
      then let result = until now (expTime (mem c (queue c ! 0)))
           in if result < 0 then Millisecond else result
      else Minute * 10)"

lemma length_heapremove:
  assumes "heapremove c idx = Inr c'"
  shows "Suc (length (queue c')) = length (queue c)"
proof -
  let ?n = "length (queue c) - 1"
  have idx: "0 \<le> idx" "idx < int (length (queue c))"
    using assms by (auto simp: heapremove_def pq_Len_def split: if_splits)
  have len: "length (queue (pq_Swap d i j)) = length (queue d)" for d :: "'a cache" and i j
    by (simp add: pq_Swap_def Let_def)
  have "length (queue (heap_sift pq_Less pq_Swap (pq_Swap c (nat idx) ?n) (nat idx) ?n)) = length (queue c)"
    if "nat idx < ?n"
    by (rule heap_sift_preserves [of "\<lambda>d. length (queue d) = length (queue c)"]) (use that len in auto)
  then show ?thesis
    using assms idx
    by (auto simp: heapremove_def pq_Len_def pq_Pop_def Let_def split: if_splits)
qed

lemma length_remove0: "remove0 c a = Inr c' \<Longrightarrow> Suc (length (queue c')) = length (queue c)"
  by (auto simp: remove0_def Let_def dest: length_heapremove)

text \<open>
  The loop of \<^verbatim>\<open>clearExpired\<close> from position \<open>i\<close>; \<open>clk i\<close> is the clock read when
  the element at position \<open>i\<close> is tested.
\<close>

function clear_loop :: "(nat \<Rightarrow> instant) \<Rightarrow> nat \<Rightarrow> 'v cache \<Rightarrow> 'v cache outcome" where
  "clear_loop clk i c =
     (if i < pq_Len c then
        let a = queue c ! i in
        if \<not> hasExpired (clk i) (mem c a) then Inr c
        else case remove0 c a of Inl e \<Rightarrow> Inl e | Inr c' \<Rightarrow> clear_loop clk (i + 1) c'
      else Inr c)"
  by pat_completeness auto
termination
  by (relation "measure (\<lambda>(clk, i, c). length (queue c) - i)")
    (auto simp: pq_Len_def dest!: length_remove0)

declare clear_loop.simps [simp del]

definition clearExpired :: "(nat \<Rightarrow> instant) \<Rightarrow> 'v cache \<Rightarrow> 'v cache outcome" where
  "clearExpired clk c = clear_loop clk 0 c"

subsection \<open>Frames: what reordering the queue leaves alone\<close>

definition same_data :: "'v element \<Rightarrow> 'v element \<Rightarrow> bool" where
  "same_data e e' \<longleftrightarrow> key e' = key e \<and> value e' = value e \<and> ttl e' = ttl e \<and> expTime e' = expTime e"

definition same_content :: "'v cache \<Rightarrow> 'v cache \<Rightarrow> bool" where
  "same_content c c' \<longleftrightarrow>
     closed c' = closed c \<and> elements c' = elements c \<and> nextAddr c' = nextAddr c \<and>
     (\<forall>a. same_data (mem c a) (mem c' a)) \<and> mset (queue c') = mset (queue c)"

lemma same_content_refl [simp]: "same_content c c"
  by (simp add: same_content_def same_data_def)

lemma pq_Swap_sel [simp]:
  "queue (pq_Swap c i j) = (queue c)[i := queue c ! j, j := queue c ! i]"
  "key (mem (pq_Swap c i j) a) = key (mem c a)"
  "value (mem (pq_Swap c i j) a) = value (mem c a)"
  "ttl (mem (pq_Swap c i j) a) = ttl (mem c a)"
  "expTime (mem (pq_Swap c i j) a) = expTime (mem c a)"
  "closed (pq_Swap c i j) = closed c"
  "elements (pq_Swap c i j) = elements c"
  "nextAddr (pq_Swap c i j) = nextAddr c"
  by (simp_all add: pq_Swap_def Let_def)

lemma index_pq_Swap:
  "index (mem (pq_Swap c i j) a) =
     (if a = queue c ! i then int j else if a = queue c ! j then int i else index (mem c a))"
  by (simp add: pq_Swap_def Let_def)

lemma same_content_swap:
  assumes "same_content c d" "i < length (queue d)" "j < length (queue d)"
  shows "same_content c (pq_Swap d i j)"
  using assms mset_list_swap [of i "queue d" j]
  by (simp add: same_content_def same_data_def)

lemma same_content_length: "same_content c d \<Longrightarrow> length (queue d) = length (queue c)"
  by (auto simp: same_content_def dest: mset_eq_length)

lemma same_content_set: "same_content c d \<Longrightarrow> set (queue d) = set (queue c)"
  by (auto simp: same_content_def dest: mset_eq_setD)

definition pq_keys :: "'v cache \<Rightarrow> instant list" where
  "pq_keys c = map (\<lambda>a. expTime (mem c a)) (queue c)"

definition pq_ok :: "'v cache \<Rightarrow> bool" where
  "pq_ok c \<longleftrightarrow> distinct (queue c) \<and> (\<forall>i < length (queue c). index (mem c (queue c ! i)) = int i)"

lemma length_pq_keys [simp]: "length (pq_keys c) = length (queue c)"
  by (simp add: pq_keys_def)

lemma pq_keys_Swap:
  assumes "i < length (queue c)" "j < length (queue c)"
  shows "pq_keys (pq_Swap c i j) = (pq_keys c)[i := pq_keys c ! j, j := pq_keys c ! i]"
  using map_list_swap [OF assms] by (simp add: pq_keys_def)

lemma pq_ok_Swap:
  assumes "pq_ok c" "i < length (queue c)" "j < length (queue c)"
  shows "pq_ok (pq_Swap c i j)"
proof -
  have d: "distinct (queue c)" using assms by (simp add: pq_ok_def)
  have "distinct (queue (pq_Swap c i j))"
    using d distinct_list_swap [OF assms(2,3)] by simp
  moreover have "index (mem (pq_Swap c i j) (queue (pq_Swap c i j) ! k)) = int k"
    if "k < length (queue c)" for k
    using assms that d nth_list_swap [OF assms(2,3) that]
    by (auto simp: index_pq_Swap pq_ok_def nth_eq_iff_index_eq)
  ultimately show ?thesis by (simp add: pq_ok_def)
qed

interpretation pq: heap_iface pq_keys pq_Less pq_Swap pq_ok
  by unfold_locales
    (auto simp: pq_keys_Swap intro: pq_ok_Swap, simp_all add: pq_Less_def pq_keys_def)

definition pq_heap :: "'v cache \<Rightarrow> bool" where
  "pq_heap c \<longleftrightarrow> pq_ok c \<and> heap_upto (pq_keys c) (length (queue c))"

lemma sift_facts:
  assumes "pq_ok c" "n \<le> length (queue c)" "i < n" "hole (pq_keys c) i n"
  defines "c' \<equiv> heap_sift pq_Less pq_Swap c i n"
  shows "pq_ok c'" "same_content c c'" "heap_upto (pq_keys c') n"
    "\<And>k. n \<le> k \<Longrightarrow> queue c' ! k = queue c ! k"
proof -
  have "pq_ok c' \<and> same_content c c' \<and> (\<forall>k \<ge> n. queue c' ! k = queue c ! k)"
    unfolding c'_def
  proof (rule heap_sift_preserves [of "\<lambda>d. pq_ok d \<and> same_content c d \<and> (\<forall>k \<ge> n. queue d ! k = queue c ! k)"])
    fix d i j
    assume d: "pq_ok d \<and> same_content c d \<and> (\<forall>k \<ge> n. queue d ! k = queue c ! k)" and ij: "i < n" "j < n"
    then have "i < length (queue d)" "j < length (queue d)"
      using assms(2) same_content_length by fastforce+
    with d ij show "pq_ok (pq_Swap d i j) \<and> same_content c (pq_Swap d i j) \<and>
        (\<forall>k \<ge> n. queue (pq_Swap d i j) ! k = queue c ! k)"
      by (auto intro: pq_ok_Swap same_content_swap)
  qed (use assms in auto)
  then show "pq_ok c'" "same_content c c'" "\<And>k. n \<le> k \<Longrightarrow> queue c' ! k = queue c ! k"
    by auto
  show "heap_upto (pq_keys c') n"
    unfolding c'_def using assms by (intro pq.sift_correct) auto
qed

lemma up_facts:
  assumes "pq_ok c" "i < length (queue c)" "hole (pq_keys c) i (length (queue c))"
    "below_ok (pq_keys c) i (length (queue c))"
  defines "c' \<equiv> heap_up pq_Less pq_Swap c i"
  shows "pq_heap c'" "same_content c c'"
proof -
  have *: "pq_ok c' \<and> same_content c c'"
    unfolding c'_def
    by (rule heap_up_preserves [of "\<lambda>d. pq_ok d \<and> same_content c d" "length (queue c)"])
      (use assms in \<open>auto intro: pq_ok_Swap same_content_swap simp: same_content_length\<close>)
  then show "same_content c c'" by simp
  then have "length (queue c') = length (queue c)" by (rule same_content_length)
  with * show "pq_heap c'"
    using pq.up_correct [of c "length (queue c)" i] assms by (simp add: pq_heap_def)
qed

subsection \<open>The operations of the queue\<close>

text \<open>
  \<open>keeps c c'\<close>: the map, the flag and the data of every element are those of \<open>c\<close>; only the
  queue and the positions may differ.
\<close>

definition keeps :: "'v cache \<Rightarrow> 'v cache \<Rightarrow> bool" where
  "keeps c c' \<longleftrightarrow>
     closed c' = closed c \<and> elements c' = elements c \<and> nextAddr c' = nextAddr c \<and>
     (\<forall>a. same_data (mem c a) (mem c' a))"

lemma keepsD:
  assumes "keeps c c'"
  shows "closed c' = closed c" "elements c' = elements c" "nextAddr c' = nextAddr c"
    "key (mem c' a) = key (mem c a)" "value (mem c' a) = value (mem c a)"
    "ttl (mem c' a) = ttl (mem c a)" "expTime (mem c' a) = expTime (mem c a)"
  using assms by (simp_all add: keeps_def same_data_def)

lemma keeps_trans: "keeps c d \<Longrightarrow> keeps d e \<Longrightarrow> keeps c e"
  by (auto simp: keeps_def same_data_def)

lemma same_content_keeps: "same_content c d \<longleftrightarrow> keeps c d \<and> mset (queue d) = mset (queue c)"
  by (auto simp: same_content_def keeps_def)

lemma keeps_pop: "keeps c (pq_Pop c)"
  by (simp add: keeps_def same_data_def pq_Pop_def Let_def)

lemma keeps_push: "keeps c (pq_Push c a)"
  by (simp add: keeps_def same_data_def pq_Push_def Let_def)

lemma queue_pop: "queue (pq_Pop c) = take (length (queue c) - 1) (queue c)"
  by (simp add: pq_Pop_def Let_def)

lemma pq_heap_pop:
  assumes "pq_ok c" "heap_upto (pq_keys c) (length (queue c) - 1)"
  shows "pq_heap (pq_Pop c)"
proof -
  let ?n = "length (queue c) - 1"
  have d: "distinct (queue c)" using assms(1) by (simp add: pq_ok_def)
  have ne: "queue c ! k \<noteq> queue c ! ?n" if "k < ?n" for k
    using d that by (simp add: nth_eq_iff_index_eq)
  have "pq_ok (pq_Pop c)"
    using assms(1) ne d by (auto simp: pq_ok_def pq_Pop_def Let_def)
  moreover have "pq_keys (pq_Pop c) = take ?n (pq_keys c)"
    by (simp add: pq_keys_def queue_pop keepsD(7) [OF keeps_pop] take_map)
  moreover have "heap_upto (take ?n (pq_keys c)) ?n"
    unfolding heap_upto_def
  proof (intro allI impI)
    fix k assume k: "0 < k \<and> k < ?n"
    then have "parent k < ?n" using parent_less [of k] by simp
    with k assms(2) show "take ?n (pq_keys c) ! parent k \<le> take ?n (pq_keys c) ! k"
      by (simp add: heap_upto_def)
  qed
  ultimately show ?thesis by (simp add: pq_heap_def queue_pop)
qed

lemma heapremove_facts:
  assumes c: "pq_heap c" and i: "i < length (queue c)"
  obtains c' where "heapremove c (int i) = Inr c'" "pq_heap c'" "keeps c c'"
    "add_mset (queue c ! i) (mset (queue c')) = mset (queue c)"
proof -
  let ?n = "length (queue c) - 1"
  define d where "d = (if ?n \<noteq> i then heap_sift pq_Less pq_Swap (pq_Swap c i ?n) i ?n else c)"
  have ok: "pq_ok c" and heap: "heap_upto (pq_keys c) (length (queue c))"
    using c by (auto simp: pq_heap_def)
  have n: "?n < length (queue c)" using i by auto
  have "pq_ok d \<and> same_content c d \<and> heap_upto (pq_keys d) ?n \<and> queue d ! ?n = queue c ! i"
  proof (cases "?n = i")
    case True
    with ok heap show ?thesis by (auto simp: d_def heap_upto_def)
  next
    case False
    then have i': "i < ?n" using i by auto
    let ?s = "pq_Swap c i ?n"
    have "heap_upto (pq_keys c) ?n" using heap by (auto simp: heap_upto_def)
    moreover have "pq_keys ?s ! k = pq_keys c ! k" if "k < ?n" "k \<noteq> i" for k
      using that i n nth_list_swap [of i "pq_keys c" ?n k] by (simp add: pq_keys_Swap)
    ultimately have "hole (pq_keys ?s) i ?n" using i' by (blast intro: heap_upto_hole)
    then have facts: "pq_ok d" "same_content ?s d" "heap_upto (pq_keys d) ?n" "queue d ! ?n = queue ?s ! ?n"
      using sift_facts [of ?s ?n i] pq_ok_Swap [OF ok i n] i' False by (simp_all add: d_def)
    have "same_content c ?s" by (rule same_content_swap) (use i n in auto)
    with facts(2) have "same_content c d"
      by (auto simp: same_content_keeps intro: keeps_trans)
    with facts i n show ?thesis by simp
  qed
  then have d: "pq_ok d" "same_content c d" "heap_upto (pq_keys d) ?n" "queue d ! ?n = queue c ! i" by auto
  have len: "length (queue d) = length (queue c)" by (rule same_content_length) (rule d)
  have eq: "heapremove c (int i) = Inr (pq_Pop d)"
    using i by (simp add: heapremove_def pq_Len_def Let_def d_def)
  have "queue d = take ?n (queue d) @ [queue d ! ?n]"
    using n len by (metis take_Suc_conv_app_nth Suc_diff_1 gr_implies_not0 neq0_conv order_refl take_all)
  then have "mset (queue d) = add_mset (queue d ! ?n) (mset (take ?n (queue d)))"
    by (metis mset.simps mset_append union_mset_add_mset_right add.right_neutral)
  then have "add_mset (queue c ! i) (mset (queue (pq_Pop d))) = mset (queue c)"
    using d len by (simp add: queue_pop same_content_def)
  moreover have "pq_heap (pq_Pop d)" using pq_heap_pop [of d] d len by simp
  moreover have "keeps c (pq_Pop d)"
    using d(2) keeps_pop keeps_trans by (auto simp: same_content_keeps)
  ultimately show ?thesis using that eq by blast
qed

lemma heappush_facts:
  assumes c: "pq_heap c" and a: "a \<notin> set (queue c)"
  shows "pq_heap (heappush c a)" "keeps c (heappush c a)"
    "mset (queue (heappush c a)) = add_mset a (mset (queue c))"
proof -
  let ?p = "pq_Push c a"
  let ?n = "length (queue c)"
  have keys: "pq_keys ?p = pq_keys c @ [expTime (mem c a)]" and q: "queue ?p = queue c @ [a]"
    by (simp_all add: pq_keys_def pq_Push_def Let_def)
  have ok: "pq_ok ?p"
    using c a by (auto simp: pq_heap_def pq_ok_def pq_Push_def Let_def nth_append less_Suc_eq)
  have le: "pq_keys ?p ! parent k \<le> pq_keys ?p ! k" if "0 < k" "k < ?n" for k
    using c that parent_less [of k] by (simp add: pq_heap_def heap_upto_def keys nth_append)
  have below: "parent k \<noteq> ?n" if "0 < k" "k < Suc ?n" for k
    using parent_less [of k] that by auto
  have "hole (pq_keys ?p) ?n (Suc ?n)" "below_ok (pq_keys ?p) ?n (Suc ?n)"
    using le below by (auto simp: hole_def below_ok_def less_Suc_eq)
  then have "pq_heap (heap_up pq_Less pq_Swap ?p ?n)" "same_content ?p (heap_up pq_Less pq_Swap ?p ?n)"
    using up_facts [of ?p ?n] ok q by simp_all
  then show "pq_heap (heappush c a)" "keeps c (heappush c a)"
    "mset (queue (heappush c a)) = add_mset a (mset (queue c))"
    using keeps_push [of c a] q keeps_trans
    by (auto simp: heappush_def Let_def pq_Len_def same_content_keeps)
qed

lemma heapify_facts:
  assumes "pq_ok c" "i < length (queue c)" "hole (pq_keys c) i (length (queue c))"
  obtains c' where "heapify c (int i) = Inr c'" "pq_heap c'" "same_content c c'"
  using sift_facts [of c "length (queue c)" i] assms
  by (auto simp: heapify_def pq_Len_def pq_heap_def same_content_length)

subsection \<open>Invariant and abstraction\<close>

definition cache_inv :: "'v cache \<Rightarrow> bool" where
  "cache_inv c \<longleftrightarrow>
     pq_heap c \<and>
     (\<forall>k a. Mapping.lookup (elements c) k = Some a \<longleftrightarrow> a \<in> set (queue c) \<and> key (mem c a) = k) \<and>
     (\<forall>a \<in> set (queue c). a < nextAddr c)"

text \<open>The cache as a map: the value, the time to live and the expiry stored for a key.\<close>

type_synonym 'v entry = "'v \<times> duration \<times> instant"

definition entry_of :: "'v element \<Rightarrow> 'v entry" where
  "entry_of e = (value e, ttl e, expTime e)"

definition cache_abs :: "'v cache \<Rightarrow> string \<Rightarrow> 'v entry option" where
  "cache_abs c k = map_option (\<lambda>a. entry_of (mem c a)) (Mapping.lookup (elements c) k)"

lemma cache_inv_new: "cache_inv NewTTLCache"
  by (simp add: cache_inv_def NewTTLCache_def pq_heap_def pq_ok_def heap_upto_def pq_keys_def)

lemma cache_abs_new: "cache_abs NewTTLCache = Map.empty"
  by (simp add: cache_abs_def NewTTLCache_def fun_eq_iff)

lemma cache_inv_lookup:
  "cache_inv c \<Longrightarrow> Mapping.lookup (elements c) k = Some a \<longleftrightarrow> a \<in> set (queue c) \<and> key (mem c a) = k"
  by (simp add: cache_inv_def)

lemma cache_inv_index:
  assumes "cache_inv c" "a \<in> set (queue c)"
  obtains i where "i < length (queue c)" "queue c ! i = a" "index (mem c a) = int i"
  using assms by (auto simp: cache_inv_def pq_heap_def pq_ok_def in_set_conv_nth)

lemma remove0_facts:
  assumes c: "cache_inv c" and a: "a \<in> set (queue c)"
  obtains c' where "remove0 c a = Inr c'" "cache_inv c'" "closed c' = closed c"
    "cache_abs c' = (cache_abs c)(key (mem c a) := None)" "nextAddr c' = nextAddr c"
    "keeps (c\<lparr>elements := Mapping.delete (key (mem c a)) (elements c)\<rparr>) c'"
    "set (queue c') = set (queue c) - {a}"
proof -
  define d where "d = c\<lparr>elements := Mapping.delete (key (mem c a)) (elements c)\<rparr>"
  obtain i where i: "i < length (queue c)" "queue c ! i = a" "index (mem c a) = int i"
    using c a by (rule cache_inv_index)
  have "pq_heap d"
    using c by (simp add: d_def cache_inv_def pq_heap_def pq_ok_def pq_keys_def)
  then obtain c' where c': "heapremove d (int i) = Inr c'" "pq_heap c'" "keeps d c'"
      "add_mset (queue d ! i) (mset (queue c')) = mset (queue d)"
    by (rule heapremove_facts [of d i]) (use i in \<open>auto simp: d_def\<close>)
  have dist: "distinct (queue c)"
    using c by (simp add: cache_inv_def pq_heap_def pq_ok_def)
  have q: "set (queue c') = set (queue c) - {a}"
  proof -
    have ms: "add_mset a (mset (queue c')) = mset (queue c)" using c'(4) i by (simp add: d_def)
    then have "set (queue c) = insert a (set (queue c'))"
      by (metis set_mset_add_mset_insert set_mset_mset)
    moreover have "a \<notin> set (queue c')"
    proof
      assume "a \<in> set (queue c')"
      then have "2 \<le> count (mset (queue c)) a"
        using ms by (metis count_add_mset count_greater_zero_iff One_nat_def Suc_1 Suc_leI Suc_le_mono set_mset_mset)
      with dist show False by (simp add: distinct_count_atmost_1 a)
    qed
    ultimately show ?thesis by auto
  qed
  have eq: "remove0 c a = Inr c'"
    using c'(1) i by (simp add: remove0_def d_def)
  note k = keepsD [OF c'(3)]
  have uniq: "key (mem c b) \<noteq> key (mem c a)" if "b \<in> set (queue c)" "b \<noteq> a" for b
    using c a that by (metis cache_inv_lookup option.inject)
  have "cache_inv c'"
    unfolding cache_inv_def using c'(2) c q k uniq
    by (auto simp: d_def lookup_mapping_if cache_inv_lookup) (auto simp: cache_inv_def)
  moreover have "cache_abs c' = (cache_abs c)(key (mem c a) := None)"
    using k by (auto simp: cache_abs_def entry_of_def d_def lookup_mapping_if fun_eq_iff)
  ultimately show ?thesis
    using that [OF eq] c'(3) k q by (simp add: d_def)
qed

lemma update0_facts:
  assumes c: "cache_inv c" and a: "a \<in> set (queue c)"
  obtains c' where "update0 c a v d t = Inr c'" "cache_inv c'" "closed c' = closed c"
    "cache_abs c' = (cache_abs c)(key (mem c a) \<mapsto> (v, d, t))"
proof -
  define e where "e = c\<lparr>mem := (mem c)(a := (mem c a)\<lparr>ttl := d, value := v, expTime := t\<rparr>)\<rparr>"
  obtain i where i: "i < length (queue c)" "queue c ! i = a" "index (mem c a) = int i"
    using c a by (rule cache_inv_index)
  have dist: "distinct (queue c)"
    using c by (simp add: cache_inv_def pq_heap_def pq_ok_def)
  have ok: "pq_ok e"
    using c by (auto simp: e_def cache_inv_def pq_heap_def pq_ok_def)
  have ie: "i < length (queue e)" using i by (simp add: e_def)
  have hole: "hole (pq_keys e) i (length (queue e))"
  proof (rule heap_upto_hole)
    show "heap_upto (pq_keys c) (length (queue e))"
      using c by (simp add: cache_inv_def pq_heap_def e_def)
    show "pq_keys e ! k = pq_keys c ! k" if "k < length (queue e)" "k \<noteq> i" for k
      using that i dist by (auto simp: pq_keys_def e_def nth_eq_iff_index_eq)
  qed (rule ie)
  obtain c' where c': "heapify e (int i) = Inr c'" "pq_heap c'" "same_content e c'"
    using heapify_facts [OF ok ie hole] by blast
  have k: "keeps e c'" and q: "set (queue c') = set (queue c)"
    using c'(3) same_content_set [OF c'(3)] by (auto simp: same_content_keeps e_def)
  have "update0 c a v d t = Inr c'"
    using c'(1) i by (simp add: update0_def Let_def e_def)
  moreover have "cache_inv c'"
    unfolding cache_inv_def using c'(2) c q keepsD [OF k]
    by (auto simp: e_def cache_inv_lookup) (auto simp: cache_inv_def)
  moreover have "cache_abs c' = (cache_abs c)(key (mem c a) \<mapsto> (v, d, t))"
  proof
    fix l
    have ka: "Mapping.lookup (elements c) (key (mem c a)) = Some a"
      using c a by (simp add: cache_inv_lookup)
    have "l = key (mem c a)" if "Mapping.lookup (elements c) l = Some a"
      using c that by (simp add: cache_inv_lookup)
    then show "cache_abs c' l = ((cache_abs c)(key (mem c a) \<mapsto> (v, d, t))) l"
      using keepsD [OF k] ka
      by (cases "Mapping.lookup (elements c) l") (auto simp: cache_abs_def entry_of_def e_def)
  qed
  ultimately show ?thesis using that keepsD(1) [OF k] by (simp add: e_def)
qed

lemma add0_facts:
  assumes c: "cache_inv c" and k: "Mapping.lookup (elements c) k = None"
    and c1_def: "c1 = c\<lparr>mem := (mem c)(nextAddr c := \<lparr>index = i, key = k, value = v, ttl = d, expTime = t\<rparr>),
    nextAddr := nextAddr c + 1\<rparr>"
  shows "cache_inv (add0 c1 (nextAddr c))"
    "cache_abs (add0 c1 (nextAddr c)) = (cache_abs c)(k \<mapsto> (v, d, t))"
    "closed (add0 c1 (nextAddr c)) = closed c"
proof -
  let ?a = "nextAddr c"
  let ?h = "heappush c1 ?a"
  have new: "b \<noteq> ?a" if "b \<in> set (queue c)" for b
    using c that by (auto simp: cache_inv_def)
  have absent: "key (mem c b) \<noteq> k" if "b \<in> set (queue c)" for b
    using c k that by (metis cache_inv_lookup option.distinct(1))
  have keys: "pq_keys c1 = pq_keys c"
    using new by (auto simp: pq_keys_def c1_def)
  have ok: "pq_ok c1"
    using c new by (auto simp: c1_def cache_inv_def pq_heap_def pq_ok_def)
  have "pq_heap c1"
    using c ok keys by (simp add: c1_def cache_inv_def pq_heap_def)
  moreover have "?a \<notin> set (queue c1)" using new by (auto simp: c1_def)
  ultimately have h: "pq_heap ?h" "keeps c1 ?h" "mset (queue ?h) = add_mset ?a (mset (queue c1))"
    by (rule heappush_facts)+
  have q: "set (queue ?h) = insert ?a (set (queue c))"
    using arg_cong [OF h(3), of set_mset] by (simp add: c1_def)
  note s = keepsD [OF h(2)]
  let ?r = "add0 c1 ?a"
  have key_r: "key (mem ?r b) = (if b = ?a then k else key (mem c b))"
    and entry_r: "entry_of (mem ?r b) = (if b = ?a then (v, d, t) else entry_of (mem c b))" for b
    using s by (simp_all add: add0_def Let_def c1_def entry_of_def)
  have elem_r: "elements ?r = Mapping.update k ?a (elements c)" and "nextAddr ?r = nextAddr c + 1"
    and queue_r: "set (queue ?r) = insert ?a (set (queue c))" and "closed ?r = closed c"
    using s q by (simp_all add: add0_def Let_def c1_def)
  then show "closed ?r = closed c" by simp
  have fresh: "Mapping.lookup (elements c) l \<noteq> Some ?a" for l
    using new by (auto simp: cache_inv_lookup [OF c])
  have "pq_heap ?r"
    using h(1) by (simp add: add0_def Let_def pq_heap_def pq_ok_def pq_keys_def)
  moreover have "Mapping.lookup (elements ?r) l = Some b \<longleftrightarrow> b \<in> set (queue ?r) \<and> key (mem ?r b) = l" for l b
    using new [of b] absent [of b] cache_inv_lookup [OF c, of l b] fresh [of l]
    unfolding elem_r queue_r key_r lookup_mapping_if by auto
  moreover have "b < nextAddr ?r" if "b \<in> set (queue ?r)" for b
    using that queue_r \<open>nextAddr ?r = nextAddr c + 1\<close> c by (auto simp: cache_inv_def less_SucI)
  ultimately show "cache_inv ?r" by (simp add: cache_inv_def)
  show "cache_abs ?r = (cache_abs c)(k \<mapsto> (v, d, t))"
  proof
    fix l
    show "cache_abs ?r l = ((cache_abs c)(k \<mapsto> (v, d, t))) l"
      using fresh [of l] unfolding cache_abs_def elem_r entry_r lookup_mapping_if
      by (cases "Mapping.lookup (elements c) l") auto
  qed
qed

subsection \<open>The contract of the cache\<close>

lemma Put_facts:
  assumes "cache_inv c" "\<not> closed c" "0 \<le> d"
  obtains c' where "Put now k v d c = Inr (c', True)" "cache_inv c'" "\<not> closed c'"
    "cache_abs c' = (cache_abs c)(k \<mapsto> (v, d, add_dur now d))"
proof (cases "Mapping.lookup (elements c) k")
  case None
  then show ?thesis
    using add0_facts [OF assms(1) None refl] assms that by (simp add: Put_def Let_def)
next
  case (Some a)
  then have a: "a \<in> set (queue c)" "key (mem c a) = k"
    using assms(1) by (auto simp: cache_inv_lookup)
  obtain c' where "update0 c a v d (add_dur now d) = Inr c'" "cache_inv c'" "closed c' = closed c"
    "cache_abs c' = (cache_abs c)(key (mem c a) \<mapsto> (v, d, add_dur now d))"
    using assms(1) a(1) by (rule update0_facts)
  with Some a assms that show ?thesis by (simp add: Put_def Let_def)
qed

lemma Remove_facts:
  assumes "cache_inv c" "\<not> closed c"
  obtains c' where "Remove k c = Inr (c', cache_abs c k \<noteq> None)" "cache_inv c'" "\<not> closed c'"
    "cache_abs c' = (cache_abs c)(k := None)"
proof (cases "Mapping.lookup (elements c) k")
  case None
  then have "cache_abs c k = None" by (simp add: cache_abs_def)
  moreover from this have "cache_abs c = (cache_abs c)(k := None)" by auto
  ultimately show ?thesis using None assms that [of c] by (simp add: Remove_def)
next
  case (Some a)
  then have a: "a \<in> set (queue c)" "key (mem c a) = k"
    using assms(1) by (auto simp: cache_inv_lookup)
  obtain c' where "remove0 c a = Inr c'" "cache_inv c'" "closed c' = closed c"
    "cache_abs c' = (cache_abs c)(key (mem c a) := None)"
    using assms(1) a(1) by (rule remove0_facts)
  with Some a assms that show ?thesis by (simp add: Remove_def cache_abs_def)
qed

text \<open>
  What the command handlers rely on: a store of pending keys in which a put makes a key pending
  and a remove takes it away and tells whether it was there.
\<close>

locale ttl_store =
  fixes inv :: "'c \<Rightarrow> bool"
    and pending :: "'c \<Rightarrow> string \<Rightarrow> 'e option"
    and put :: "instant \<Rightarrow> string \<Rightarrow> 'v \<Rightarrow> duration \<Rightarrow> 'c \<Rightarrow> ('c \<times> bool) outcome"
    and rem :: "string \<Rightarrow> 'c \<Rightarrow> ('c \<times> bool) outcome"
    and mk :: "instant \<Rightarrow> 'v \<Rightarrow> duration \<Rightarrow> 'e"
  assumes put_law: "inv c \<Longrightarrow> 0 \<le> d \<Longrightarrow>
      \<exists>c'. put now k v d c = Inr (c', True) \<and> inv c' \<and> pending c' = (pending c)(k \<mapsto> mk now v d)"
    and rem_law: "inv c \<Longrightarrow>
      \<exists>c'. rem k c = Inr (c', pending c k \<noteq> None) \<and> inv c' \<and> pending c' = (pending c)(k := None)"
begin

text \<open>A key that was put is taken exactly once.\<close>

lemma put_rem_once:
  assumes "inv c" "0 \<le> d"
  obtains c1 c2 c3 where "put now k v d c = Inr (c1, True)" "rem k c1 = Inr (c2, True)"
    "rem k c2 = Inr (c3, False)" "inv c3" "pending c3 = (pending c)(k := None)"
proof -
  obtain c1 where 1: "put now k v d c = Inr (c1, True)" "inv c1" "pending c1 = (pending c)(k \<mapsto> mk now v d)"
    using put_law [OF assms] by blast
  obtain c2 where 2: "rem k c1 = Inr (c2, pending c1 k \<noteq> None)" "inv c2" "pending c2 = (pending c1)(k := None)"
    using rem_law [OF 1(2)] by blast
  obtain c3 where 3: "rem k c2 = Inr (c3, pending c2 k \<noteq> None)" "inv c3" "pending c3 = (pending c2)(k := None)"
    using rem_law [OF 2(2)] by blast
  show ?thesis
    by (rule that [of c1 c2 c3]) (use 1 2 3 in simp_all)
qed

end

interpretation cache_store: ttl_store "\<lambda>c. cache_inv c \<and> \<not> closed c" cache_abs Put Remove
  "\<lambda>now v d. (v, d, add_dur now d)"
proof (unfold_locales, goal_cases)
  case (1 c d now k v)
  then show ?case by (metis Put_facts)
next
  case (2 c k)
  then show ?case by (metis Remove_facts)
qed

subsection \<open>The cleaner's pass\<close>

text \<open>An entry the pass may drop at clock \<open>now\<close>.\<close>

definition entry_expired :: "instant \<Rightarrow> 'v entry \<Rightarrow> bool" where
  "entry_expired now e \<longleftrightarrow> (case e of (v, d, t) \<Rightarrow> d = 0 \<or> t < now)"

lemma hasExpired_entry: "hasExpired now e = entry_expired now (entry_of e)"
  by (simp add: hasExpired_def entry_expired_def entry_of_def)

lemma clear_loop_facts:
  "cache_inv c \<Longrightarrow> \<exists>c'. clear_loop clk i c = Inr c' \<and> cache_inv c' \<and> closed c' = closed c \<and>
     cache_abs c' \<subseteq>\<^sub>m cache_abs c \<and>
     (\<forall>k e. cache_abs c k = Some e \<and> cache_abs c' k = None \<longrightarrow> (\<exists>n. entry_expired (clk n) e)) \<and>
     length (queue c') \<le> length (queue c) \<and>
     (i < length (queue c) \<and> hasExpired (clk i) (mem c (queue c ! i)) \<longrightarrow> length (queue c') < length (queue c))"
proof (induction clk i c rule: clear_loop.induct [case_names loop])
  case (loop clk i c)
  let ?a = "queue c ! i"
  show ?case
  proof (cases "i < pq_Len c \<and> hasExpired (clk i) (mem c ?a)")
    case False
    then have "clear_loop clk i c = Inr c"
      by (subst clear_loop.simps) (auto simp: Let_def)
    with False loop.prems show ?thesis by (auto simp: pq_Len_def)
  next
    case True
    then have "?a \<in> set (queue c)" by (simp add: pq_Len_def)
    then obtain d where d: "remove0 c ?a = Inr d" "cache_inv d" "closed d = closed c"
        "cache_abs d = (cache_abs c)(key (mem c ?a) := None)"
      using loop.prems by (metis remove0_facts)
    have len: "Suc (length (queue d)) = length (queue c)" by (rule length_remove0) (rule d)
    have "clear_loop clk i c = clear_loop clk (i + 1) d"
      using True d(1) by (subst clear_loop.simps) (simp add: Let_def)
    moreover obtain c' where c': "clear_loop clk (i + 1) d = Inr c'" "cache_inv c'" "closed c' = closed d"
        "cache_abs c' \<subseteq>\<^sub>m cache_abs d" "length (queue c') \<le> length (queue d)"
        "\<forall>k e. cache_abs d k = Some e \<and> cache_abs c' k = None \<longrightarrow> (\<exists>n. entry_expired (clk n) e)"
      using loop.IH [OF _ refl _ d(1) d(2)] True by auto
    moreover have "cache_abs c' \<subseteq>\<^sub>m cache_abs c"
      using c'(4) d(4) by (auto simp: map_le_def split: if_splits)
    moreover have "\<exists>n. entry_expired (clk n) e" if "cache_abs c k = Some e" "cache_abs c' k = None" for k e
    proof (cases "k = key (mem c ?a)")
      case eq: True
      have "Mapping.lookup (elements c) k = Some ?a"
        using loop.prems eq \<open>?a \<in> set (queue c)\<close> by (simp add: cache_inv_lookup)
      with that(1) True show ?thesis by (auto simp: cache_abs_def hasExpired_entry)
    next
      case False
      then have "cache_abs d k = Some e" using that(1) d(4) by simp
      with c'(6) that(2) show ?thesis by blast
    qed
    ultimately show ?thesis using d(3) len by auto
  qed
qed

lemmas clearExpired_facts = clear_loop_facts [of _ _ 0, folded clearExpired_def]

subsection \<open>Reachable caches\<close>

text \<open>The caches a sequence of operations can produce from a new one.\<close>

inductive cache_step :: "'v cache \<Rightarrow> 'v cache \<Rightarrow> bool" where
  put: "Put now k v d c = Inr (c', b) \<Longrightarrow> cache_step c c'"
| remove: "Remove k c = Inr (c', b) \<Longrightarrow> cache_step c c'"
| clear: "clearExpired clk c = Inr c' \<Longrightarrow> cache_step c c'"
| close: "cache_step c (fst (doClose c))"

inductive cache_reachable :: "'v cache \<Rightarrow> bool" where
  start: "cache_reachable NewTTLCache"
| step: "cache_reachable c \<Longrightarrow> cache_step c c' \<Longrightarrow> cache_reachable c'"

lemma Put_inv:
  assumes "cache_inv c" "Put now k v d c = Inr (c', b)"
  shows "cache_inv c'"
proof (cases "closed c \<or> d < 0")
  case True
  with assms show ?thesis by (auto simp: Put_def split: if_splits)
next
  case False
  with assms Put_facts [of c d now k v] show ?thesis by auto
qed

lemma Remove_inv:
  assumes "cache_inv c" "Remove k c = Inr (c', b)"
  shows "cache_inv c'"
proof (cases "closed c")
  case True
  with assms show ?thesis by (auto simp: Remove_def)
next
  case False
  with assms Remove_facts [of c k] show ?thesis by auto
qed

lemma doClose_inv: "cache_inv c \<Longrightarrow> cache_inv (fst (doClose c))"
  by (simp add: doClose_def cache_inv_def pq_heap_def pq_ok_def pq_keys_def)

lemma cache_step_inv: "cache_step c c' \<Longrightarrow> cache_inv c \<Longrightarrow> cache_inv c'"
proof (induction rule: cache_step.induct)
  case (clear clk c c')
  with clearExpired_facts [OF clear.prems, of clk] show ?case by auto
qed (auto intro: Put_inv Remove_inv doClose_inv)

lemma reachable_inv: "cache_reachable c \<Longrightarrow> cache_inv c"
  by (induction rule: cache_reachable.induct) (auto intro: cache_inv_new cache_step_inv)

subsection \<open>Properties of the cache\<close>

text \<open>A cache with one entry, for the witnesses.\<close>

definition one_entry :: "bool cache" where
  "one_entry = fst (projr (Put (Instant 0) ''id'' True (5 * Second) NewTTLCache))"

lemma one_entry_put: "Put (Instant 0) ''id'' True (5 * Second) NewTTLCache = Inr (one_entry, True)"
  by (simp add: one_entry_def Put_def NewTTLCache_def Let_def duration_defs)

lemma one_entry_reachable: "cache_reachable one_entry"
  by (rule cache_reachable.step [OF cache_reachable.start cache_step.put]) (rule one_entry_put)

lemma one_entry_facts:
  "cache_inv one_entry" "\<not> closed one_entry"
  "cache_abs one_entry = [''id'' \<mapsto> (True, 5 * Second, Instant (5 * Second))]"
proof -
  have "cache_inv NewTTLCache" "\<not> closed NewTTLCache" "0 \<le> 5 * Second"
    by (rule cache_inv_new) (simp_all add: NewTTLCache_def duration_defs)
  then obtain c' where "Put (Instant 0) ''id'' True (5 * Second) NewTTLCache = Inr (c', True)" "cache_inv c'"
      "\<not> closed c'" "cache_abs c' = (cache_abs NewTTLCache)(''id'' \<mapsto> (True, 5 * Second, add_dur (Instant 0) (5 * Second)))"
    by (rule Put_facts)
  then show "cache_inv one_entry" "\<not> closed one_entry"
    "cache_abs one_entry = [''id'' \<mapsto> (True, 5 * Second, Instant (5 * Second))]"
    using one_entry_put by (simp_all add: cache_abs_new add_dur_def)
qed

text \<open>
  (C7) The representation invariant of the cache holds after every sequence of operations: queue
  and map hold the same elements, every element knows its position in the queue, and the queue is
  a heap ordered by expiry.
\<close>

theorem cache_invariant: "cache_reachable c \<Longrightarrow> cache_inv c"
  by (rule reachable_inv)

theorem cache_invariant_witness: "cache_inv one_entry"
  by (rule cache_invariant) (rule one_entry_reachable)

text \<open>
  (C6) \<open>Put\<close> refines the update of a map: it panics exactly for a negative time to live, does
  nothing on a closed cache, and otherwise stores value, time to live and expiry for the key,
  leaves every other key alone and keeps the invariant; no index of the queue is ever out of range.
\<close>

theorem Put_refines:
  assumes "cache_inv c"
  shows "case Put now k v d c of
      Inl p \<Rightarrow> d < 0 \<and> p = Explicit ''ttl < 0''
    | Inr (c', b) \<Rightarrow> 0 \<le> d \<and> cache_inv c' \<and> b = (\<not> closed c) \<and> closed c' = closed c \<and>
        cache_abs c' = (if closed c then cache_abs c else (cache_abs c)(k \<mapsto> (v, d, add_dur now d)))"
proof (cases "closed c \<or> d < 0")
  case True
  with assms show ?thesis by (auto simp: Put_def)
next
  case False
  with assms obtain c' where "Put now k v d c = Inr (c', True)" "cache_inv c'" "\<not> closed c'"
      "cache_abs c' = (cache_abs c)(k \<mapsto> (v, d, add_dur now d))"
    using Put_facts [of c d now k v] by auto
  with False show ?thesis by simp
qed

theorem Put_refines_witness:
  "case Put (Instant 7) ''id2'' True Second one_entry of Inl p \<Rightarrow> False
   | Inr (c', b) \<Rightarrow> cache_inv c' \<and> cache_abs c' ''id2'' = Some (True, Second, Instant (7 + Second))"
  using Put_refines [OF one_entry_facts(1), where now = "Instant 7" and k = "''id2''" and v = True and d = Second] one_entry_facts(2)
  by (auto simp: add_dur_def duration_defs split: sum.splits)

text \<open>
  \<open>Remove\<close> refines the deletion from a map: it never panics, answers whether the key was
  present (on a closed cache always no), and takes exactly that key away.
\<close>

lemma Remove_refines:
  assumes "cache_inv c"
  shows "\<exists>c'. Remove k c = Inr (c', \<not> closed c \<and> cache_abs c k \<noteq> None) \<and> cache_inv c' \<and> closed c' = closed c \<and>
    cache_abs c' = (if closed c then cache_abs c else (cache_abs c)(k := None))"
proof (cases "closed c")
  case True
  with assms show ?thesis by (auto simp: Remove_def)
next
  case False
  with assms obtain c' where "Remove k c = Inr (c', cache_abs c k \<noteq> None)" "cache_inv c'" "\<not> closed c'"
      "cache_abs c' = (cache_abs c)(k := None)"
    by (rule Remove_facts)
  with False show ?thesis by simp
qed

lemma queue_entries:
  assumes "cache_inv c"
  shows "cache_abs c k = Some e \<longleftrightarrow> (\<exists>a \<in> set (queue c). key (mem c a) = k \<and> entry_of (mem c a) = e)"
  using assms by (auto simp: cache_abs_def cache_inv_lookup)

lemma root_first:
  assumes "cache_inv c" "cache_abs c k = Some (v, d, t)"
  shows "queue c \<noteq> []" "expTime (mem c (queue c ! 0)) \<le> t"
proof -
  obtain i where i: "i < length (queue c)" "entry_of (mem c (queue c ! i)) = (v, d, t)"
    using assms queue_entries [OF assms(1)] by (metis in_set_conv_nth)
  have "pq_keys c ! 0 \<le> pq_keys c ! i"
    using assms(1) i(1) by (intro heap_upto_root) (auto simp: cache_inv_def pq_heap_def)
  moreover have "0 < length (queue c)" using i by linarith
  ultimately show "queue c \<noteq> []" "expTime (mem c (queue c ! 0)) \<le> t"
    using i by (auto simp: pq_keys_def entry_of_def)
qed

text \<open>
  The queries of an open cache agree with the map: \<open>Get\<close> returns the stored value,
  \<open>Size\<close> the number of keys, and \<open>First\<close> the value of an entry that expires no later than any
  other, or nothing exactly when the cache is empty.
\<close>

lemma cache_queries:
  assumes "cache_inv c" "\<not> closed c"
  shows "Get k c = map_option fst (cache_abs c k) \<and> Size c = int (card (dom (cache_abs c))) \<and>
    (case First c of
       None \<Rightarrow> cache_abs c = Map.empty
     | Some v \<Rightarrow> \<exists>l d t. cache_abs c l = Some (v, d, t) \<and>
         (\<forall>l' v' d' t'. cache_abs c l' = Some (v', d', t') \<longrightarrow> t \<le> t'))"
proof -
  have "Get k c = map_option fst (cache_abs c k)"
    using assms(2) by (auto simp: Get_def cache_abs_def entry_of_def split: option.splits)
  moreover have "dom (cache_abs c) = Mapping.keys (elements c)"
    by (auto simp: cache_abs_def dom_def keys_dom_lookup)
  then have "Size c = int (card (dom (cache_abs c)))"
    using assms(2) by (simp add: Size_def Mapping.size_def)
  moreover have "case First c of
       None \<Rightarrow> cache_abs c = Map.empty
     | Some v \<Rightarrow> \<exists>l d t. cache_abs c l = Some (v, d, t) \<and>
         (\<forall>l' v' d' t'. cache_abs c l' = Some (v', d', t') \<longrightarrow> t \<le> t')"
  proof (cases "queue c = []")
    case True
    then have "cache_abs c = Map.empty"
      using queue_entries [OF assms(1)] by (metis empty_iff empty_set not_Some_eq)
    with True assms(2) show ?thesis by (simp add: First_def pq_first_def pq_Len_def)
  next
    case False
    let ?r = "mem c (queue c ! 0)"
    have "cache_abs c (key ?r) = Some (value ?r, ttl ?r, expTime ?r)"
      using False queue_entries [OF assms(1), of "key ?r"] by (auto simp: entry_of_def)
    with False assms(2) root_first(2) [OF assms(1)] show ?thesis
      by (auto simp: First_def pq_first_def pq_Len_def)
  qed
  ultimately show ?thesis by blast
qed

text \<open>
  A pass of the cleaner is safe: it never panics, keeps the invariant, only takes entries away,
  and every entry it takes away had expired by a clock it read.
\<close>

lemma clearExpired_sound:
  assumes "cache_inv c"
  shows "\<exists>c'. clearExpired clk c = Inr c' \<and> cache_inv c' \<and> closed c' = closed c \<and> cache_abs c' \<subseteq>\<^sub>m cache_abs c \<and>
    (\<forall>k e. cache_abs c k = Some e \<and> cache_abs c' k = None \<longrightarrow> (\<exists>n. entry_expired (clk n) e))"
  using clearExpired_facts [OF assms, of clk] by blast

text \<open>The cleaner woken repeatedly, with the clock readings of each pass.\<close>

fun clear_passes :: "(nat \<Rightarrow> instant) list \<Rightarrow> 'v cache \<Rightarrow> 'v cache outcome" where
  "clear_passes [] c = Inr c"
| "clear_passes (clk # clks) c = and_then (clearExpired clk c) (clear_passes clks)"

lemma overdue_root:
  assumes "cache_inv c" "cache_abs c k = Some (v, d, t)" "t < now"
  shows "0 < length (queue c)" "hasExpired now (mem c (queue c ! 0))"
  using root_first [OF assms(1,2)] assms(3) by (auto simp: hasExpired_def)

lemma map_le_Some: "f \<subseteq>\<^sub>m g \<Longrightarrow> f k = Some e \<Longrightarrow> g k = Some e"
  by (metis domI map_le_def)

lemma clear_passes_le:
  assumes "cache_inv c"
  shows "\<exists>c'. clear_passes clks c = Inr c' \<and> cache_inv c' \<and> cache_abs c' \<subseteq>\<^sub>m cache_abs c"
  using assms
proof (induction clks arbitrary: c)
  case (Cons clk clks)
  obtain d where d: "clearExpired clk c = Inr d" "cache_inv d" "cache_abs d \<subseteq>\<^sub>m cache_abs c"
    using clearExpired_facts [OF Cons.prems, of clk] by blast
  from Cons.IH [OF d(2)] obtain c' where
    "clear_passes clks d = Inr c'" "cache_inv c'" "cache_abs c' \<subseteq>\<^sub>m cache_abs d" by blast
  with d show ?case by (auto intro: map_le_trans)
qed auto

lemma clear_passes_keeps:
  assumes "cache_inv c" "cache_abs c k = Some e" "\<forall>clk \<in> set clks. \<forall>n. \<not> entry_expired (clk n) e"
  shows "\<exists>c'. clear_passes clks c = Inr c' \<and> cache_inv c' \<and> closed c' = closed c \<and> cache_abs c' k = Some e"
  using assms
proof (induction clks arbitrary: c)
  case (Cons clk clks)
  obtain d where d: "clearExpired clk c = Inr d" "cache_inv d" "closed d = closed c" "cache_abs d \<subseteq>\<^sub>m cache_abs c"
      "\<forall>k e. cache_abs c k = Some e \<and> cache_abs d k = None \<longrightarrow> (\<exists>n. entry_expired (clk n) e)"
    using clearExpired_facts [OF Cons.prems(1), of clk] by blast
  have "cache_abs d k \<noteq> None"
    using d(5) [rule_format, of k e] Cons.prems(2,3) by (metis list.set_intros(1))
  then have "cache_abs d k = Some e" using d(4) Cons.prems(2) by (metis map_le_Some not_Some_eq option.inject)
  with Cons.IH [OF d(2)] Cons.prems(3) d show ?case by auto
qed auto

text \<open>
  Overdue entries are cleared eventually: a pass that reads a clock past an entry's expiry takes
  at least one entry away, so as many passes as there are entries leave nothing whose expiry lies
  before \<open>now\<close>, where \<open>now\<close> is a lower bound of the first clock of each pass.
\<close>

lemma cleaner_drains:
  assumes "cache_inv c" "length (queue c) \<le> length clks" "\<forall>clk \<in> set clks. now \<le> clk 0"
  shows "\<exists>c'. clear_passes clks c = Inr c' \<and> cache_inv c' \<and> cache_abs c' \<subseteq>\<^sub>m cache_abs c \<and>
    (\<forall>k v d t. cache_abs c' k = Some (v, d, t) \<longrightarrow> now \<le> t)"
  using assms
proof (induction clks arbitrary: c)
  case Nil
  then have "queue c = []" by simp
  then have "cache_abs c k \<noteq> Some e" for k e
    using queue_entries [OF Nil.prems(1)] by simp
  with Nil.prems show ?case by auto
next
  case (Cons clk clks)
  obtain d where d: "clearExpired clk c = Inr d" "cache_inv d" "cache_abs d \<subseteq>\<^sub>m cache_abs c"
      "length (queue d) \<le> length (queue c)"
      "0 < length (queue c) \<and> hasExpired (clk 0) (mem c (queue c ! 0)) \<longrightarrow> length (queue d) < length (queue c)"
    using clearExpired_facts [OF Cons.prems(1), of clk] by blast
  show ?case
  proof (cases "length (queue d) \<le> length clks")
    case True
    with Cons.IH [of d] Cons.prems(3) d obtain c' where
      "clear_passes clks d = Inr c'" "cache_inv c'" "cache_abs c' \<subseteq>\<^sub>m cache_abs d"
      "\<forall>k v d t. cache_abs c' k = Some (v, d, t) \<longrightarrow> now \<le> t" by auto
    with d show ?thesis by (auto intro: map_le_trans)
  next
    case False
    \<comment> \<open>nothing was taken away, so nothing was overdue\<close>
    have "now \<le> t" if "cache_abs c k = Some (v, e, t)" for k v e t
    proof (rule ccontr)
      assume "\<not> now \<le> t"
      then have "t < clk 0" using Cons.prems(3) by auto
      with False d(5) Cons.prems(2) overdue_root [OF Cons.prems(1) that] show False by auto
    qed
    moreover obtain c' where c': "clear_passes clks d = Inr c'" "cache_inv c'" "cache_abs c' \<subseteq>\<^sub>m cache_abs d"
      using clear_passes_le [OF d(2), of clks] by blast
    moreover have le: "cache_abs c' \<subseteq>\<^sub>m cache_abs c"
      using c'(3) d(3) by (rule map_le_trans)
    ultimately have "\<forall>k v e t. cache_abs c' k = Some (v, e, t) \<longrightarrow> now \<le> t"
      by (blast dest: map_le_Some [OF le])
    with c' le d(1) show ?thesis by simp
  qed
qed

text \<open>
  The cleaner never oversleeps: its pause ends no later than the expiry of any entry that is not
  overdue, and is one millisecond when an entry is overdue.
\<close>

lemma pauseTime_wakes:
  assumes "cache_inv c" "cache_abs c k = Some (v, d, t)"
  shows "if t < now then pauseTime now c = Millisecond
    else add_dur now (pauseTime now c) \<le> t \<or> pauseTime now c = Millisecond"
proof -
  note r = root_first [OF assms]
  then have "pauseTime now c = (if expTime (mem c (queue c ! 0)) < now then Millisecond
      else until now (expTime (mem c (queue c ! 0))))"
    by (simp add: pauseTime_def pq_Len_def Let_def until_less_0)
  with r(2) show ?thesis
    by (auto simp: add_dur_def until_def less_eq_instant_def less_instant_def)
qed

text \<open>
  One pass need not clear everything that has expired: the loop index advances past the element
  that takes the place of the removed one, so of two entries that have both expired the second one
  stays.
\<close>

lemma clearExpired_leaves_expired:
  "\<exists>c :: bool cache. \<exists>c'. cache_reachable c \<and> Size c = 2 \<and>
     clearExpired (\<lambda>_. Instant 9) c = Inr c' \<and> Size c' = 1 \<and>
     pauseTime (Instant 9) c' = Millisecond"
proof -
  let ?p = "Put (Instant 0) ''a'' True 1 NewTTLCache"
  let ?q = "Put (Instant 0) ''b'' True 2 (fst (projr ?p))"
  let ?c = "fst (projr ?q)"
  have "\<not> isl ?p" "\<not> isl ?q" by code_simp+
  then have "?p = Inr (fst (projr ?p), snd (projr ?p))" "?q = Inr (?c, snd (projr ?q))" by simp_all
  then have "cache_reachable ?c" by (blast intro: cache_reachable.intros cache_step.put)
  moreover have "Size ?c = 2" by code_simp
  moreover have "case clearExpired (\<lambda>_. Instant 9) ?c of
      Inl e \<Rightarrow> False | Inr c' \<Rightarrow> Size c' = 1 \<and> pauseTime (Instant 9) c' = Millisecond" by code_simp
  then obtain c' where "clearExpired (\<lambda>_. Instant 9) ?c = Inr c'" "Size c' = 1"
      "pauseTime (Instant 9) c' = Millisecond" by (auto split: sum.splits)
  ultimately show ?thesis by blast
qed

end
