(* ===== verification/Transitions.thy ===== *)
theory Transitions
  imports Main
begin

text \<open>
  Runs of transition systems, shared by the goroutines of the cache, of a subscriber and of the launcher. A
  system is a partial function that makes one step and a predicate for the states in which nothing happens any
  more, because a panic has ended the program. The locale \<open>stepping\<close> is the contract of an invariant,
  \<open>simulation\<close> that of implementing a specification,
  \<open>progress\<close> that of reaching a goal by steps of one's own, and \<open>bounded_progress\<close> that of reaching it
  whatever the others do.
\<close>

fun run_steps :: "('s \<Rightarrow> bool) \<Rightarrow> ('a \<Rightarrow> 's \<Rightarrow> 's option) \<Rightarrow> 'a list \<Rightarrow> 's \<Rightarrow> 's option" where
  "run_steps halted step [] s = Some s"
| "run_steps halted step (a # as) s =
     (if halted s then None
      else case step a s of None \<Rightarrow> None | Some s' \<Rightarrow> run_steps halted step as s')"

lemma run_steps_append:
  "run_steps halted step (as @ bs) s =
     (case run_steps halted step as s of None \<Rightarrow> None | Some s' \<Rightarrow> run_steps halted step bs s')"
  by (induction as arbitrary: s) (auto split: option.splits)

lemma run_steps_two:
  "run_steps halted step as s = Some s1 \<Longrightarrow> run_steps halted step bs s1 = Some s2 \<Longrightarrow>
     run_steps halted step (as @ bs) s = Some s2"
  by (simp add: run_steps_append)

lemma run_steps_Cons:
  "run_steps halted step (a # as) s = Some s' \<longleftrightarrow>
     \<not> halted s \<and> (\<exists>t. step a s = Some t \<and> run_steps halted step as t = Some s')"
  by (auto split: option.splits)

locale stepping =
  fixes halted :: "'s \<Rightarrow> bool" and step :: "'a \<Rightarrow> 's \<Rightarrow> 's option" and inv :: "'s \<Rightarrow> bool"
  assumes step_inv: "inv s \<Longrightarrow> \<not> halted s \<Longrightarrow> step a s = Some s' \<Longrightarrow> inv s'"
begin

lemma run_inv:
  assumes "run_steps halted step as s = Some s'" "inv s"
  shows "inv s'"
  using assms
proof (induction as arbitrary: s)
  case (Cons a as)
  then obtain t where t: "\<not> halted s" "step a s = Some t" "run_steps halted step as t = Some s'"
    unfolding run_steps_Cons by blast
  from Cons.IH [OF t(3) step_inv [OF Cons.prems(2) t(1,2)]] show ?case .
qed simp

end

text \<open>
  A specification is a relation between abstract states, labelled with the steps of the system. A system
  implements it if every step it makes is, seen through an abstraction function, a step of the specification;
  then so is every run.
\<close>

inductive spec_run :: "('a \<Rightarrow> 't \<Rightarrow> 't \<Rightarrow> bool) \<Rightarrow> 'a list \<Rightarrow> 't \<Rightarrow> 't \<Rightarrow> bool" for spec where
  done_run: "spec_run spec [] t t"
| step_run: "spec a t u \<Longrightarrow> spec_run spec as u v \<Longrightarrow> spec_run spec (a # as) t v"

inductive_simps spec_run_Nil [simp]: "spec_run spec [] t v"
inductive_simps spec_run_Cons [simp]: "spec_run spec (a # as) t v"

lemma spec_run_append:
  "spec_run spec (as @ bs) t v \<longleftrightarrow> (\<exists>u. spec_run spec as t u \<and> spec_run spec bs u v)"
  by (induction as arbitrary: t) auto

lemma spec_run_keeps:
  assumes "spec_run spec as t v" "P t" "\<And>a t u. a \<in> set as \<Longrightarrow> spec a t u \<Longrightarrow> P t \<Longrightarrow> P u"
  shows "P v"
  using assms
proof (induction rule: spec_run.induct)
  case (step_run a t u as v)
  have "P u" using step_run.prems step_run.hyps(1) by (metis list.set_intros(1))
  with step_run.prems(2) show ?case by (intro step_run.IH) (metis list.set_intros(2))+
qed

locale simulation = stepping +
  fixes abs_state :: "'s \<Rightarrow> 't" and spec :: "'a \<Rightarrow> 't \<Rightarrow> 't \<Rightarrow> bool"
  assumes step_spec: "inv s \<Longrightarrow> \<not> halted s \<Longrightarrow> step a s = Some s' \<Longrightarrow> spec a (abs_state s) (abs_state s')"
begin

lemma run_spec:
  assumes "run_steps halted step as s = Some s'" "inv s"
  shows "spec_run spec as (abs_state s) (abs_state s')"
  using assms
proof (induction as arbitrary: s)
  case (Cons a as)
  then obtain t where t: "\<not> halted s" "step a s = Some t" "run_steps halted step as t = Some s'"
    unfolding run_steps_Cons by blast
  show ?case
    using step_spec [OF Cons.prems(2) t(1,2)] Cons.IH [OF t(3) step_inv [OF Cons.prems(2) t(1,2)]]
    by (rule step_run)
qed simp

text \<open>What every step of the specification keeps, every run of the system keeps.\<close>

lemma run_keeps:
  assumes "run_steps halted step as s = Some s'" "inv s" "P (abs_state s)"
    and "\<And>a t u. a \<in> set as \<Longrightarrow> spec a t u \<Longrightarrow> P t \<Longrightarrow> P u"
  shows "P (abs_state s')"
  using run_spec [OF assms(1,2)] assms(3,4) by (rule spec_run_keeps)

end

text \<open>An own step gets closer to the goal, and one is possible until it is reached.\<close>

locale progress = stepping +
  fixes own :: "'a \<Rightarrow> bool" and rank :: "'s \<Rightarrow> nat" and goal :: "'s \<Rightarrow> bool"
  assumes own_rank: "inv s \<Longrightarrow> own a \<Longrightarrow> step a s = Some s' \<Longrightarrow> rank s' < rank s"
    and not_stuck: "inv s \<Longrightarrow> \<not> goal s \<Longrightarrow> \<not> halted s \<and> (\<exists>a s'. own a \<and> step a s = Some s')"
begin

lemma reaches:
  assumes "inv s"
  shows "\<exists>as s'. run_steps halted step as s = Some s' \<and> list_all own as \<and> length as \<le> rank s \<and> goal s'"
  using assms
proof (induction "rank s" arbitrary: s rule: less_induct)
  case less
  show ?case
  proof (cases "goal s")
    case True
    then show ?thesis by (intro exI [of _ "[]"]) simp
  next
    case False
    with not_stuck [OF less.prems] obtain a t where a: "\<not> halted s" "own a" "step a s = Some t" by blast
    from less.hyps [OF own_rank [OF less.prems a(2,3)] step_inv [OF less.prems a(1,3)]]
    obtain as s' where "run_steps halted step as t = Some s'" "list_all own as" "length as \<le> rank t" "goal s'" by blast
    with a own_rank [OF less.prems a(2,3)] show ?thesis
      by (intro exI [of _ "a # as"] exI [of _ s']) simp
  qed
qed

end

text \<open>The steps of others do not lead away from the goal.\<close>

locale bounded_progress = progress +
  assumes other_rank: "inv s \<Longrightarrow> \<not> own a \<Longrightarrow> step a s = Some s' \<Longrightarrow> rank s' \<le> rank s"
begin

lemma run_rank:
  assumes "run_steps halted step as s = Some s'" "inv s"
  shows "rank s' + length (filter own as) \<le> rank s"
  using assms
proof (induction as arbitrary: s)
  case (Cons a as)
  then obtain t where t: "\<not> halted s" "step a s = Some t" "run_steps halted step as t = Some s'"
    unfolding run_steps_Cons by blast
  have "rank t + (if own a then 1 else 0) \<le> rank s"
    using own_rank [OF Cons.prems(2) _ t(2)] other_rank [OF Cons.prems(2) _ t(2)] by (cases "own a") force+
  with Cons.IH [OF t(3) step_inv [OF Cons.prems(2) t(1,2)]] show ?case by (simp split: if_splits)
qed simp

lemma inevitable:
  assumes "run_steps halted step as s = Some s'" "inv s"
  shows "length (filter own as) \<le> rank s \<and> (goal s' \<or> (\<exists>a s''. own a \<and> step a s' = Some s''))"
  using run_rank [OF assms] not_stuck [OF run_inv [OF assms]] by auto

end

end
