(* ===== verification/Cache_Cleaner.thy ===== *)
theory Cache_Cleaner
  imports Cache Transitions
begin

text \<open>
  The goroutines of \<^verbatim>\<open>src/cache/cache.go\<close>: callers of \<open>Put\<close>, \<open>Remove\<close> and
  \<^verbatim>\<open>Close\<close> and the cleaner of \<^verbatim>\<open>startCleaner\<close> interleave at the mutex and at
  the control channel. The critical sections are the atomic operations of theory \<open>Cache\<close>. The
  deferred calls run in reverse order, so \<open>Put\<close> and \<open>Remove\<close> release the mutex before
  \<^verbatim>\<open>setchanges\<close> sends on the channel, and \<^verbatim>\<open>Close\<close> releases it before it closes
  the channel: both are steps of their own.
\<close>

subsection \<open>States and steps\<close>

text \<open>
  The cleaner is at the head of its loop, in the \<^verbatim>\<open>select\<close> with the timer's deadline, or
  has left the loop.
\<close>

datatype cleaner_pc = LoopHead | Selecting instant | Stopped

text \<open>
  \<open>buffered\<close> counts the values in the channel, whose capacity is 8; \<open>senders\<close> counts the
  callers between the mutex and the send, \<open>closers\<close> those between the mutex and the close.
\<close>

record 'v sys =
  cache :: "'v cache"
  buffered :: nat
  chan_closed :: bool
  senders :: nat
  closers :: nat
  cleaner :: cleaner_pc
  crashed :: "go_panic option"

definition new_sys :: "'v sys" where
  "new_sys = \<lparr>cache = NewTTLCache, buffered = 0, chan_closed = False, senders = 0, closers = 0,
     cleaner = LoopHead, crashed = None\<rparr>"

datatype 'v action =
  PutCS instant string 'v duration
| RemoveCS string
| SetChanges
| CloseCS
| CloseChan
| ResetTimer instant
| Receive
| Fire "nat \<Rightarrow> instant"

definition finish_cs :: "'v sys \<Rightarrow> ('v cache \<times> bool) outcome \<Rightarrow> 'v sys" where
  "finish_cs s r =
     (case r of
        Inl e \<Rightarrow> s\<lparr>crashed := Some e\<rparr>
      | Inr (c, fire) \<Rightarrow> s\<lparr>cache := c, senders := senders s + (if fire then 1 else 0)\<rparr>)"

text \<open>The send blocks while the channel is full and panics when it is closed.\<close>

definition setchanges :: "'v sys \<Rightarrow> 'v sys option" where
  "setchanges s =
     (if senders s = 0 then None
      else if chan_closed s then Some (s\<lparr>crashed := Some SendOnClosedChannel\<rparr>)
      else if buffered s < 8 then Some (s\<lparr>buffered := buffered s + 1, senders := senders s - 1\<rparr>)
      else None)"

definition Close_cs :: "'v sys \<Rightarrow> 'v sys" where
  "Close_cs s =
     (let (c, was) = doClose (cache s)
      in s\<lparr>cache := c, closers := closers s + (if was then 0 else 1)\<rparr>)"

definition close_control :: "'v sys \<Rightarrow> 'v sys option" where
  "close_control s =
     (if closers s = 0 then None
      else if chan_closed s then Some (s\<lparr>crashed := Some (Explicit ''close of closed channel'')\<rparr>)
      else Some (s\<lparr>chan_closed := True, closers := closers s - 1\<rparr>))"

text \<open>
  One step of the loop of \<^verbatim>\<open>startCleaner\<close>: the timer is reset; then either a value is
  received, or the channel is found drained and closed, or the timer fires.
\<close>

definition reset_timer :: "instant \<Rightarrow> 'v sys \<Rightarrow> 'v sys option" where
  "reset_timer now s =
     (if cleaner s = LoopHead
      then Some (s\<lparr>cleaner := Selecting (add_dur now (pauseTime now (cache s)))\<rparr>) else None)"

definition recv_control :: "'v sys \<Rightarrow> 'v sys option" where
  "recv_control s =
     (case cleaner s of
        Selecting _ \<Rightarrow>
          if buffered s > 0 then Some (s\<lparr>buffered := buffered s - 1, cleaner := LoopHead\<rparr>)
          else if chan_closed s then Some (s\<lparr>cleaner := Stopped\<rparr>)
          else None
      | _ \<Rightarrow> None)"

definition fire_timer :: "(nat \<Rightarrow> instant) \<Rightarrow> 'v sys \<Rightarrow> 'v sys option" where
  "fire_timer clk s =
     (case cleaner s of
        Selecting deadline \<Rightarrow>
          if deadline \<le> clk 0 then
            Some (case clearExpired clk (cache s) of
                    Inl e \<Rightarrow> s\<lparr>crashed := Some e\<rparr>
                  | Inr c \<Rightarrow> s\<lparr>cache := c, cleaner := LoopHead\<rparr>)
          else None
      | _ \<Rightarrow> None)"

fun act :: "'v action \<Rightarrow> 'v sys \<Rightarrow> 'v sys option" where
  "act (PutCS now k v d) s = Some (finish_cs s (Put now k v d (cache s)))"
| "act (RemoveCS k) s = Some (finish_cs s (Remove k (cache s)))"
| "act SetChanges s = setchanges s"
| "act CloseCS s = Some (Close_cs s)"
| "act CloseChan s = close_control s"
| "act (ResetTimer now) s = reset_timer now s"
| "act Receive s = recv_control s"
| "act (Fire clk) s = fire_timer clk s"

text \<open>A panic in any goroutine ends the program.\<close>

abbreviation run :: "'v action list \<Rightarrow> 'v sys \<Rightarrow> 'v sys option" where
  "run \<equiv> run_steps (\<lambda>s. crashed s \<noteq> None) act"

text \<open>The steps of the cleaner that need no clock other than its own.\<close>

definition own_steps :: "'v action set" where
  "own_steps = {SetChanges, CloseChan, Receive} \<union> range ResetTimer"

lemmas step_defs = finish_cs_def setchanges_def Close_cs_def close_control_def reset_timer_def
  recv_control_def fire_timer_def doClose_def

subsection \<open>Invariant\<close>

definition sys_inv :: "'v sys \<Rightarrow> bool" where
  "sys_inv s \<longleftrightarrow>
     cache_inv (cache s) \<and> buffered s \<le> 8 \<and>
     (cleaner s = Stopped \<longrightarrow> chan_closed s \<and> buffered s = 0) \<and>
     closers s + (if chan_closed s then 1 else 0) = (if closed (cache s) then 1 else 0)"

text \<open>The panics a caller can cause: a negative TTL, or a notification that loses the race against
  \<^verbatim>\<open>Close\<close>.\<close>

definition known_crash :: "'v sys \<Rightarrow> bool" where
  "known_crash s \<longleftrightarrow>
     (case crashed s of None \<Rightarrow> True
      | Some e \<Rightarrow> e = Explicit ''ttl < 0'' \<or>
          e = SendOnClosedChannel \<and> chan_closed s \<and> closed (cache s) \<and> senders s > 0)"

lemma Put_outcome:
  assumes "cache_inv c"
  shows "Put now k v d c = Inl (Explicit ''ttl < 0'') \<or>
    (\<exists>c' b. Put now k v d c = Inr (c', b) \<and> cache_inv c' \<and> closed c' = closed c)"
proof (cases "closed c \<or> d < 0")
  case True
  with assms show ?thesis by (auto simp: Put_def)
next
  case False
  with assms Put_facts [of c d now k v] show ?thesis by (metis linorder_not_le)
qed

lemma Remove_outcome:
  assumes "cache_inv c"
  shows "\<exists>c' b. Remove k c = Inr (c', b) \<and> cache_inv c' \<and> closed c' = closed c"
proof (cases "closed c")
  case True
  with assms show ?thesis by (auto simp: Remove_def)
next
  case False
  with assms Remove_facts [of c k] show ?thesis by metis
qed

lemma clear_outcome:
  assumes "cache_inv c"
  obtains c' where "clearExpired clk c = Inr c'" "cache_inv c'" "closed c' = closed c"
  using clearExpired_facts [OF assms, of clk] by blast

lemma act_inv:
  assumes "act a s = Some s'" "sys_inv s" "crashed s = None"
  shows "sys_inv s' \<and> known_crash s'"
proof (cases a)
  case (PutCS now k v d)
  with assms show ?thesis
    using Put_outcome [of "cache s" now k v d] by (auto simp: sys_inv_def known_crash_def finish_cs_def split: if_splits)
next
  case (RemoveCS k)
  with assms show ?thesis
    using Remove_outcome [of "cache s" k] by (auto simp: sys_inv_def known_crash_def finish_cs_def split: if_splits)
next
  case CloseCS
  with assms show ?thesis
    using doClose_inv [of "cache s"]
    by (auto simp: sys_inv_def known_crash_def Close_cs_def doClose_def split: if_splits)
next
  case (Fire clk)
  obtain c' where "clearExpired clk (cache s) = Inr c'" "cache_inv c'" "closed c' = closed (cache s)"
    using assms(2) clear_outcome [of "cache s" clk] by (metis sys_inv_def)
  with Fire assms show ?thesis
    by (auto simp: sys_inv_def known_crash_def fire_timer_def split: cleaner_pc.splits if_splits)
qed (use assms in \<open>auto simp: sys_inv_def known_crash_def setchanges_def close_control_def
  reset_timer_def recv_control_def split: if_splits cleaner_pc.splits\<close>)

interpretation cleaner: stepping "\<lambda>s. crashed s \<noteq> None" act "\<lambda>s. sys_inv s \<and> known_crash s"
  by unfold_locales (use act_inv in blast)

lemma new_sys_inv: "sys_inv new_sys" "known_crash new_sys"
  using cache_inv_new by (simp_all add: new_sys_def sys_inv_def known_crash_def NewTTLCache_def)

subsection \<open>The expiring map behind the goroutines\<close>

text \<open>
  What the callers see of the cache is a map from keys to entries and whether it was closed. A step at the
  mutex is one update of it, a pass of the cleaner drops entries that had expired by a clock it read, and
  nothing else that happens between the goroutines shows.
\<close>

type_synonym 'v store = "(string \<rightharpoonup> 'v entry) \<times> bool"

definition store_of :: "'v sys \<Rightarrow> 'v store" where
  "store_of s = (cache_abs (cache s), closed (cache s))"

inductive store_step :: "'v action \<Rightarrow> 'v store \<Rightarrow> 'v store \<Rightarrow> bool" where
  store_put: "0 \<le> d \<Longrightarrow> store_step (PutCS now k v d) (m, False) (m(k \<mapsto> (v, d, add_dur now d)), False)"
| store_reject: "d < 0 \<Longrightarrow> store_step (PutCS now k v d) (m, b) (m, b)"
| store_put_closed: "store_step (PutCS now k v d) (m, True) (m, True)"
| store_remove: "store_step (RemoveCS k) (m, False) (m(k := None), False)"
| store_remove_closed: "store_step (RemoveCS k) (m, True) (m, True)"
| store_close: "store_step CloseCS (m, b) (m, True)"
| store_expire:
    "m' \<subseteq>\<^sub>m m \<Longrightarrow> (\<And>k e. m k = Some e \<Longrightarrow> m' k = None \<Longrightarrow> \<exists>n. entry_expired (clk n) e) \<Longrightarrow>
     store_step (Fire clk) (m, b) (m', b)"
| store_internal: "a \<in> own_steps \<Longrightarrow> store_step a t t"

inductive_cases store_PutE: "store_step (PutCS now k v d) t u"
inductive_cases store_RemoveE: "store_step (RemoveCS k) t u"
inductive_cases store_CloseE: "store_step CloseCS t u"
inductive_cases store_FireE: "store_step (Fire clk) t u"

lemma put_spec:
  assumes "cache_inv (cache s)"
  shows "store_step (PutCS now k v d) (store_of s) (store_of (finish_cs s (Put now k v d (cache s))))"
proof (cases "closed (cache s) \<or> d < 0")
  case True
  then show ?thesis
    by (cases "d < 0") (auto simp: store_of_def finish_cs_def Put_def intro: store_reject store_put_closed)
next
  case False
  then obtain c' where "Put now k v d (cache s) = Inr (c', True)" "\<not> closed c'"
      "cache_abs c' = (cache_abs (cache s))(k \<mapsto> (v, d, add_dur now d))"
    using assms Put_facts [of "cache s" d now k v] by auto
  with False show ?thesis by (simp add: store_of_def finish_cs_def store_put)
qed

lemma remove_spec:
  assumes "cache_inv (cache s)"
  shows "store_step (RemoveCS k) (store_of s) (store_of (finish_cs s (Remove k (cache s))))"
proof (cases "closed (cache s)")
  case True
  then show ?thesis by (auto simp: store_of_def finish_cs_def Remove_def intro: store_remove_closed)
next
  case False
  with assms obtain c' where "Remove k (cache s) = Inr (c', cache_abs (cache s) k \<noteq> None)" "\<not> closed c'"
      "cache_abs c' = (cache_abs (cache s))(k := None)"
    by (rule Remove_facts)
  with False show ?thesis by (simp add: store_of_def finish_cs_def store_remove)
qed

lemma fire_spec:
  assumes "cache_inv (cache s)" "fire_timer clk s = Some s'"
  shows "store_step (Fire clk) (store_of s) (store_of s')"
proof -
  obtain c' where c': "clearExpired clk (cache s) = Inr c'" "closed c' = closed (cache s)"
      "cache_abs c' \<subseteq>\<^sub>m cache_abs (cache s)"
      "\<And>k e. cache_abs (cache s) k = Some e \<Longrightarrow> cache_abs c' k = None \<Longrightarrow> \<exists>n. entry_expired (clk n) e"
    using clearExpired_facts [OF assms(1), of clk] by blast
  with assms(2) have "store_of s' = (cache_abs c', closed (cache s))"
    by (auto simp: fire_timer_def store_of_def split: cleaner_pc.splits if_splits)
  moreover have "store_step (Fire clk) (cache_abs (cache s), closed (cache s)) (cache_abs c', closed (cache s))"
    by (rule store_expire) (use c' in auto)
  ultimately show ?thesis by (simp add: store_of_def)
qed

lemma close_spec: "store_step CloseCS (store_of s) (store_of (Close_cs s))"
proof -
  have "cache_abs (cache s\<lparr>closed := True\<rparr>) = cache_abs (cache s)" by (simp add: cache_abs_def fun_eq_iff)
  then show ?thesis by (simp add: store_of_def Close_cs_def doClose_def store_close)
qed

lemma act_spec:
  assumes "sys_inv s" "act a s = Some s'"
  shows "store_step a (store_of s) (store_of s')"
proof -
  have inv: "cache_inv (cache s)" using assms(1) by (simp add: sys_inv_def)
  show ?thesis
  proof (cases "a \<in> own_steps")
    case True
    with assms(2) have "store_of s' = store_of s"
      by (auto simp: own_steps_def store_of_def setchanges_def close_control_def reset_timer_def recv_control_def
          split: if_splits cleaner_pc.splits)
    with True show ?thesis by (simp add: store_internal)
  next
    case False
    with assms(2) inv show ?thesis
      by (cases a)
        (auto simp: own_steps_def intro: put_spec remove_spec close_spec fire_spec)
  qed
qed

interpretation expiring: simulation "\<lambda>s. crashed s \<noteq> None" act "\<lambda>s. sys_inv s \<and> known_crash s" store_of store_step
  by unfold_locales (use act_spec in blast)

text \<open>
  The steps that leave the entry of a key alone: no other call puts or removes the key, and the cleaner reads no
  clock past its expiry.
\<close>

fun spares :: "string \<Rightarrow> instant \<Rightarrow> 'v action \<Rightarrow> bool" where
  "spares k t (PutCS now k' v d) \<longleftrightarrow> k' \<noteq> k"
| "spares k t (RemoveCS k') \<longleftrightarrow> k' \<noteq> k"
| "spares k t (Fire clk) \<longleftrightarrow> (\<forall>n. clk n \<le> t)"
| "spares k t a \<longleftrightarrow> True"

lemma store_step_spares:
  assumes "store_step a (m, b) (m', b')" "spares k t a" "d \<noteq> 0" "m k = Some (v, d, t)"
  shows "m' k = Some (v, d, t)"
  using assms(1)
proof (cases rule: store_step.cases)
  case (store_expire clk)
  have "\<not> entry_expired (clk n) (v, d, t)" for n
    using assms(2,3) store_expire(1) by (simp add: entry_expired_def linorder_not_less)
  then obtain e where "m' k = Some e" using store_expire(4) [OF assms(4)] by blast
  with store_expire(3) assms(4) show ?thesis by (metis map_le_Some option.inject)
qed (use assms in auto)

text \<open>A step after which a key that is not there may be there again puts it.\<close>

lemma store_step_absent:
  assumes "store_step a (m, b) (m', b')" "\<forall>now v d. a \<noteq> PutCS now k v d" "m k = None"
  shows "m' k = None"
  using assms(1)
proof (cases rule: store_step.cases)
  case (store_expire clk)
  with assms(3) show ?thesis by (metis map_le_Some not_None_eq)
qed (use assms in auto)

text \<open>What a \<open>Put\<close> stores is there after any steps that spare it.\<close>

lemma pending_kept:
  assumes "sys_inv s \<and> known_crash s" "0 < d" "\<not> closed (cache s)"
    and "run (PutCS now k v d # bs) s = Some s'" "list_all (spares k (add_dur now d)) bs"
  shows "sys_inv s' \<and> known_crash s' \<and> cache_abs (cache s') k = Some (v, d, add_dur now d)"
proof -
  let ?e = "(v, d, add_dur now d)"
  have "cache_inv (cache s)" "0 \<le> d" using assms(1,2) by (simp_all add: sys_inv_def)
  then obtain c where c: "Put now k v d (cache s) = Inr (c, True)" "cache_abs c k = Some ?e"
    using assms(3) by (metis Put_facts fun_upd_same)
  obtain t where t: "crashed s = None" "act (PutCS now k v d) s = Some t" "run bs t = Some s'"
    using assms(4) unfolding run_steps_Cons by blast
  have inv_t: "sys_inv t \<and> known_crash t" using act_inv [OF t(2) _ t(1)] assms(1) by blast
  have "fst (store_of t) k = Some ?e" using t(2) c by (auto simp: finish_cs_def store_of_def)
  with t(3) inv_t have "fst (store_of s') k = Some ?e"
  proof (rule expiring.run_keeps)
    fix a :: "'a action" and t u :: "'a store"
    assume "a \<in> set bs" "store_step a t u" "fst t k = Some ?e"
    moreover from this assms(5) have "spares k (add_dur now d) a" by (simp add: list_all_iff)
    ultimately show "fst u k = Some ?e"
      using store_step_spares [of a "fst t" "snd t" "fst u" "snd u" k "add_dur now d" d v] assms(2) by simp
  qed
  with cleaner.run_inv [OF t(3) inv_t] show ?thesis by (simp add: store_of_def)
qed

text \<open>An entry that was taken does not come back unless its key is put again.\<close>

lemma removed_stays_away:
  assumes "sys_inv s" "known_crash s" "run bs s = Some s'" "cache_abs (cache s) k = None"
    and "\<And>now v d. PutCS now k v d \<notin> set bs"
  shows "cache_abs (cache s') k = None"
proof -
  have "fst (store_of s) k = None" using assms(4) by (simp add: store_of_def)
  with assms(3) conjI [OF assms(1,2)] have "fst (store_of s') k = None"
  proof (rule expiring.run_keeps)
    fix a :: "'a action" and t u :: "'a store"
    assume "a \<in> set bs" "store_step a t u" "fst t k = None"
    then show "fst u k = None"
      using store_step_absent [of a "fst t" "snd t" "fst u" "snd u" k] assms(5) by auto
  qed
  then show ?thesis by (simp add: store_of_def)
qed

subsection \<open>Progress\<close>

text \<open>A cleaner that has not stopped gets into its \<^verbatim>\<open>select\<close>, changing nothing else.\<close>

lemma reach_select:
  assumes "cleaner s \<noteq> Stopped" "crashed s = None"
  shows "\<exists>bs t. run bs s = Some (s\<lparr>cleaner := Selecting t\<rparr>) \<and> set bs \<subseteq> own_steps"
proof (cases "cleaner s")
  case LoopHead
  then have "run [ResetTimer (Instant 0)] s =
      Some (s\<lparr>cleaner := Selecting (add_dur (Instant 0) (pauseTime (Instant 0) (cache s)))\<rparr>)"
    using assms(2) by (simp add: reset_timer_def)
  moreover have "set [ResetTimer (Instant 0)] \<subseteq> own_steps" by (simp add: own_steps_def)
  ultimately show ?thesis by blast
next
  case (Selecting t)
  then have "run [] s = Some (s\<lparr>cleaner := Selecting t\<rparr>)" by simp
  then show ?thesis by (metis empty_set empty_subsetI)
qed (use assms in simp)

lemma drain_control:
  assumes "chan_closed s" "cleaner s \<noteq> Stopped" "crashed s = None"
  shows "\<exists>bs s'. run bs s = Some s' \<and> set bs \<subseteq> own_steps \<and> cleaner s' = Stopped \<and> crashed s' = None"
  using assms
proof (induction "buffered s" arbitrary: s)
  case 0
  obtain bs t where "run bs s = Some (s\<lparr>cleaner := Selecting t\<rparr>)" "set bs \<subseteq> own_steps"
    using reach_select 0 by blast
  moreover have "run [Receive] (s\<lparr>cleaner := Selecting t\<rparr>) = Some (s\<lparr>cleaner := Stopped\<rparr>)"
    using 0 by (simp add: recv_control_def)
  ultimately have "run (bs @ [Receive]) s = Some (s\<lparr>cleaner := Stopped\<rparr>)" "set (bs @ [Receive]) \<subseteq> own_steps"
    by (auto simp: run_steps_append own_steps_def)
  with 0 show ?case by fastforce
next
  case (Suc n)
  obtain bs t where bs: "run bs s = Some (s\<lparr>cleaner := Selecting t\<rparr>)" "set bs \<subseteq> own_steps"
    using reach_select Suc.prems by blast
  let ?s = "s\<lparr>buffered := n, cleaner := LoopHead\<rparr>"
  have "run [Receive] (s\<lparr>cleaner := Selecting t\<rparr>) = Some ?s"
    using Suc.prems Suc.hyps(2) [symmetric] by (simp add: recv_control_def)
  with bs have 1: "run (bs @ [Receive]) s = Some ?s" "set (bs @ [Receive]) \<subseteq> own_steps"
    by (auto simp: run_steps_append own_steps_def)
  obtain cs s' where "run cs ?s = Some s'" "set cs \<subseteq> own_steps" "cleaner s' = Stopped" "crashed s' = None"
    using Suc.hyps(1) [of ?s] Suc.prems by auto
  with 1 show ?case
    using run_steps_two [OF 1(1)] by (intro exI [of _ "(bs @ [Receive]) @ cs"] exI [of _ s']) auto
qed

subsection \<open>Properties of the concurrent cache\<close>

text \<open>
  (C19) Under every interleaving of callers and cleaner the cache stays well formed, the channel is
  never overfilled and closed at most once, the cleaner stops only after the channel was closed and
  drained, and the program panics for two reasons only: a negative TTL, or a notification sent
  after the channel was closed.
\<close>

theorem cleaner_safe:
  assumes "run as new_sys = Some s"
  shows "cache_inv (cache s) \<and> buffered s \<le> 8 \<and>
    (cleaner s = Stopped \<longrightarrow> chan_closed s \<and> buffered s = 0) \<and>
    (\<forall>e. crashed s = Some e \<longrightarrow>
       e = Explicit ''ttl < 0'' \<or> e = SendOnClosedChannel \<and> chan_closed s \<and> senders s > 0)"
  using cleaner.run_inv [OF assms] new_sys_inv by (auto simp: sys_inv_def known_crash_def)

theorem cleaner_safe_witness:
  "\<exists>s :: bool sys. run [PutCS (Instant 0) ''id'' True 0, SetChanges, ResetTimer (Instant 0)] new_sys = Some s
     \<and> cache_inv (cache s) \<and> buffered s \<le> 8"
proof -
  obtain s :: "bool sys" where
    s: "run [PutCS (Instant 0) ''id'' True 0, SetChanges, ResetTimer (Instant 0)] new_sys = Some s"
    by (simp add: step_defs new_sys_def Put_def NewTTLCache_def Let_def)
  from cleaner_safe [OF s] s show ?thesis by blast
qed

text \<open>
  (C17) Every interleaving of callers and cleaner is, step by step, a run of an expiring map: each \<open>Put\<close> and
  \<open>Remove\<close> takes effect on its key alone at the moment it holds the mutex, a negative time to live changes
  nothing, a closed cache never changes by a call, the cleaner drops only entries that had expired by a clock it
  read, and sending, receiving and closing the channel do not show.
\<close>

theorem cache_linearizes:
  assumes "run as new_sys = Some s"
  shows "spec_run store_step as (Map.empty, False) (cache_abs (cache s), closed (cache s))"
proof -
  have "store_of (new_sys :: 'a sys) = (Map.empty, False)"
    by (simp add: store_of_def new_sys_def cache_abs_new) (simp add: NewTTLCache_def)
  then show ?thesis using expiring.run_spec [OF assms conjI [OF new_sys_inv]] by (simp add: store_of_def)
qed

theorem cache_linearizes_witness:
  "\<exists>s :: bool sys. run [PutCS (Instant 0) ''id'' True 0, SetChanges, ResetTimer (Instant 0)] new_sys = Some s \<and>
     spec_run store_step [PutCS (Instant 0) ''id'' True 0, SetChanges, ResetTimer (Instant 0)] (Map.empty, False)
       (cache_abs (cache s), closed (cache s))"
proof -
  obtain s :: "bool sys" where
    s: "run [PutCS (Instant 0) ''id'' True 0, SetChanges, ResetTimer (Instant 0)] new_sys = Some s"
    by (simp add: step_defs new_sys_def Put_def NewTTLCache_def Let_def)
  from cache_linearizes [OF s] s show ?thesis by blast
qed

text \<open>
  (C18) A pending entry is not lost before its time: whatever the other callers and the cleaner do after a \<open>Put\<close>
  with a positive time to live, the cache returns its value until the key is put or removed again, the cache is
  closed, or the cleaner reads a clock past the entry's expiry.
\<close>

theorem pending_survives:
  assumes "run as new_sys = Some s" "0 < d" "\<not> closed (cache s)"
    and "run (PutCS now k v d # bs) s = Some s'" "list_all (spares k (add_dur now d)) bs" "\<not> closed (cache s')"
  shows "Get k (cache s') = Some v"
proof -
  have "sys_inv s \<and> known_crash s" using cleaner.run_inv [OF assms(1)] new_sys_inv by blast
  from pending_kept [OF this assms(2-5)] show ?thesis
    using cache_queries [of "cache s'" k] assms(6) by (simp add: sys_inv_def)
qed

theorem pending_survives_witness:
  "\<exists>s' :: bool sys. run [PutCS (Instant 0) ''id'' True Second, RemoveCS ''other''] new_sys = Some s' \<and>
     Get ''id'' (cache s') = Some True"
proof -
  obtain s' :: "bool sys" where
    s': "run [PutCS (Instant 0) ''id'' True Second, RemoveCS ''other''] new_sys = Some s'" "\<not> closed (cache s')"
    by (simp add: step_defs new_sys_def Put_def Remove_def NewTTLCache_def Let_def duration_defs add0_def
        heappush_def pq_Push_def pq_Len_def heap_up.simps)
  have "\<not> closed (cache (new_sys :: bool sys))" by (simp add: new_sys_def NewTTLCache_def)
  from pending_survives [OF _ _ this s'(1) _ s'(2), of "[]"] s'(1) show ?thesis by (simp add: duration_defs)
qed

text \<open>
  No notification is stuck: whatever happened before, a caller waiting to notify the cleaner
  gets past the send by steps of the callers and the cleaner alone, because the cleaner always
  returns to receiving until the channel is closed; the send panics only if it was closed.
\<close>

lemma setchanges_progress:
  assumes "run as new_sys = Some s" "crashed s = None" "senders s > 0"
  shows "\<exists>bs s'. run bs s = Some s' \<and> set bs \<subseteq> own_steps \<and>
    (if chan_closed s then crashed s' = Some SendOnClosedChannel
     else crashed s' = None \<and> senders s' = senders s - 1 \<and> cache s' = cache s)"
proof (cases "chan_closed s \<or> buffered s < 8")
  case True
  then obtain s' where "run [SetChanges] s = Some s'"
      "if chan_closed s then crashed s' = Some SendOnClosedChannel
       else crashed s' = None \<and> senders s' = senders s - 1 \<and> cache s' = cache s"
    using assms(2,3) by (cases "chan_closed s") (auto simp: setchanges_def)
  then show ?thesis by (intro exI [of _ "[SetChanges]"] exI [of _ s']) (simp add: own_steps_def)
next
  case False
  have "sys_inv s" using cleaner.run_inv [OF assms(1)] new_sys_inv by blast
  with False have "cleaner s \<noteq> Stopped" "buffered s = 8" by (auto simp: sys_inv_def)
  then obtain bs t where bs: "run bs s = Some (s\<lparr>cleaner := Selecting t\<rparr>)" "set bs \<subseteq> own_steps"
    using reach_select assms(2) by blast
  have "run [Receive, SetChanges] (s\<lparr>cleaner := Selecting t\<rparr>) =
      Some (s\<lparr>cleaner := LoopHead, buffered := 8, senders := senders s - 1\<rparr>)"
    using False \<open>buffered s = 8\<close> assms(2,3) by (simp add: recv_control_def setchanges_def)
  from run_steps_two [OF bs(1) this] bs(2) False assms(2) show ?thesis
    by (intro exI [of _ "bs @ [Receive, SetChanges]"]) (auto simp: own_steps_def)
qed

text \<open>
  (C33) The cleaner can always shut down: once the cache is closed, the pending close of the channel
  and the cleaner's own steps end its loop, however many notifications are still buffered.
\<close>

theorem Close_stops_cleaner:
  assumes "run as new_sys = Some s" "crashed s = None" "closed (cache s)"
  shows "\<exists>bs s'. run bs s = Some s' \<and> set bs \<subseteq> own_steps \<and> cleaner s' = Stopped \<and> crashed s' = None"
proof -
  have inv: "sys_inv s" using cleaner.run_inv [OF assms(1)] new_sys_inv by blast
  obtain bs t where t: "run bs s = Some t" "set bs \<subseteq> own_steps" "chan_closed t" "crashed t = None"
  proof (cases "chan_closed s")
    case True
    with that [of "[]" s] assms(2) show ?thesis by simp
  next
    case False
    with inv assms have "run [CloseChan] s = Some (s\<lparr>chan_closed := True, closers := 0\<rparr>)"
      by (simp add: sys_inv_def close_control_def)
    with that [of "[CloseChan]"] assms(2) show ?thesis by (simp add: own_steps_def)
  qed
  show ?thesis
  proof (cases "cleaner t = Stopped")
    case True
    with t show ?thesis by blast
  next
    case False
    then obtain cs s' where "run cs t = Some s'" "set cs \<subseteq> own_steps" "cleaner s' = Stopped" "crashed s' = None"
      using drain_control [OF t(3) _ t(4)] by blast
    with t run_steps_two [OF t(1)] show ?thesis
      by (intro exI [of _ "bs @ cs"] exI [of _ s']) auto
  qed
qed

theorem Close_stops_cleaner_witness:
  "\<exists>s bs s'. run [PutCS (Instant 0) ''id'' True 0, SetChanges, CloseCS] new_sys = Some s
     \<and> run bs s = Some s' \<and> cleaner s' = Stopped"
proof -
  obtain s :: "bool sys" where
    s: "run [PutCS (Instant 0) ''id'' True 0, SetChanges, CloseCS] new_sys = Some s" "crashed s = None" "closed (cache s)"
    by (simp add: step_defs new_sys_def Put_def NewTTLCache_def Let_def)
  from Close_stops_cleaner [OF s] s(1) show ?thesis by blast
qed

text \<open>
  The race of \<open>Put\<close> with \<^verbatim>\<open>Close\<close> is real: a \<open>Put\<close> that has left the mutex
  before the cache is closed sends on the closed channel and panics.
\<close>

lemma Put_Close_race:
  "\<exists>s :: bool sys. run [PutCS (Instant 0) ''id'' True Second, CloseCS, CloseChan, SetChanges] new_sys = Some s
     \<and> crashed s = Some SendOnClosedChannel"
  by (simp add: step_defs new_sys_def Put_def NewTTLCache_def Let_def duration_defs add0_def
      heappush_def pq_Push_def pq_Len_def heap_up.simps)

end
