(* ===== verification/Go_Strings.thy ===== *)
theory Go_Strings
  imports Prelude
begin

text \<open>
  The functions of the packages \<^verbatim>\<open>strings\<close>, \<^verbatim>\<open>strconv\<close> and
  \<^verbatim>\<open>fmt\<close> that the connector calls, on byte strings (a Go string is a sequence of
  bytes, a \<open>char\<close> is a byte), with the panic of an out-of-range slice as a value, and the
  laws the components use: splitting against joining, searching for a rune, replacing, and
  printing against parsing of decimal numbers.
\<close>

subsection \<open>Slicing and searching\<close>

text \<open>\<^verbatim>\<open>s[i:j]\<close>; an index outside \<open>0 \<le> i \<le> j \<le> len(s)\<close> panics.\<close>

definition slice :: "string \<Rightarrow> int \<Rightarrow> int \<Rightarrow> string outcome" where
  "slice s i j = (if 0 \<le> i \<and> i \<le> j \<and> j \<le> int (length s)
     then Inr (take (nat (j - i)) (drop (nat i) s)) else Inl SliceBounds)"

text \<open>\<^verbatim>\<open>s[i:]\<close>.\<close>

definition slice_from :: "string \<Rightarrow> int \<Rightarrow> string outcome" where
  "slice_from s i = slice s i (int (length s))"

definition HasPrefix :: "string \<Rightarrow> string \<Rightarrow> bool" where
  "HasPrefix s p \<longleftrightarrow> length p \<le> length s \<and> take (length p) s = p"

definition HasSuffix :: "string \<Rightarrow> string \<Rightarrow> bool" where
  "HasSuffix s p \<longleftrightarrow> length p \<le> length s \<and> drop (length s - length p) s = p"

fun Index :: "string \<Rightarrow> string \<Rightarrow> nat option" where
  "Index [] p = (if p = [] then Some 0 else None)"
| "Index (x # xs) p = (if HasPrefix (x # xs) p then Some 0 else map_option Suc (Index xs p))"

definition Contains :: "string \<Rightarrow> string \<Rightarrow> bool" where
  "Contains s p \<longleftrightarrow> Index s p \<noteq> None"

text \<open>\<^verbatim>\<open>strings.IndexRune\<close> for an ASCII rune, with its result \<open>-1\<close> when absent.\<close>

definition IndexRune :: "string \<Rightarrow> char \<Rightarrow> int" where
  "IndexRune s c = (if c \<in> set s then int (length (takeWhile (\<lambda>x. x \<noteq> c) s)) else - 1)"

lemma HasPrefix_iff: "HasPrefix s p \<longleftrightarrow> (\<exists>r. s = p @ r)"
  unfolding HasPrefix_def by (metis append_eq_conv_conj append_take_drop_id le_add1 length_append)

lemma HasPrefix_append [simp, str_simps]: "HasPrefix (p @ r) p"
  by (simp add: HasPrefix_def)

lemma HasPrefix_Nil [simp, str_simps]: "HasPrefix s []"
  by (simp add: HasPrefix_def)

lemma HasPrefix_Cons [simp, str_simps]:
  "HasPrefix [] (p # ps) = False"
  "HasPrefix (x # xs) (p # ps) \<longleftrightarrow> x = p \<and> HasPrefix xs ps"
  by (auto simp: HasPrefix_def)

lemma HasSuffix_iff: "HasSuffix s p \<longleftrightarrow> (\<exists>r. s = r @ p)"
  unfolding HasSuffix_def
  by (metis add_diff_cancel_right' append_eq_conv_conj append_take_drop_id le_add2 length_append)

lemma HasSuffix_append [simp, str_simps]: "HasSuffix (r @ p) p"
  by (simp add: HasSuffix_def)

lemma Contains_iff: "Contains s p \<longleftrightarrow> (\<exists>a b. s = a @ p @ b)"
proof (induction s)
  case Nil
  then show ?case by (simp add: Contains_def)
next
  case (Cons x s)
  have "Contains (x # s) p \<longleftrightarrow> HasPrefix (x # s) p \<or> Contains s p"
    by (simp add: Contains_def)
  also have "\<dots> \<longleftrightarrow> (\<exists>a b. x # s = a @ p @ b)"
    unfolding Cons.IH HasPrefix_iff by (metis append_Cons append_Nil neq_Nil_conv list.inject)
  finally show ?case .
qed

lemma IndexRune_append:
  "c \<notin> set a \<Longrightarrow> IndexRune (a @ c # b) c = int (length a)"
  by (simp add: IndexRune_def takeWhile_append)

lemma IndexRune_absent: "c \<notin> set s \<Longrightarrow> IndexRune s c = - 1"
  by (simp add: IndexRune_def)

lemma IndexRune_split:
  assumes "c \<in> set s"
  obtains a b where "s = a @ c # b" "c \<notin> set a" "IndexRune s c = int (length a)"
  by (metis IndexRune_append assms split_list_first)

lemma slice_ok: "slice (a @ b @ c) (int (length a)) (int (length a) + int (length b)) = Inr b"
  by (simp add: slice_def)

lemma slice_okI:
  assumes "s = a @ b @ c" "i = int (length a)" "j = int (length a) + int (length b)"
  shows "slice s i j = Inr b"
  using assms slice_ok by simp

lemma slice_from_okI:
  assumes "s = a @ b" "i = int (length a)"
  shows "slice_from s i = Inr b"
  unfolding slice_from_def using assms by (intro slice_okI [of _ a b "[]"]) simp_all

lemma slice_panic: "i < 0 \<or> j < i \<or> int (length s) < j \<Longrightarrow> slice s i j = Inl SliceBounds"
  by (auto simp: slice_def)

lemma slice_from_panic: "int (length s) < i \<Longrightarrow> slice_from s i = Inl SliceBounds"
  by (simp add: slice_from_def slice_panic)

subsection \<open>Splitting and joining\<close>

text \<open>\<^verbatim>\<open>strings.Split(s, sep)\<close> for a separator of one byte.\<close>

fun Split :: "string \<Rightarrow> char \<Rightarrow> string list" where
  "Split [] c = [[]]"
| "Split (x # xs) c =
     (if x = c then [] # Split xs c
      else case Split xs c of [] \<Rightarrow> [[x]] | s # ss \<Rightarrow> (x # s) # ss)"

fun Join :: "string list \<Rightarrow> string \<Rightarrow> string" where
  "Join [] sep = []"
| "Join [s] sep = s"
| "Join (s # t # ss) sep = s @ sep @ Join (t # ss) sep"

lemma Split_not_Nil [simp]: "Split s c \<noteq> []"
  by (induction s) (auto split: list.splits)

lemma Split_no_sep: "c \<notin> set s \<Longrightarrow> Split s c = [s]"
  by (induction s) auto

lemma Split_append: "c \<notin> set a \<Longrightarrow> Split (a @ c # b) c = a # Split b c"
  by (induction a) auto

lemma Split_segment_no_sep: "s \<in> set (Split t c) \<Longrightarrow> c \<notin> set s"
  by (induction t arbitrary: s) (auto split: if_splits list.splits)

lemma Join_Cons: "ss \<noteq> [] \<Longrightarrow> Join (s # ss) sep = s @ sep @ Join ss sep"
  by (cases ss) auto

lemma Join_Split: "Join (Split s c) [c] = s"
proof (induction s)
  case (Cons x s)
  obtain t ts where t: "Split s c = t # ts"
    by (meson Split_not_Nil neq_Nil_conv)
  have "Join ((x # t) # ts) [c] = x # Join (t # ts) [c]"
    by (cases ts) auto
  with Cons t show ?case by auto
qed simp

lemma Split_Join:
  "ss \<noteq> [] \<Longrightarrow> \<forall>s \<in> set ss. c \<notin> set s \<Longrightarrow> Split (Join ss [c]) c = ss"
proof (induction ss)
  case (Cons s ss)
  then show ?case
    by (cases ss) (auto simp: Split_no_sep Split_append)
qed simp

lemma Join_append:
  "a \<noteq> [] \<Longrightarrow> b \<noteq> [] \<Longrightarrow> Join (a @ b) sep = Join a sep @ sep @ Join b sep"
proof (induction a)
  case (Cons x a)
  then show ?case by (cases "a = []") (simp_all add: Join_Cons)
qed simp

text \<open>Writing \<open>/\<close> and a segment for every remaining segment, as the topic builders do.\<close>

definition with_slashes :: "string list \<Rightarrow> string" where
  "with_slashes ss = concat (map (\<lambda>s. ''/'' @ s) ss)"

lemma with_slashes_simps [simp]:
  "with_slashes [] = []"
  "with_slashes (s # ss) = ''/'' @ s @ with_slashes ss"
  by (simp_all add: with_slashes_def)

lemma append_with_slashes: "s @ with_slashes ss = Join (s # ss) ''/''"
proof (induction ss arbitrary: s)
  case (Cons t ss)
  then show ?case by (simp add: Join_Cons flip: Cons.IH)
qed simp

lemma with_slashes_Join: "ss \<noteq> [] \<Longrightarrow> with_slashes ss = ''/'' @ Join ss ''/''"
  by (cases ss) (simp_all add: append_with_slashes)

subsection \<open>Replacing\<close>

text \<open>\<^verbatim>\<open>strings.Replace(s, old, new, 1)\<close> and \<^verbatim>\<open>strings.ReplaceAll\<close>, for a non-empty \<open>old\<close>.\<close>

fun Replace1 :: "string \<Rightarrow> string \<Rightarrow> string \<Rightarrow> string" where
  "Replace1 [] p q = []"
| "Replace1 (x # xs) p q =
     (if HasPrefix (x # xs) p then q @ drop (length p) (x # xs) else x # Replace1 xs p q)"

function ReplaceAll :: "string \<Rightarrow> string \<Rightarrow> string \<Rightarrow> string" where
  "ReplaceAll [] p q = []"
| "ReplaceAll (x # xs) p q =
     (if p \<noteq> [] \<and> HasPrefix (x # xs) p then q @ ReplaceAll (drop (length p) (x # xs)) p q
      else x # ReplaceAll xs p q)"
  by pat_completeness auto
termination
  by (relation "measure (\<lambda>(s, p, q). length s)") auto

lemma Replace1_prefix: "p \<noteq> [] \<Longrightarrow> Replace1 (p @ s) p q = q @ s"
  by (cases p) auto

lemma Replace1_first:
  assumes "p \<noteq> []" and "\<And>i. i < length a \<Longrightarrow> \<not> HasPrefix (drop i (a @ p @ b)) p"
  shows "Replace1 (a @ p @ b) p q = a @ q @ b"
  using assms(2)
proof (induction a)
  case Nil
  then show ?case using Replace1_prefix [OF assms(1), of b q] by simp
next
  case (Cons x a)
  have "\<not> HasPrefix (x # a @ p @ b) p"
    using Cons.prems [of 0] by simp
  moreover have "\<not> HasPrefix (drop i (a @ p @ b)) p" if "i < length a" for i
    using Cons.prems [of "Suc i"] that by simp
  ultimately show ?case using Cons.IH by simp
qed

lemma ReplaceAll_absent: "\<not> Contains s p \<Longrightarrow> ReplaceAll s p q = s"
  by (induction s) (auto simp: Contains_def)

subsection \<open>Decimal numbers\<close>

definition is_digit :: "char \<Rightarrow> bool" where
  "is_digit c \<longleftrightarrow> 48 \<le> (of_char c :: nat) \<and> (of_char c :: nat) \<le> 57"

definition digits_val :: "string \<Rightarrow> nat" where
  "digits_val ds = foldl (\<lambda>n c. 10 * n + (of_char c - 48)) 0 ds"

text \<open>
  \<^verbatim>\<open>strconv.Atoi\<close> (and \<^verbatim>\<open>ParseInt(s, 10, 64)\<close>) on a 64-bit target: an
  optional sign, one or more digits, a value in range; \<open>None\<close> is a non-nil error.
\<close>

definition Atoi :: "string \<Rightarrow> int option" where
  "Atoi s =
     (let neg = (case s of [] \<Rightarrow> False | x # _ \<Rightarrow> x = CHR ''-'');
          ds = (case s of [] \<Rightarrow> [] | x # xs \<Rightarrow> if x = CHR ''-'' \<or> x = CHR ''+'' then xs else s);
          v = (if neg then - int (digits_val ds) else int (digits_val ds))
      in if ds \<noteq> [] \<and> list_all is_digit ds \<and> in_int64 v then Some v else None)"

text \<open>\<^verbatim>\<open>strconv.FormatUint(n, 10)\<close>, also what \<^verbatim>\<open>%v\<close> prints for a number.\<close>

fun itoa :: "nat \<Rightarrow> string" where
  "itoa n = (if n < 10 then [char_of (48 + n)] else itoa (n div 10) @ [char_of (48 + n mod 10)])"

declare itoa.simps [simp del]

lemma of_char_digit: "d < 10 \<Longrightarrow> (of_char (char_of (48 + d) :: char) :: nat) = 48 + d"
  by simp

lemma itoa_props: "list_all is_digit (itoa n) \<and> itoa n \<noteq> [] \<and> digits_val (itoa n) = n"
proof (induction n rule: itoa.induct)
  case (1 n)
  show ?case
  proof (cases "n < 10")
    case True
    then show ?thesis
      by (subst (1 2 3) itoa.simps) (simp add: is_digit_def digits_val_def)
  next
    case False
    have "is_digit (char_of (48 + n mod 10))"
      by (simp add: is_digit_def)
    moreover have "digits_val (itoa (n div 10) @ [char_of (48 + n mod 10)]) = n"
      using "1" [OF False] by (simp add: digits_val_def)
    ultimately show ?thesis
      using "1" [OF False] False by (simp add: itoa.simps [of n])
  qed
qed

lemma itoa_digits: "c \<in> set (itoa n) \<Longrightarrow> is_digit c"
  using itoa_props by (auto simp: list_all_iff)

lemma Atoi_itoa: "n < 2 ^ 63 \<Longrightarrow> Atoi (itoa n) = Some (int n)"
proof -
  assume n: "n < 2 ^ 63"
  obtain x xs where x: "itoa n = x # xs"
    using itoa_props by (meson neq_Nil_conv)
  with itoa_digits [of x n] have "x \<noteq> CHR ''-''" "x \<noteq> CHR ''+''"
    by (auto simp: is_digit_def)
  moreover have "in_int64 (int n)"
    using n by (simp add: in_int64_def)
  ultimately show ?thesis
    using itoa_props [of n] x by (simp add: Atoi_def)
qed

lemma Atoi_range: "Atoi s = Some i \<Longrightarrow> in_int64 i"
  by (auto simp: Atoi_def Let_def split: if_splits)

lemma digits_val_bound: "\<forall>x \<in> set ds. is_digit x \<Longrightarrow> digits_val ds < 10 ^ length ds"
proof (induction ds rule: rev_induct)
  case (snoc x ds)
  have "(of_char x :: nat) - 48 < 10" using snoc.prems by (auto simp: is_digit_def)
  moreover have "digits_val ds < 10 ^ length ds" using snoc by simp
  ultimately show ?case by (simp add: digits_val_def)
qed (simp add: digits_val_def)

lemma Atoi_digits:
  assumes "ds \<noteq> []" "\<forall>x \<in> set ds. is_digit x" "length ds \<le> 18"
  shows "Atoi ds = Some (int (digits_val ds))"
proof -
  have "digits_val ds < 10 ^ length ds" using assms(2) by (rule digits_val_bound)
  also have "\<dots> \<le> 10 ^ 18" using assms(3) by (intro power_increasing) auto
  finally have "in_int64 (int (digits_val ds))" by (simp add: in_int64_def)
  moreover obtain x xs where x: "ds = x # xs" using assms(1) by (cases ds) auto
  moreover have "x \<noteq> CHR ''-''" "x \<noteq> CHR ''+''" using assms(2) x by (auto simp: is_digit_def)
  ultimately show ?thesis using assms(2) by (simp add: Atoi_def list_all_iff)
qed

end
