(* ===== verification/Topics.thy ===== *)
theory Topics
  imports Go_Strings
begin

text \<open>
  The pure helpers of \<^verbatim>\<open>src/util/utils.go\<close>, \<^verbatim>\<open>src/util/certificate.go\<close> and
  \<^verbatim>\<open>src/routing/utils.go\<close>: translation between the short and the long form of
  command topics, parsing of command topics, the topic mapping of a generic hub, parsing of the
  command timeout, file checks and device ID patterns.
\<close>

subsection \<open>Command topics\<close>

definition NormalizeTopic :: "string \<Rightarrow> string" where
  "NormalizeTopic topic =
     (let topic = (if HasPrefix topic ''c//'' then Replace1 topic ''c'' ''command'' else topic)
      in if HasSuffix topic ''/q/#'' then Replace1 topic ''/q/#'' ''/req/#'' else topic)"

text \<open>
  The result is (command type, prefix, suffix). \<open>plen\<close> is the length of the topic prefix and
  \<open>klen\<close> the length of the command type, \<open>3, 1\<close> for \<^verbatim>\<open>c//\<close> and \<open>9, 3\<close> for
  \<^verbatim>\<open>command//\<close>: the two branches of the source differ in these numbers only. The slices
  are taken in the order of the source.
\<close>

definition parse_after :: "int \<Rightarrow> int \<Rightarrow> string \<Rightarrow> (string \<times> string \<times> string) outcome" where
  "parse_after plen klen topic =
     and_then (slice_from topic plen) (\<lambda>rest.
       let stop = plen + IndexRune rest CHR ''/'' in
       and_then (slice topic (stop + 1) (stop + 1 + klen)) (\<lambda>cmdType.
       and_then (slice topic plen stop) (\<lambda>prefix.
       and_then (slice_from topic (stop + klen + 2)) (\<lambda>suffix.
         Inr (cmdType, prefix, suffix)))))"

definition ParseCmdTopic :: "string \<Rightarrow> (string \<times> string \<times> string) outcome" where
  "ParseCmdTopic topic =
     (if HasPrefix topic ''c//'' then parse_after 3 1 topic
      else if HasPrefix topic ''command//'' then parse_after 9 3 topic
      else Inr ('''', '''', ''''))"

definition ResponseStatusTopic :: "string \<Rightarrow> nat \<Rightarrow> string outcome" where
  "ResponseStatusTopic inboxTopic status =
     and_then (ParseCmdTopic inboxTopic) (\<lambda>(cmdType, prefix, suffix).
       let stop = IndexRune suffix CHR ''/'' in
       and_then (slice suffix 0 stop) (\<lambda>req.
         Inr (''command//'' @ prefix @ ''/res/'' @ req @ ''/'' @ itoa status)))"

definition NewHonoUserName :: "string \<Rightarrow> string \<Rightarrow> string" where
  "NewHonoUserName deviceAuthID hubTenantID = deviceAuthID @ ''@'' @ hubTenantID"

subsection \<open>Topics of a generic hub\<close>

datatype topic_error = InvalidCommandTopic string | InvalidDeviceID string string

definition fixCommand :: "string \<Rightarrow> topic_error + string" where
  "fixCommand topic =
     (let segments = Split topic CHR ''/'' in
      if length segments < 5 then Inl (InvalidCommandTopic topic)
      else Inr (''command//''
        @ (if length (segments ! 3) > 0 then segments ! 2 @ '':'' @ segments ! 3 else [])
        @ with_slashes (drop 4 segments)))"

definition stripGatewayID :: "string \<Rightarrow> string \<Rightarrow> topic_error + string" where
  "stripGatewayID gatewayID deviceID =
     (if HasPrefix deviceID gatewayID
      then if length deviceID \<le> length gatewayID + 1 then Inr ''''
           else Inr (drop (length gatewayID + 1) deviceID)
      else Inl (InvalidDeviceID deviceID gatewayID))"

subsection \<open>Timeouts\<close>

definition inTimeoutRange :: "duration \<Rightarrow> bool" where
  "inTimeoutRange timeout \<longleftrightarrow> timeout \<ge> 0 \<and> timeout < Hour"

text \<open>\<open>scaled s u\<close> is \<open>Duration(i) * u\<close> for the number \<open>i\<close> read from \<open>s\<close>, with the
  wrap-around of the 64-bit product, and the initial \<open>-1\<close> when \<open>s\<close> is no number.\<close>

definition scaled :: "string \<Rightarrow> duration \<Rightarrow> duration" where
  "scaled s u = (case Atoi s of Some i \<Rightarrow> wrap64 (i * u) | None \<Rightarrow> - 1)"

definition ParseTimeout :: "string \<Rightarrow> duration outcome" where
  "ParseTimeout timeout =
     (let l = length timeout in
      if l = 0 then Inr (60 * Second)
      else and_then
        (if timeout ! (l - 1) = CHR ''m'' then Inr (scaled (take (l - 1) timeout) Minute)
         else if timeout ! (l - 1) = CHR ''s'' then
           (if l < 2 then Inl IndexOutOfRange
            else if timeout ! (l - 2) = CHR ''m'' then Inr (scaled (take (l - 2) timeout) Millisecond)
            else Inr (scaled (take (l - 1) timeout) Second))
         else Inr (scaled timeout Second))
        (\<lambda>t. if inTimeoutRange t then Inr t else Inr (60 * Second)))"

subsection \<open>Files and certificates\<close>

text \<open>What \<^verbatim>\<open>os.Stat\<close> says about a path.\<close>

datatype stat_result = StatFile | StatDir | StatNotExist | StatError

datatype path_error = EmptyPath | StatFailed

definition ValidPath :: "(string \<Rightarrow> stat_result) \<Rightarrow> string \<Rightarrow> path_error + unit" where
  "ValidPath stat filename =
     (if length filename = 0 then Inl EmptyPath
      else case stat filename of StatError \<Rightarrow> Inl StatFailed | _ \<Rightarrow> Inr ())"

definition FileExists :: "(string \<Rightarrow> stat_result) \<Rightarrow> string \<Rightarrow> bool" where
  "FileExists stat filename =
     (if length filename = 0 then False
      else case stat filename of StatNotExist \<Rightarrow> False | StatError \<Rightarrow> False
           | StatDir \<Rightarrow> False | StatFile \<Rightarrow> True)"

datatype cert_error = NoCertificate | CertParse

text \<open>
  \<open>parse\<close> is \<^verbatim>\<open>x509.ParseCertificate\<close>: the subject's string and common name, or
  \<open>None\<close> for its error; a certificate is its chain of encodings.
\<close>

definition ReplacePattern ::
  "('c \<Rightarrow> (string \<times> string) option) \<Rightarrow> string \<Rightarrow> 'c list \<Rightarrow> cert_error + string" where
  "ReplacePattern parse pattern cert =
     (if cert = [] then Inl NoCertificate
      else case parse (hd cert) of None \<Rightarrow> Inl CertParse
      | Some (subject, commonName) \<Rightarrow>
          let p1 = (case Index pattern ''{{subject-dn}}'' of None \<Rightarrow> pattern
                    | Some _ \<Rightarrow> ReplaceAll pattern ''{{subject-dn}}'' subject);
              p2 = (case Index p1 ''{{subject-cn}}'' of None \<Rightarrow> p1
                    | Some _ \<Rightarrow> ReplaceAll p1 ''{{subject-cn}}'' commonName)
          in Inr p2)"

lemma ParseTimeout_range: "ParseTimeout s = Inr t \<Longrightarrow> 0 \<le> t \<and> t < Hour"
  by (auto simp: ParseTimeout_def Let_def and_then_eq_Inr inTimeoutRange_def duration_defs split: if_splits)

subsection \<open>Lemmas on parsing\<close>

lemma parse_after_ok:
  assumes "int (length p) = plen" "int (length k) = klen" "CHR ''/'' \<notin> set dev"
  shows "parse_after plen klen (p @ dev @ ''/'' @ k @ [sep] @ suffix) = Inr (k, dev, suffix)"
proof -
  let ?t = "p @ dev @ ''/'' @ k @ [sep] @ suffix"
  let ?rest = "dev @ CHR ''/'' # k @ [sep] @ suffix"
  let ?stop = "plen + int (length dev)"
  have 1: "slice_from ?t plen = Inr ?rest"
    by (rule slice_from_okI [of _ p]) (use assms in simp_all)
  have 2: "IndexRune ?rest CHR ''/'' = int (length dev)"
    by (rule IndexRune_append) (rule assms)
  have 3: "slice ?t (?stop + 1) (?stop + 1 + klen) = Inr k"
    by (rule slice_okI [of _ "p @ dev @ ''/''" k "[sep] @ suffix"]) (use assms in simp_all)
  have 4: "slice ?t plen ?stop = Inr dev"
    by (rule slice_okI [of _ p dev "''/'' @ k @ [sep] @ suffix"]) (use assms in simp_all)
  have 5: "slice_from ?t (?stop + klen + 2) = Inr suffix"
    by (rule slice_from_okI [of _ "p @ dev @ ''/'' @ k @ [sep]"]) (use assms in simp_all)
  show ?thesis
    unfolding parse_after_def 1 Let_def and_then_Inr 2 3 4 5 by (rule refl)
qed

text \<open>Topics on which the slices run out of range: no separator after the prefix, or too few
  bytes after it.\<close>

definition cut_short :: "nat \<Rightarrow> string \<Rightarrow> bool" where
  "cut_short klen r \<longleftrightarrow> length (dropWhile (\<lambda>x. x \<noteq> CHR ''/'') r) < klen + 2"

lemma parse_after_panic:
  assumes "cut_short klen r"
  shows "\<exists>e. parse_after (int (length p)) (int klen) (p @ r) = Inl e"
proof -
  have rest: "slice_from (p @ r) (int (length p)) = Inr r"
    by (rule slice_from_okI) simp_all
  show ?thesis
  proof (cases "CHR ''/'' \<in> set r")
    case True
    then obtain a b where r: "r = a @ CHR ''/'' # b" "CHR ''/'' \<notin> set a"
      "IndexRune r CHR ''/'' = int (length a)" by (rule IndexRune_split)
    have "dropWhile (\<lambda>x. x \<noteq> CHR ''/'') r = CHR ''/'' # b"
      unfolding r(1) by (subst dropWhile_append2) (use r(2) in auto)
    with assms have "length b < klen + 1"
      by (simp add: cut_short_def)
    then have "slice_from (p @ r) (int (length p) + int (length a) + int klen + 2) = Inl SliceBounds"
      by (intro slice_from_panic) (simp add: r(1))
    then show ?thesis
      using rest r(3) by (auto simp: parse_after_def Let_def and_then_eq_Inl slice_def)
  next
    case False
    then have "IndexRune r CHR ''/'' = - 1" by (rule IndexRune_absent)
    then show ?thesis
      using rest by (auto simp: parse_after_def Let_def and_then_eq_Inl slice_def)
  qed
qed

lemma parse_after_total:
  assumes "\<not> cut_short klen r"
  obtains dev k sep suffix where "r = dev @ ''/'' @ k @ [sep] @ suffix" "CHR ''/'' \<notin> set dev"
    "length k = klen"
    "parse_after (int (length p)) (int klen) (p @ r) = Inr (k, dev, suffix)"
proof -
  define dev where "dev = takeWhile (\<lambda>x. x \<noteq> CHR ''/'') r"
  define tail where "tail = dropWhile (\<lambda>x. x \<noteq> CHR ''/'') r"
  have len: "klen + 2 \<le> length tail"
    using assms by (simp add: cut_short_def tail_def)
  then have "tail \<noteq> []" by auto
  then have hd: "hd tail = CHR ''/''"
    unfolding tail_def using hd_dropWhile by blast
  define k where "k = take klen (tl tail)"
  have nonempty: "drop klen (tl tail) \<noteq> []"
    using len by simp
  define sep where "sep = hd (drop klen (tl tail))"
  define suffix where "suffix = tl (drop klen (tl tail))"
  have "tl tail = k @ sep # suffix"
    using nonempty unfolding k_def sep_def suffix_def by (metis append_take_drop_id hd_Cons_tl)
  with hd \<open>tail \<noteq> []\<close> have "tail = ''/'' @ k @ [sep] @ suffix"
    by (metis append_Cons append_Nil list.collapse)
  then have r: "r = dev @ ''/'' @ k @ [sep] @ suffix"
    unfolding dev_def tail_def by (metis takeWhile_dropWhile_id)
  have dev: "CHR ''/'' \<notin> set dev"
    unfolding dev_def by (auto dest: set_takeWhileD)
  have k: "length k = klen"
    using len by (simp add: k_def)
  show ?thesis
    using that [OF r dev k] parse_after_ok [of p "int (length p)" k "int klen" dev sep suffix]
      dev k r by simp
qed

subsection \<open>Properties of topic parsing\<close>

text \<open>
  Parsing inverts building: a long topic \<^verbatim>\<open>command//dev/kind/suffix\<close> and a short
  topic \<^verbatim>\<open>c//dev/k/suffix\<close> are taken apart into exactly their parts, for every device part
  without a slash (it may be empty) and every suffix (it may hold slashes).
\<close>

lemma ParseCmdTopic_roundtrip:
  assumes "CHR ''/'' \<notin> set dev" "length kind = 3"
  shows "ParseCmdTopic (''command//'' @ dev @ ''/'' @ kind @ ''/'' @ suf) = Inr (kind, dev, suf)
    \<and> ParseCmdTopic (''c//'' @ dev @ ''/'' @ [k] @ ''/'' @ suf) = Inr ([k], dev, suf)"
  using parse_after_ok [of "''command//''" 9 kind 3 dev "CHR ''/''" suf]
    parse_after_ok [of "''c//''" 3 "[k]" 1 dev "CHR ''/''" suf] assms
  by (simp add: ParseCmdTopic_def)

text \<open>
  When parsing panics, exactly: a topic that starts with \<^verbatim>\<open>c//\<close> or
  \<^verbatim>\<open>command//\<close> and has no further slash, or fewer than two bytes (four for the long
  form) after it. Every other topic is parsed without a panic.
\<close>

lemma ParseCmdTopic_panics_iff:
  "(\<exists>e. ParseCmdTopic t = Inl e) \<longleftrightarrow>
     (\<exists>r. t = ''c//'' @ r \<and> cut_short 1 r) \<or> (\<exists>r. t = ''command//'' @ r \<and> cut_short 3 r)"
proof -
  have branch: "(\<exists>e. parse_after (int (length p)) (int klen) (p @ r) = Inl e) \<longleftrightarrow> cut_short klen r"
    for p klen r
    by (metis Inl_Inr_False parse_after_panic parse_after_total)
  consider r where "t = ''c//'' @ r" | r where "t = ''command//'' @ r"
    | "\<not> HasPrefix t ''c//''" "\<not> HasPrefix t ''command//''"
    unfolding HasPrefix_iff by blast
  then show ?thesis
  proof cases
    case 1
    then show ?thesis using branch [of "''c//''" 1 r] by (simp add: ParseCmdTopic_def)
  next
    case 2
    then show ?thesis using branch [of "''command//''" 3 r] by (simp add: ParseCmdTopic_def)
  next
    case 3
    then show ?thesis by (auto simp: ParseCmdTopic_def)
  qed
qed

text \<open>
  The reply topic of a request: for an inbox topic
  \<^verbatim>\<open>command//dev/req/id/rest\<close> in either spelling the status topic is
  \<^verbatim>\<open>command//dev/res/id/status\<close>, so it keeps device and request identifier.
\<close>

lemma ResponseStatusTopic_reply:
  assumes "CHR ''/'' \<notin> set dev" "CHR ''/'' \<notin> set rid"
    and "inbox \<in> {''command//'' @ dev @ ''/req/'' @ rid @ ''/'' @ rest, ''c//'' @ dev @ ''/q/'' @ rid @ ''/'' @ rest}"
  shows "ResponseStatusTopic inbox status = Inr (''command//'' @ dev @ ''/res/'' @ rid @ ''/'' @ itoa status)"
proof -
  have "IndexRune (rid @ CHR ''/'' # rest) CHR ''/'' = int (length rid)"
    by (rule IndexRune_append) (rule assms)
  moreover have "slice (rid @ CHR ''/'' # rest) 0 (int (length rid)) = Inr rid"
    by (rule slice_okI [of _ "[]"]) simp_all
  moreover have "ParseCmdTopic inbox \<in> {Inr (''req'', dev, rid @ CHR ''/'' # rest), Inr (''q'', dev, rid @ CHR ''/'' # rest)}"
    using parse_after_ok [of "''command//''" 9 "''req''" 3 dev "CHR ''/''" "rid @ ''/'' @ rest"]
      parse_after_ok [of "''c//''" 3 "''q''" 1 dev "CHR ''/''" "rid @ ''/'' @ rest"] assms(1,3)
    by (auto simp: ParseCmdTopic_def)
  ultimately show ?thesis
    by (auto simp: ResponseStatusTopic_def)
qed

lemma Replace1_short_req:
  assumes "CHR ''#'' \<notin> set mid"
  shows "Replace1 (mid @ ''/q/#'') ''/q/#'' ''/req/#'' = mid @ ''/req/#''"
proof -
  have "\<not> HasPrefix (drop i (mid @ ''/q/#'' @ [])) ''/q/#''" if i: "i < length mid" for i
  proof
    assume "HasPrefix (drop i (mid @ ''/q/#'' @ [])) ''/q/#''"
    then obtain r where r: "drop i mid @ ''/q/#'' = ''/q/#'' @ r"
      using i by (auto simp: HasPrefix_iff)
    have "r \<noteq> []"
      using arg_cong [OF r, of length] i by auto
    then obtain r' x where "r = r' @ [x]" by (metis rev_exhaust)
    with arg_cong [OF r, of butlast] have "drop i mid @ ''/q/'' = ''/q/#'' @ r'"
      by (simp add: butlast_append)
    then have "CHR ''#'' \<in> set (drop i mid @ ''/q/'')"
      by simp
    with assms show False by (auto dest: in_set_dropD)
  qed
  then show ?thesis
    using Replace1_first [of "''/q/#''" mid "[]" "''/req/#''"] by simp
qed

text \<open>
  Normalisation gives the long form: whichever of the two prefixes and whichever of the two
  kinds a client uses to subscribe for the requests of a device, the normalised topic is
  \<^verbatim>\<open>command//dev/req/#\<close>; so the spellings of one subscription share one topic
  identifier, and normalising twice changes nothing.
\<close>

lemma NormalizeTopic_long_form:
  assumes "CHR ''#'' \<notin> set dev" "pre \<in> {''c//'', ''command//''}" "suf \<in> {''/q/#'', ''/req/#''}"
  shows "NormalizeTopic (pre @ dev @ suf) = ''command//'' @ dev @ ''/req/#''"
proof -
  have pre: "(if HasPrefix (pre @ x) ''c//'' then Replace1 (pre @ x) ''c'' ''command'' else pre @ x)
      = ''command//'' @ x" for x
    using assms(2) by auto
  have "\<not> HasSuffix (''command//'' @ dev @ ''/req/#'') ''/q/#''"
    by (simp add: HasSuffix_def)
  moreover have "HasSuffix ((''command//'' @ dev) @ ''/q/#'') ''/q/#''"
    by (rule HasSuffix_append)
  moreover have "Replace1 ((''command//'' @ dev) @ ''/q/#'') ''/q/#'' ''/req/#'' = (''command//'' @ dev) @ ''/req/#''"
    by (rule Replace1_short_req) (use assms(1) in simp)
  ultimately show ?thesis
    unfolding NormalizeTopic_def pre Let_def using assms(3) by auto
qed

subsection \<open>Properties of the timeout\<close>

text \<open>
  The timeout of a command is at least zero and below one hour whatever the header says; the
  only header on which the parser panics is the lone unit \<^verbatim>\<open>s\<close>.
\<close>

lemma ParseTimeout_bounds:
  "case ParseTimeout s of Inl e \<Rightarrow> s = ''s'' \<and> e = IndexOutOfRange
   | Inr t \<Rightarrow> s \<noteq> ''s'' \<and> 0 \<le> t \<and> t < Hour"
proof (cases "length s < 2")
  case True
  then consider "s = []" | c where "s = [c]"
    by (cases s; cases "tl s") auto
  then show ?thesis
    by cases (auto simp: ParseTimeout_def Let_def inTimeoutRange_def duration_defs)
next
  case False
  then have "s \<noteq> ''s''" by auto
  with False show ?thesis
    by (auto simp: ParseTimeout_def Let_def inTimeoutRange_def duration_defs)
qed

lemma scaled_itoa:
  assumes "int n * u < Hour" "0 < u"
  shows "scaled (itoa n) u = int n * u"
proof -
  have "int n \<le> int n * u" using assms(2) by (simp add: mult_le_cancel_left1)
  then have "int n < Hour" using assms(1) by linarith
  then have n: "n < 2 ^ 63" by (simp add: duration_defs)
  have "0 \<le> int n * u" using assms(2) by simp
  moreover have "Hour < 2 ^ 63" by (simp add: duration_defs)
  ultimately have "in_int64 (int n * u)"
    using assms(1) unfolding in_int64_def by linarith
  with n show ?thesis
    by (simp add: scaled_def Atoi_itoa wrap64_id)
qed

text \<open>The default of one minute for a value out of range.\<close>

definition or_minute :: "duration \<Rightarrow> duration" where
  "or_minute t = (if inTimeoutRange t then t else 60 * Second)"

lemma ParseTimeout_cases:
  shows ParseTimeout_m: "ParseTimeout (ds @ ''m'') = Inr (or_minute (scaled ds Minute))"
    and ParseTimeout_ms: "ParseTimeout (ds @ ''ms'') = Inr (or_minute (scaled ds Millisecond))"
    and ParseTimeout_s: "ds \<noteq> [] \<Longrightarrow> last ds \<noteq> CHR ''m'' \<Longrightarrow>
          ParseTimeout (ds @ ''s'') = Inr (or_minute (scaled ds Second))"
    and ParseTimeout_bare: "ds \<noteq> [] \<Longrightarrow> last ds \<noteq> CHR ''m'' \<Longrightarrow> last ds \<noteq> CHR ''s'' \<Longrightarrow>
          ParseTimeout ds = Inr (or_minute (scaled ds Second))"
  by (simp_all add: ParseTimeout_def Let_def or_minute_def nth_append last_conv_nth)

lemma itoa_last: "last (itoa n) \<noteq> CHR ''m''" "last (itoa n) \<noteq> CHR ''s''"
proof -
  have "is_digit (last (itoa n))"
    using itoa_props [of n] by (intro itoa_digits [of _ n]) simp
  then show "last (itoa n) \<noteq> CHR ''m''" "last (itoa n) \<noteq> CHR ''s''"
    by (auto simp: is_digit_def)
qed

text \<open>
  A number followed by its unit is read back: minutes, seconds, milliseconds and, without a
  unit, seconds, whenever the value is below one hour.
\<close>

lemma ParseTimeout_units:
  assumes "(suf, u) \<in> {(''m'', Minute), (''s'', Second), (''ms'', Millisecond), ('''', Second)}"
    and "int n * u < Hour"
  shows "ParseTimeout (itoa n @ suf) = Inr (int n * u)"
proof -
  have u: "0 < u" using assms(1) by (auto simp: duration_defs)
  then have "0 \<le> int n * u" by simp
  then have "inTimeoutRange (int n * u)"
    using assms(2) by (simp add: inTimeoutRange_def)
  then have "or_minute (scaled (itoa n) u) = int n * u"
    using scaled_itoa [OF assms(2) u] by (simp add: or_minute_def)
  moreover have "itoa n \<noteq> []" using itoa_props [of n] by simp
  ultimately show ?thesis
    using assms(1) itoa_last [of n]
    by (auto simp: ParseTimeout_m ParseTimeout_ms ParseTimeout_s ParseTimeout_bare
        simp del: append.simps)
qed

text \<open>
  The product of number and unit is computed in 64 bits before the range check: a timeout of
  307445735 minutes wraps around to about 26.3 seconds and is accepted, where an out-of-range
  timeout is meant to become one minute.
\<close>

lemma ParseTimeout_overflow:
  "ParseTimeout ''307445735m'' = Inr 26290448384 \<and> \<not> (307445735 * Minute < Hour)"
  by (simp add: ParseTimeout_def scaled_def Atoi_def digits_val_def is_digit_def in_int64_def
      wrap64_def inTimeoutRange_def duration_defs)

subsection \<open>Lemmas on the topics of a generic hub\<close>

lemma fixCommand_ok:
  assumes "CHR ''/'' \<notin> set ten" "CHR ''/'' \<notin> set gw" "CHR ''/'' \<notin> set dev"
  shows "fixCommand (''command/'' @ ten @ ''/'' @ gw @ ''/'' @ dev @ ''/'' @ rest)
    = Inr (''command//'' @ (if dev = [] then [] else gw @ '':'' @ dev) @ ''/'' @ rest)"
proof -
  have "Split (''command/'' @ ten @ ''/'' @ gw @ ''/'' @ dev @ ''/'' @ rest) CHR ''/''
      = ''command'' # ten # gw # dev # Split rest CHR ''/''"
    using assms by (simp add: Split_append)
  moreover have "with_slashes (Split rest CHR ''/'') = ''/'' @ rest"
    by (simp add: with_slashes_Join Join_Split)
  moreover have "0 < length (Split rest CHR ''/'')" by simp
  ultimately show ?thesis
    by (simp add: fixCommand_def Let_def numeral_eq_Suc)
qed

lemma stripGatewayID_ok: "stripGatewayID gw (gw @ c # dev) = Inr dev"
  by (simp add: stripGatewayID_def)

lemma stripGatewayID_self: "stripGatewayID gw gw = Inr ''''"
  by (simp add: stripGatewayID_def HasPrefix_iff)

lemma stripGatewayID_foreign:
  "\<not> HasPrefix dev gw \<Longrightarrow> stripGatewayID gw dev = Inl (InvalidDeviceID dev gw)"
  by (simp add: stripGatewayID_def)

end
