(* ===== verification/Messages.thy ===== *)
theory Messages
  imports Topics
begin

text \<open>
  Messages and their contexts: \<^verbatim>\<open>src/connector/context.go\<close>,
  \<^verbatim>\<open>src/connector/marshaller.go\<close>, \<^verbatim>\<open>src/connector/utils.go\<close> and the middleware
  of \<^verbatim>\<open>src/connector/trace.go\<close> and \<^verbatim>\<open>src/routing/timestamp.go\<close>. A context is a chain
  of \<^verbatim>\<open>context.WithValue\<close> nodes as in the Go library, and a handler is a function on a state,
  so that a middleware is a function on handlers.
\<close>

subsection \<open>Contexts\<close>

type_synonym byte = "8 word"

text \<open>\<^verbatim>\<open>type Qos byte\<close>\<close>

type_synonym Qos = byte

definition QosAtMostOnce :: Qos where "QosAtMostOnce = 0"
definition QosAtLeastOnce :: Qos where "QosAtLeastOnce = 1"

datatype contextKey = topicContextKey | qosContextKey | retainContextKey

datatype ctx_value = TopicV string | QosV Qos | RetainV bool

datatype ctx = Background | WithValue ctx contextKey ctx_value

fun Value :: "ctx \<Rightarrow> contextKey \<Rightarrow> ctx_value option" where
  "Value Background k = None"
| "Value (WithValue c k' v) k = (if k' = k then Some v else Value c k)"

definition SetTopicToCtx :: "ctx \<Rightarrow> string \<Rightarrow> ctx" where
  "SetTopicToCtx c topic = WithValue c topicContextKey (TopicV topic)"

text \<open>The comma-ok type assertion on the value: a missing value or one of another type is not ok.\<close>

definition TopicFromCtx :: "ctx \<Rightarrow> string option" where
  "TopicFromCtx c = (case Value c topicContextKey of Some (TopicV t) \<Rightarrow> Some t | _ \<Rightarrow> None)"

definition SetQosToCtx :: "ctx \<Rightarrow> Qos \<Rightarrow> ctx" where
  "SetQosToCtx c qos =
     (case Value c qosContextKey of
        Some (QosV q) \<Rightarrow> if q \<noteq> qos then WithValue c qosContextKey (QosV qos)
                        else WithValue c qosContextKey (QosV qos)
      | _ \<Rightarrow> WithValue c qosContextKey (QosV qos))"

definition QosFromCtx :: "ctx \<Rightarrow> Qos option" where
  "QosFromCtx c = (case Value c qosContextKey of Some (QosV q) \<Rightarrow> Some q | _ \<Rightarrow> None)"

definition SetRetainToCtx :: "ctx \<Rightarrow> bool \<Rightarrow> ctx" where
  "SetRetainToCtx c retain =
     (case Value c retainContextKey of
        Some (RetainV r) \<Rightarrow> if r \<noteq> retain then WithValue c retainContextKey (RetainV retain) else c
      | _ \<Rightarrow> if retain then WithValue c retainContextKey (RetainV retain) else c)"

definition RetainFromCtx :: "ctx \<Rightarrow> bool" where
  "RetainFromCtx c = (case Value c retainContextKey of Some (RetainV r) \<Rightarrow> r | _ \<Rightarrow> False)"

lemmas ctx_defs = SetTopicToCtx_def TopicFromCtx_def SetQosToCtx_def QosFromCtx_def
  SetRetainToCtx_def RetainFromCtx_def

lemma ctx_Background [simp]:
  "TopicFromCtx Background = None" "QosFromCtx Background = None" "RetainFromCtx Background = False"
  by (simp_all add: ctx_defs)

lemma ctx_get_set [simp]:
  "TopicFromCtx (SetTopicToCtx c t) = Some t"
  "QosFromCtx (SetTopicToCtx c t) = QosFromCtx c"
  "RetainFromCtx (SetTopicToCtx c t) = RetainFromCtx c"
  "TopicFromCtx (SetQosToCtx c q) = TopicFromCtx c"
  "QosFromCtx (SetQosToCtx c q) = Some q"
  "RetainFromCtx (SetQosToCtx c q) = RetainFromCtx c"
  "TopicFromCtx (SetRetainToCtx c r) = TopicFromCtx c"
  "QosFromCtx (SetRetainToCtx c r) = QosFromCtx c"
  "RetainFromCtx (SetRetainToCtx c r) = r"
  by (auto simp: ctx_defs split: option.split ctx_value.split)

text \<open>
  Topic, QoS and retain flag are independent attributes of a message context: each setter is
  read back by its getter and disturbs no other, also through the branch of
  \<open>SetRetainToCtx\<close> that returns the context unchanged.
\<close>

lemma context_attributes:
  "TopicFromCtx (SetTopicToCtx c t) = Some t \<and> QosFromCtx (SetQosToCtx c q) = Some q \<and>
   RetainFromCtx (SetRetainToCtx c r) = r \<and>
   TopicFromCtx (SetRetainToCtx (SetQosToCtx c q) r) = TopicFromCtx c \<and>
   QosFromCtx (SetRetainToCtx (SetTopicToCtx c t) r) = QosFromCtx c \<and>
   RetainFromCtx (SetQosToCtx (SetTopicToCtx c t) q) = RetainFromCtx c"
  by simp

subsection \<open>Messages and handlers\<close>

record message =
  UUID :: string
  Payload :: "byte list"
  Context :: ctx

definition NewMessage :: "string \<Rightarrow> byte list \<Rightarrow> message" where
  "NewMessage uuid payload = \<lparr>UUID = uuid, Payload = payload, Context = Background\<rparr>"

definition SetContext :: "message \<Rightarrow> ctx \<Rightarrow> message" where
  "SetContext msg c = msg\<lparr>Context := c\<rparr>"

lemma NewMessage_sel [simp]:
  "UUID (NewMessage u p) = u" "Payload (NewMessage u p) = p" "Context (NewMessage u p) = Background"
  by (simp_all add: NewMessage_def)

lemma SetContext_sel [simp]:
  "UUID (SetContext m c) = UUID m" "Payload (SetContext m c) = Payload m" "Context (SetContext m c) = c"
  by (simp_all add: SetContext_def)

datatype handler_error =
  errNoTopic
| InvalidCloudCommand
| TopicError topic_error
| SetJson
| CompactJson

text \<open>
  The Go \<^verbatim>\<open>message.HandlerFunc\<close> with the state it works on: the messages to publish or an
  error, unless it panics.
\<close>

type_synonym 's handler = "message \<Rightarrow> 's \<Rightarrow> ('s \<times> (handler_error + message list)) outcome"

subsection \<open>Marshalling\<close>

definition defMarshal :: "message \<Rightarrow> handler_error + byte list" where
  "defMarshal msg = Inr (Payload msg)"

definition defUnmarshal :: "16 word \<Rightarrow> byte list \<Rightarrow> handler_error + message" where
  "defUnmarshal mid payload = Inr (NewMessage (itoa (unat mid)) payload)"

text \<open>
  What publishers and subscribers rely on of the \<^verbatim>\<open>Marshaller\<close> interface: a payload that was
  unmarshalled is marshalled again unchanged, whatever context the message got in between.
\<close>

locale marshaller =
  fixes marshal :: "message \<Rightarrow> 'e + byte list"
    and unmarshal :: "16 word \<Rightarrow> byte list \<Rightarrow> 'e + message"
  assumes bridge: "unmarshal mid p = Inr m \<Longrightarrow> marshal m = Inr p"
    and context_free: "marshal (SetContext m c) = marshal m"
begin

text \<open>A message that only got another context between receiving and sending keeps its bytes.\<close>

lemma relayed: "unmarshal mid p = Inr m \<Longrightarrow> marshal (SetContext m c) = Inr p"
  by (simp add: bridge context_free)

end

interpretation def_marshaller: marshaller defMarshal defUnmarshal
  by unfold_locales (auto simp: defMarshal_def defUnmarshal_def)

subsection \<open>Subscription filters\<close>

definition parseSubs :: "string \<Rightarrow> string list" where
  "parseSubs topic = Split topic CHR '',''"

definition subFilters :: "Qos \<Rightarrow> string list \<Rightarrow> (string, byte) mapping" where
  "subFilters qos subs = foldl (\<lambda>filters topic. Mapping.update topic qos filters) Mapping.empty subs"

lemma lookup_subFilters:
  "Mapping.lookup (subFilters qos subs) t = (if t \<in> set subs then Some qos else None)"
proof -
  have "Mapping.lookup (foldl (\<lambda>f t. Mapping.update t qos f) m subs) t =
      (if t \<in> set subs then Some qos else Mapping.lookup m t)" for m
    by (induction subs arbitrary: m) (auto simp: lookup_mapping_if)
  then show ?thesis by (simp add: subFilters_def)
qed

subsection \<open>Middleware\<close>

text \<open>
  \<open>setJson\<close> is \<^verbatim>\<open>sjson.SetBytes\<close> with the path \<^verbatim>\<open>headers.x-timestamp\<close>, \<open>now\<close> the clock
  in milliseconds.
\<close>

definition AddTimestamp ::
  "(byte list \<Rightarrow> int \<Rightarrow> byte list option) \<Rightarrow> int \<Rightarrow> 's handler \<Rightarrow> 's handler" where
  "AddTimestamp setJson now h msg s =
     (case setJson (Payload msg) now of
        None \<Rightarrow> Inr (s, Inl SetJson)
      | Some payload \<Rightarrow> h (SetContext (NewMessage (UUID msg) payload) (Context msg)) s)"

text \<open>
  The tracing middleware: \<open>compact\<close> is \<^verbatim>\<open>json.Compact\<close> and \<open>debug\<close> the logger's effect.
\<close>

definition logMessage ::
  "(byte list \<Rightarrow> byte list option) \<Rightarrow> (byte list \<Rightarrow> string \<Rightarrow> 's \<Rightarrow> 's) \<Rightarrow> message \<Rightarrow> 's \<Rightarrow> 's option" where
  "logMessage compact debug msg s =
     (case compact (Payload msg) of None \<Rightarrow> None | Some mdata \<Rightarrow> Some (debug mdata (UUID msg) s))"

definition NewTrace ::
  "(byte list \<Rightarrow> byte list option) \<Rightarrow> (byte list \<Rightarrow> string \<Rightarrow> 's \<Rightarrow> 's) \<Rightarrow> string list \<Rightarrow> 's handler \<Rightarrow> 's handler" where
  "NewTrace compact debug prefixes h msg s =
     (if length (Payload msg) = 0 then h msg s
      else case TopicFromCtx (Context msg) of
        None \<Rightarrow> h msg s
      | Some msgTopic \<Rightarrow>
          if \<exists>pref \<in> set prefixes. HasPrefix msgTopic pref
          then case logMessage compact debug msg s of
                 None \<Rightarrow> Inr (s, Inl CompactJson)
               | Some s' \<Rightarrow> h msg s'
          else h msg s)"

lemma AddTimestamp_eq:
  "AddTimestamp setJson now h msg s =
     (case setJson (Payload msg) now of
        None \<Rightarrow> Inr (s, Inl SetJson) | Some p \<Rightarrow> h (msg\<lparr>Payload := p\<rparr>) s)"
  by (cases msg) (auto simp: AddTimestamp_def SetContext_def NewMessage_def split: option.splits)

text \<open>Tracing an admissible message changes only the log.\<close>

lemma NewTrace_cases:
  "NewTrace compact debug prefixes h msg s \<in>
     {h msg s, Inr (s, Inl CompactJson)} \<union> {h msg (debug p (UUID msg) s) | p. compact (Payload msg) = Some p}"
  by (auto simp: NewTrace_def logMessage_def split: option.splits)

end
