(* ===== verification/Client_Config.thy ===== *)
theory Client_Config
  imports Complex_Main Messages
begin

text \<open>
  The configuration of a connection, \<^verbatim>\<open>src/connector/config.go\<close>, and the options of the MQTT
  client made from it, \<^verbatim>\<open>createClientOptions\<close> of \<^verbatim>\<open>src/connector/connection.go\<close>. The
  URL parser of the Go library is a parameter, and so is the value with which the MQTT library starts
  the options.
\<close>

subsection \<open>Configuration\<close>

text \<open>Go's \<^verbatim>\<open>float64\<close>, as far as it is compared: with NaN every comparison is false.\<close>

datatype float64 = Finite rat | PosInf | NegInf | NaN

fun float_less :: "float64 \<Rightarrow> float64 \<Rightarrow> bool" where
  "float_less NaN _ = False"
| "float_less _ NaN = False"
| "float_less (Finite a) (Finite b) = (a < b)"
| "float_less NegInf b = (b \<noteq> NegInf)"
| "float_less a PosInf = (a \<noteq> PosInf)"
| "float_less PosInf _ = False"
| "float_less _ NegInf = False"

record Credentials =
  UserName :: string
  Password :: string

record 'tls Configuration =
  URL :: string
  CleanSession :: bool
  NoOpStore :: bool
  ConnectTimeout :: duration
  KeepAliveTimeout :: duration
  ConnectRetryInterval :: duration
  ExternalReconnect :: bool
  AuthErrRetries :: int
  BackoffMultiplier :: float64
  MaxReconnectInterval :: duration
  MinReconnectInterval :: duration
  Creds :: Credentials
  WillTopic :: string
  WillMessage :: "byte list"
  WillQos :: Qos
  WillRetain :: bool
  TLSConfig :: "'tls option"

datatype config_error =
  UrlMissing | UrlInvalid | MinNegative | MaxNegative | MinAboveMax | AuthErrRetriesTooSmall | MultiplierTooSmall

definition Validate :: "(string \<Rightarrow> bool) \<Rightarrow> 'tls Configuration \<Rightarrow> config_error + unit" where
  "Validate urlParses c =
     (if length (URL c) = 0 then Inl UrlMissing
      else if \<not> urlParses (URL c) then Inl UrlInvalid
      else if MinReconnectInterval c < 0 then Inl MinNegative
      else if MaxReconnectInterval c < 0 then Inl MaxNegative
      else if MinReconnectInterval c > MaxReconnectInterval c then Inl MinAboveMax
      else if AuthErrRetries c < 1 then Inl AuthErrRetriesTooSmall
      else if float_less (BackoffMultiplier c) (Finite 1) then Inl MultiplierTooSmall
      else Inr ())"

definition keepAliveTimeout :: duration where "keepAliveTimeout = 20 * Second"
definition connectTimeout :: duration where "connectTimeout = 30 * Second"
definition maxReconnectInterval :: duration where "maxReconnectInterval = Minute"
definition connectRetryInterval :: duration where "connectRetryInterval = Minute"

lemmas config_consts = keepAliveTimeout_def connectTimeout_def maxReconnectInterval_def connectRetryInterval_def

definition NewMQTTClientConfig :: "(string \<Rightarrow> string option) \<Rightarrow> string \<Rightarrow> 'tls Configuration option" where
  "NewMQTTClientConfig requestURI broker =
     (case requestURI broker of
        None \<Rightarrow> None
      | Some u \<Rightarrow> Some
          \<lparr>URL = u, CleanSession = False, NoOpStore = False,
           ConnectTimeout = connectTimeout, KeepAliveTimeout = keepAliveTimeout,
           ConnectRetryInterval = connectRetryInterval, ExternalReconnect = False, AuthErrRetries = 1,
           BackoffMultiplier = Finite 2, MaxReconnectInterval = maxReconnectInterval,
           MinReconnectInterval = maxReconnectInterval, Creds = \<lparr>UserName = '''', Password = ''''\<rparr>,
           WillTopic = '''', WillMessage = [], WillQos = 0, WillRetain = False, TLSConfig = None\<rparr>)"

subsection \<open>Client options\<close>

text \<open>
  \<^verbatim>\<open>src/connector/nop_store.go\<close>: the store that switches the offline buffer of the MQTT client off. It has no state, so
  that a packet that was put is not there.
\<close>

datatype nostore = Nostore

definition nostore_Open :: "nostore \<Rightarrow> nostore" where "nostore_Open s = s"
definition nostore_Put :: "string \<Rightarrow> 'p \<Rightarrow> nostore \<Rightarrow> nostore" where "nostore_Put k p s = s"
definition nostore_Get :: "string \<Rightarrow> nostore \<Rightarrow> 'p option" where "nostore_Get k s = None"
definition nostore_Del :: "string \<Rightarrow> nostore \<Rightarrow> nostore" where "nostore_Del k s = s"
definition nostore_All :: "nostore \<Rightarrow> string list" where "nostore_All s = []"
definition nostore_Close :: "nostore \<Rightarrow> nostore" where "nostore_Close s = s"
definition nostore_Reset :: "nostore \<Rightarrow> nostore" where "nostore_Reset s = s"

datatype mqtt_store = NoStore | OrderedMemoryStore

record will =
  will_topic :: string
  will_payload :: "byte list"
  will_qos :: byte
  will_retain :: bool

text \<open>The \<^verbatim>\<open>mqtt.ClientOptions\<close> as far as the connector sets them.\<close>

record 'tls ClientOptions =
  co_ClientID :: string
  co_CleanSession :: bool
  co_Brokers :: "string list"
  co_ProtocolVersion :: nat
  co_OrderMatters :: bool
  co_KeepAlive :: duration
  co_ConnectTimeout :: duration
  co_MaxReconnectInterval :: duration
  co_AutoReconnect :: bool
  co_ConnectRetry :: bool
  co_ConnectRetryInterval :: duration
  co_TLSConfig :: "'tls option"
  co_Will :: "will option"
  co_Credentials :: "(string \<times> string) option"
  co_Store :: mqtt_store

definition createClientOptions ::
  "'tls ClientOptions \<Rightarrow> 'tls Configuration \<Rightarrow> string \<Rightarrow> bool \<Rightarrow> 'tls ClientOptions" where
  "createClientOptions defaults config clientID cleanSession =
     (let o1 = defaults\<lparr>co_ClientID := clientID, co_CleanSession := cleanSession,
                co_Brokers := co_Brokers defaults @ [URL config], co_ProtocolVersion := 4, co_OrderMatters := True,
                co_KeepAlive := KeepAliveTimeout config, co_ConnectTimeout := ConnectTimeout config,
                co_MaxReconnectInterval := MaxReconnectInterval config\<rparr>;
          o2 = o1\<lparr>co_AutoReconnect :=
                (if MaxReconnectInterval config > 0 then \<not> ExternalReconnect config else False)\<rparr>;
          o3 = (if ConnectRetryInterval config > 0
                then o2\<lparr>co_ConnectRetry := True, co_ConnectRetryInterval := ConnectRetryInterval config\<rparr> else o2);
          o4 = (case TLSConfig config of None \<Rightarrow> o3 | Some t \<Rightarrow> o3\<lparr>co_TLSConfig := Some t\<rparr>);
          o5 = (if length (WillMessage config) > 0
                then o4\<lparr>co_Will := Some \<lparr>will_topic = WillTopic config, will_payload = WillMessage config,
                       will_qos = WillQos config, will_retain = WillRetain config\<rparr>\<rparr> else o4);
          o6 = (if length (UserName (Creds config)) > 0
                then o5\<lparr>co_Credentials := Some (UserName (Creds config), Password (Creds config))\<rparr> else o5)
      in o6\<lparr>co_Store := (if NoOpStore config then NoStore else OrderedMemoryStore)\<rparr>)"

subsection \<open>Properties of the configuration\<close>

lemma Validate_ok_iff:
  "Validate urlParses c = Inr () \<longleftrightarrow>
     URL c \<noteq> [] \<and> urlParses (URL c) \<and> 0 \<le> MinReconnectInterval c \<and>
     MinReconnectInterval c \<le> MaxReconnectInterval c \<and> 1 \<le> AuthErrRetries c \<and>
     \<not> float_less (BackoffMultiplier c) (Finite 1)"
  by (auto simp: Validate_def)

text \<open>
  The defaults are valid: the configuration made for a broker address passes \<open>Validate\<close>
  as soon as the parser accepts what it printed itself, and the client made from it reconnects on its
  own with the broker's address as its only broker.
\<close>

lemma default_config_valid:
  assumes "NewMQTTClientConfig requestURI broker = Some (c :: 'tls Configuration)"
    and "\<And>b u. requestURI b = Some u \<Longrightarrow> u \<noteq> [] \<and> urlParses u"
    and "co_Brokers defaults = []"
  shows "Validate urlParses c = Inr () \<and>
    co_AutoReconnect (createClientOptions defaults c clientID clean) \<and>
    co_Brokers (createClientOptions defaults c clientID clean) = [URL c]"
  using assms
  by (auto simp: Validate_ok_iff NewMQTTClientConfig_def createClientOptions_def Let_def config_consts
      duration_defs split: option.splits)

text \<open>
  A valid configuration never lets both the client and the connection reconnect, and retries at
  least once after an authentication error.
\<close>

lemma reconnect_exclusive:
  "ExternalReconnect c \<Longrightarrow> \<not> co_AutoReconnect (createClientOptions defaults c clientID clean)"
  by (auto simp: createClientOptions_def Let_def split: option.splits)

end
