(* ===== verification/Connection.thy ===== *)
theory Connection
  imports Client_Config
begin

text \<open>
  The MQTT connection, \<^verbatim>\<open>src/connector/connection.go\<close>: its subscriptions, listeners, default
  handler, the callbacks of the MQTT client and the reconnect loop. The client is code of the MQTT
  library; what the connection asks of it is recorded as the list of calls it makes, and what it
  answers (whether the connection is open, the result of a connect) is an argument or a part of the
  state. Subscriptions are shared by reference between the topic map and the callbacks, so they live
  in a store. A handler or listener is known by its identity, of type \<open>'h\<close> and \<open>'l\<close>; a
  handler \<open>None\<close> is Go's \<^verbatim>\<open>nil\<close>.
\<close>

subsection \<open>State\<close>

record 'h subscriptioninfo =
  si_topics :: "string list"
  si_callback :: "'h option"
  si_qos :: Qos
  si_disposed :: bool

text \<open>The refusals of the broker that the connector tells apart with \<^verbatim>\<open>errors.Is\<close>.\<close>

datatype conn_error = IDRejected | BadProtocolVersion | BadUsernameOrPassword | NotAuthorised | OtherError

text \<open>The handler of a route: a callback, or the connection's wrapper of the default handler.\<close>

datatype 'h route = Callback "'h option" | DefaultHandlerWrapper

datatype 'h client_call =
  SubscribeMultiple "(string, byte) mapping" "'h option"
| Unsubscribe "string list"
| AddRoute string "'h route"
| ClientConnect
| ClientDisconnect int

record ('tls, 'h, 'l) MQTTConnection =
  mc_config :: "'tls Configuration"
  mc_clientID :: string
  connectionOpen :: bool
  calls :: "'h client_call list"
  topics :: "(string, nat) mapping"
  subs :: "nat \<Rightarrow> 'h subscriptioninfo"
  nextSub :: nat
  listeners :: "'l list"
  defaultHandler :: "'h option"
  running :: bool
  reconnecting :: bool
  fired :: "('l \<times> bool \<times> conn_error option) list"

definition call :: "'h client_call \<Rightarrow> ('tls, 'h, 'l) MQTTConnection \<Rightarrow> ('tls, 'h, 'l) MQTTConnection" where
  "call x c = c\<lparr>calls := calls c @ [x]\<rparr>"

definition nil_sub :: "'h subscriptioninfo" where
  "nil_sub = \<lparr>si_topics = [], si_callback = None, si_qos = 0, si_disposed = False\<rparr>"

text \<open>\<open>newID\<close> is the fresh identifier of the library for a client without one.\<close>

definition NewMQTTConnectionCredentialsProvider ::
  "(string \<Rightarrow> bool) \<Rightarrow> string \<Rightarrow> 'tls Configuration option \<Rightarrow> string
   \<Rightarrow> config_error option + ('tls, 'h, 'l) MQTTConnection" where
  "NewMQTTConnectionCredentialsProvider urlParses newID config clientID =
     (case config of
        None \<Rightarrow> Inl None
      | Some cfg \<Rightarrow>
          case Validate urlParses cfg of
            Inl e \<Rightarrow> Inl (Some e)
          | Inr _ \<Rightarrow>
              let (cfg, clientID) =
                    (if length clientID = 0 then (cfg\<lparr>CleanSession := True\<rparr>, newID) else (cfg, clientID))
              in Inr \<lparr>mc_config = cfg, mc_clientID = clientID, connectionOpen = False, calls = [],
                   topics = Mapping.empty, subs = (\<lambda>_. nil_sub), nextSub = 0, listeners = [],
                   defaultHandler = None, running = True, reconnecting = False, fired = []\<rparr>)"

text \<open>A connection with the credentials of its configuration.\<close>

definition NewMQTTConnection ::
  "(string \<Rightarrow> bool) \<Rightarrow> string \<Rightarrow> 'tls Configuration option \<Rightarrow> string
   \<Rightarrow> config_error option + ('tls, 'h, 'l) MQTTConnection" where
  [simp]: "NewMQTTConnection urlParses newID config clientID = NewMQTTConnectionCredentialsProvider urlParses newID config clientID"

definition mc_isConnected :: "('tls, 'h, 'l) MQTTConnection \<Rightarrow> bool" where
  [simp]: "mc_isConnected c = connectionOpen c"

definition mc_URL :: "('tls, 'h, 'l) MQTTConnection \<Rightarrow> string" where
  [simp]: "mc_URL c = URL (mc_config c)"

definition mc_AuthErrRetries :: "('tls, 'h, 'l) MQTTConnection \<Rightarrow> int" where
  [simp]: "mc_AuthErrRetries c = AuthErrRetries (mc_config c)"

definition ClientID :: "('tls, 'h, 'l) MQTTConnection \<Rightarrow> string" where
  [simp]: "ClientID c = mc_clientID c"

text \<open>The options of the client of a connection; a given credentials provider replaces the configured one.\<close>

definition initMQTTClient ::
  "'tls ClientOptions \<Rightarrow> (string \<times> string) option \<Rightarrow> ('tls, 'h, 'l) MQTTConnection \<Rightarrow> 'tls ClientOptions" where
  "initMQTTClient defaults prov c =
     (let opts = createClientOptions defaults (mc_config c) (mc_clientID c) (CleanSession (mc_config c))
      in case prov of None \<Rightarrow> opts | Some p \<Rightarrow> opts\<lparr>co_Credentials := Some p\<rparr>)"

subsection \<open>Listeners and default handler\<close>

definition AddConnectionListener :: "'l \<Rightarrow> ('tls, 'h, 'l) MQTTConnection \<Rightarrow> ('tls, 'h, 'l) MQTTConnection" where
  "AddConnectionListener l c = (if l \<in> set (listeners c) then c else c\<lparr>listeners := listeners c @ [l]\<rparr>)"

fun remove_listener :: "'l \<Rightarrow> 'l list \<Rightarrow> 'l list" where
  "remove_listener l [] = []"
| "remove_listener l (x # xs) = (if l = x then xs else x # remove_listener l xs)"

definition RemoveConnectionListener :: "'l \<Rightarrow> ('tls, 'h, 'l) MQTTConnection \<Rightarrow> ('tls, 'h, 'l) MQTTConnection" where
  "RemoveConnectionListener l c = c\<lparr>listeners := remove_listener l (listeners c)\<rparr>"

definition listenersRef :: "('tls, 'h, 'l) MQTTConnection \<Rightarrow> 'l list" where
  [simp]: "listenersRef c = listeners c"

definition fireConnectionEvent ::
  "bool \<Rightarrow> conn_error option \<Rightarrow> ('tls, 'h, 'l) MQTTConnection \<Rightarrow> ('tls, 'h, 'l) MQTTConnection" where
  "fireConnectionEvent hasConnection err c =
     c\<lparr>fired := fired c @ map (\<lambda>l. (l, hasConnection, err)) (listenersRef c)\<rparr>"

definition defHandlerRef :: "('tls, 'h, 'l) MQTTConnection \<Rightarrow> 'h option" where
  [simp]: "defHandlerRef c = defaultHandler c"

definition setDefaultHandler :: "'h option \<Rightarrow> ('tls, 'h, 'l) MQTTConnection \<Rightarrow> ('tls, 'h, 'l) MQTTConnection" where
  "setDefaultHandler h c = c\<lparr>defaultHandler := h\<rparr>"

text \<open>The handler a message without a route goes to; \<open>None\<close> when it is logged as not routed.\<close>

definition onDefaultHandlerWrapper :: "('tls, 'h, 'l) MQTTConnection \<Rightarrow> 'h option" where
  "onDefaultHandlerWrapper c = defHandlerRef c"

subsection \<open>Subscriptions\<close>

text \<open>\<open>newUUID\<close> is the identifier made for a subscription of several topics.\<close>

definition subscribe ::
  "string \<Rightarrow> 'h option \<Rightarrow> Qos \<Rightarrow> string list \<Rightarrow> ('tls, 'h, 'l) MQTTConnection
   \<Rightarrow> (('tls, 'h, 'l) MQTTConnection \<times> string) outcome" where
  "subscribe newUUID callback qos ts c =
     (if ts = [] then Inl IndexOutOfRange
      else let sid = (if length ts > 1 then newUUID else hd ts);
               a = nextSub c;
               s = \<lparr>si_topics = ts, si_callback = callback, si_qos = qos, si_disposed = False\<rparr>;
               c1 = c\<lparr>topics := Mapping.update sid a (topics c), subs := (subs c)(a := s), nextSub := a + 1\<rparr>;
               c2 = (if connectionOpen c1 then call (SubscribeMultiple (subFilters qos ts) callback) c1
                     else if qos \<noteq> QosAtMostOnce then fold (\<lambda>t. call (AddRoute t (Callback callback))) ts c1
                     else c1)
           in Inr (c2, sid))"

text \<open>
  \<open>unsubscribe\<close> is the removal of the entry, atomic in the \<^verbatim>\<open>sync.Map\<close>, and the section
  under the lock of the subscription; \<open>dispose\<close> is the latter.
\<close>

definition dispose :: "bool \<Rightarrow> nat \<Rightarrow> ('tls, 'h, 'l) MQTTConnection \<Rightarrow> ('tls, 'h, 'l) MQTTConnection" where
  "dispose autoDelete a c =
     (let s = subs c a;
          c1 = c\<lparr>subs := (subs c)(a := s\<lparr>si_disposed := True\<rparr>)\<rparr>
      in if autoDelete \<and> connectionOpen c1 then call (Unsubscribe (si_topics s)) c1
         else fold (\<lambda>t. call (AddRoute t DefaultHandlerWrapper)) (si_topics s) c1)"

definition unsubscribe :: "string \<Rightarrow> bool \<Rightarrow> ('tls, 'h, 'l) MQTTConnection \<Rightarrow> ('tls, 'h, 'l) MQTTConnection" where
  "unsubscribe sid autoDelete c =
     (case Mapping.lookup (topics c) sid of
        None \<Rightarrow> c
      | Some a \<Rightarrow> dispose autoDelete a (c\<lparr>topics := Mapping.delete sid (topics c)\<rparr>))"

subsection \<open>Callbacks of the client\<close>

text \<open>The body of the range over the subscriptions, under the lock of the subscription.\<close>

definition resubscribe :: "nat \<Rightarrow> ('tls, 'h, 'l) MQTTConnection \<Rightarrow> ('tls, 'h, 'l) MQTTConnection" where
  "resubscribe a c =
     (let s = subs c a
      in if si_disposed s then c else call (SubscribeMultiple (subFilters (si_qos s) (si_topics s)) (si_callback s)) c)"

text \<open>\<open>sh\<close> is the order in which \<^verbatim>\<open>sync.Map.Range\<close> visits the identifiers.\<close>

definition onConnected ::
  "(string list \<Rightarrow> string list) \<Rightarrow> ('tls, 'h, 'l) MQTTConnection \<Rightarrow> ('tls, 'h, 'l) MQTTConnection" where
  "onConnected sh c =
     fireConnectionEvent True None
       (fold (\<lambda>sid c. case Mapping.lookup (topics c) sid of None \<Rightarrow> c | Some a \<Rightarrow> resubscribe a c)
          (map_range sh (topics c)) c)"

definition externalRetrySleep :: duration where "externalRetrySleep = 5 * Second"

definition spinCount :: "duration \<Rightarrow> nat" where
  "spinCount reconnectInterval =
     (let n = nat (reconnectInterval div externalRetrySleep) in if n = 0 then 1 else n)"

text \<open>
  What one turn of the reconnect loop meets: whether the connection still runs at its start, the
  interval of the backoff (\<open>None\<close> for \<^verbatim>\<open>backoff.Stop\<close>), after how many of the short sleeps the
  connection is found stopped, and the result of the connect.
\<close>

record attempt =
  att_running :: bool
  att_interval :: "duration option"
  att_stopped :: "nat option"
  att_result :: "conn_error option"

datatype reconnect_end = StoppedRunning | BackoffStop | Reconnected | AuthRefused

definition auth_error :: "conn_error \<Rightarrow> bool" where
  "auth_error e \<longleftrightarrow> e = BadUsernameOrPassword \<or> e = NotAuthorised"

text \<open>
  The loop from \<open>authErrRetries\<close> refusals on; \<open>None\<close> when it still runs after the given turns.
\<close>

fun reconnect_loop ::
  "attempt list \<Rightarrow> int \<Rightarrow> ('tls, 'h, 'l) MQTTConnection \<Rightarrow> (('tls, 'h, 'l) MQTTConnection \<times> reconnect_end) option" where
  "reconnect_loop [] n c = None"
| "reconnect_loop (t # ts) n c =
     (if \<not> att_running t then Some (c, StoppedRunning)
      else case att_interval t of
        None \<Rightarrow> Some (c, BackoffStop)
      | Some reconnectInterval \<Rightarrow>
          if (case att_stopped t of None \<Rightarrow> False | Some i \<Rightarrow> i < spinCount reconnectInterval) then Some (c, StoppedRunning)
          else let c1 = call ClientConnect c in
            case att_result t of
              None \<Rightarrow> Some (c1, Reconnected)
            | Some err \<Rightarrow>
                if auth_error err
                then let n1 = n + 1; c2 = fireConnectionEvent False (Some err) c1
                     in if n1 = AuthErrRetries (mc_config c) then Some (c2, AuthRefused)
                        else reconnect_loop ts n1 c2
                else reconnect_loop ts n c1)"

definition externalReconnect ::
  "attempt list \<Rightarrow> ('tls, 'h, 'l) MQTTConnection \<Rightarrow> (('tls, 'h, 'l) MQTTConnection \<times> reconnect_end) option" where
  "externalReconnect ts c = reconnect_loop ts 0 c"

definition onConnectionLost ::
  "attempt list \<Rightarrow> conn_error option \<Rightarrow> ('tls, 'h, 'l) MQTTConnection \<Rightarrow> ('tls, 'h, 'l) MQTTConnection option" where
  "onConnectionLost ts err c =
     (let c1 = fireConnectionEvent False err c
      in if ExternalReconnect (mc_config c1) \<and> \<not> reconnecting c1
         then case externalReconnect ts (c1\<lparr>reconnecting := True\<rparr>) of
                None \<Rightarrow> None
              | Some (c2, _) \<Rightarrow> Some (c2\<lparr>reconnecting := False\<rparr>)
         else Some c1)"

subsection \<open>Connecting and disconnecting\<close>

definition Connect :: "('tls, 'h, 'l) MQTTConnection \<Rightarrow> ('tls, 'h, 'l) MQTTConnection" where
  "Connect c = call ClientConnect (c\<lparr>running := True\<rparr>)"

definition disconnectQuiesce :: int where "disconnectQuiesce = 10000"

text \<open>\<open>isConnected\<close> is what the client answers to \<^verbatim>\<open>IsConnected\<close>.\<close>

definition Disconnect :: "bool \<Rightarrow> ('tls, 'h, 'l) MQTTConnection \<Rightarrow> ('tls, 'h, 'l) MQTTConnection" where
  "Disconnect isConnected c =
     (let c1 = (if running c then call (ClientDisconnect disconnectQuiesce) (c\<lparr>running := False\<rparr>) else c)
      in if isConnected then fireConnectionEvent False None c1 else c1)"

text \<open>The parameters of the exponential backoff; \<open>defaults\<close> are those of the library.\<close>

record backoff_params =
  bo_MaxElapsedTime :: duration
  bo_RandomizationFactor :: rat
  bo_Multiplier :: float64
  bo_InitialInterval :: duration
  bo_MaxInterval :: duration

definition ConnectBackoff :: "backoff_params \<Rightarrow> ('tls, 'h, 'l) MQTTConnection \<Rightarrow> backoff_params" where
  "ConnectBackoff defaults c =
     (let b = defaults\<lparr>bo_MaxElapsedTime := 0, bo_RandomizationFactor := 1 / 4, bo_Multiplier := BackoffMultiplier (mc_config c)\<rparr>;
          b1 = (if MinReconnectInterval (mc_config c) > 0 then b\<lparr>bo_InitialInterval := MinReconnectInterval (mc_config c)\<rparr> else b)
      in if MaxReconnectInterval (mc_config c) > 0 then b1\<lparr>bo_MaxInterval := MaxReconnectInterval (mc_config c)\<rparr> else b1)"

subsection \<open>Frame lemmas\<close>

lemma call_sel [simp]:
  "topics (call x c) = topics c" "subs (call x c) = subs c" "nextSub (call x c) = nextSub c"
  "listeners (call x c) = listeners c" "fired (call x c) = fired c" "mc_config (call x c) = mc_config c"
  "connectionOpen (call x c) = connectionOpen c" "calls (call x c) = calls c @ [x]"
  by (simp_all add: call_def)

lemma fold_call_sel [simp]:
  "topics (fold (\<lambda>t. call (f t)) ts c) = topics c" "subs (fold (\<lambda>t. call (f t)) ts c) = subs c"
  "nextSub (fold (\<lambda>t. call (f t)) ts c) = nextSub c" "connectionOpen (fold (\<lambda>t. call (f t)) ts c) = connectionOpen c"
  "calls (fold (\<lambda>t. call (f t)) ts c) = calls c @ map f ts"
  by (induction ts arbitrary: c) simp_all

lemma fire_sel [simp]:
  "topics (fireConnectionEvent b e c) = topics c" "subs (fireConnectionEvent b e c) = subs c"
  "nextSub (fireConnectionEvent b e c) = nextSub c" "calls (fireConnectionEvent b e c) = calls c"
  "listeners (fireConnectionEvent b e c) = listeners c" "mc_config (fireConnectionEvent b e c) = mc_config c"
  "fired (fireConnectionEvent b e c) = fired c @ map (\<lambda>l. (l, b, e)) (listeners c)"
  by (simp_all add: fireConnectionEvent_def)

text \<open>What a subscription stores and asks the client for.\<close>

lemma subscribe_sel:
  assumes "subscribe u cb q ts c = Inr (c', sid)"
  shows "ts \<noteq> []" "topics c' = Mapping.update sid (nextSub c) (topics c)"
    "subs c' = (subs c)(nextSub c := \<lparr>si_topics = ts, si_callback = cb, si_qos = q, si_disposed = False\<rparr>)"
    "nextSub c' = nextSub c + 1" "connectionOpen c' = connectionOpen c"
  using assms by (auto simp: subscribe_def Let_def split: if_splits)

lemma dispose_sel [simp]:
  "topics (dispose ad a c) = topics c" "nextSub (dispose ad a c) = nextSub c"
  "subs (dispose ad a c) = (subs c)(a := (subs c a)\<lparr>si_disposed := True\<rparr>)"
  "connectionOpen (dispose ad a c) = connectionOpen c"
  by (auto simp: dispose_def Let_def)

lemma resubscribe_sel [simp]:
  "topics (resubscribe a c) = topics c" "subs (resubscribe a c) = subs c" "nextSub (resubscribe a c) = nextSub c"
  "listeners (resubscribe a c) = listeners c" "fired (resubscribe a c) = fired c"
  by (auto simp: resubscribe_def Let_def)

subsection \<open>Invariant of the subscriptions\<close>

text \<open>Stored subscriptions are allocated, live, not empty and stored under one identifier only.\<close>

definition conn_inv :: "('tls, 'h, 'l) MQTTConnection \<Rightarrow> bool" where
  "conn_inv c \<longleftrightarrow>
     (\<forall>sid a. Mapping.lookup (topics c) sid = Some a \<longrightarrow>
        a < nextSub c \<and> \<not> si_disposed (subs c a) \<and> si_topics (subs c a) \<noteq> []) \<and>
     (\<forall>sid sid' a. Mapping.lookup (topics c) sid = Some a \<and> Mapping.lookup (topics c) sid' = Some a \<longrightarrow> sid = sid') \<and>
     finite (Mapping.keys (topics c))"

text \<open>
  The steps of the goroutines that share a connection: subscribing, the two halves of
  unsubscribing, the visit of a subscription after a connect, and changes of the connection's state.
\<close>

inductive conn_step :: "('tls, 'h, 'l) MQTTConnection \<Rightarrow> ('tls, 'h, 'l) MQTTConnection \<Rightarrow> bool" where
  subscribe: "subscribe u cb q ts c = Inr (c', sid) \<Longrightarrow> conn_step c c'"
| remove: "conn_step c (c\<lparr>topics := Mapping.delete sid (topics c)\<rparr>)"
| dispose: "a < nextSub c \<Longrightarrow> a \<notin> ran (Mapping.lookup (topics c)) \<Longrightarrow> conn_step c (dispose ad a c)"
| visit: "conn_step c (resubscribe a c)"
| event: "conn_step c (fireConnectionEvent b e c)"
| status: "conn_step c (c\<lparr>connectionOpen := b\<rparr>)"

lemma conn_step_inv:
  assumes "conn_step c c'" "conn_inv c"
  shows "conn_inv c'"
  using assms
proof cases
  case (subscribe u cb q ts sid)
  note sel = subscribe_sel [OF this]
  have "Mapping.lookup (topics c) s \<noteq> Some (nextSub c)" for s
    using assms(2) by (auto simp: conn_inv_def)
  with assms(2) sel show ?thesis
    by (auto simp: conn_inv_def lookup_mapping_if less_Suc_eq split: if_splits)
next
  case (remove sid)
  with assms(2) show ?thesis
    by (auto simp: conn_inv_def lookup_mapping_if split: if_splits)
next
  case (dispose a ad)
  have "Mapping.lookup (topics c) s \<noteq> Some a" for s
    using dispose(3) by (auto simp: ran_def)
  with assms(2) dispose show ?thesis by (auto simp: conn_inv_def)
qed (use assms in \<open>auto simp: conn_inv_def\<close>)

lemma conn_step_disposed:
  assumes "conn_step c c'" "a < nextSub c" "si_disposed (subs c a)"
  shows "a < nextSub c' \<and> si_disposed (subs c' a)"
  using assms
proof cases
  case (subscribe u cb q ts sid)
  with subscribe_sel [OF subscribe] assms(2,3) show ?thesis by auto
qed (use assms in auto)

lemma conn_steps_disposed:
  assumes "conn_step\<^sup>*\<^sup>* c c'" "a < nextSub c" "si_disposed (subs c a)"
  shows "si_disposed (subs c' a)"
proof -
  have "a < nextSub c' \<and> si_disposed (subs c' a)"
    using assms by (induction rule: rtranclp_induct) (auto dest: conn_step_disposed)
  then show ?thesis by simp
qed

text \<open>\<open>unsubscribe\<close> run without interruption is such a sequence of steps.\<close>

lemma unsubscribe_steps:
  assumes "conn_inv c"
  shows "conn_step\<^sup>*\<^sup>* c (unsubscribe sid ad c)"
proof (cases "Mapping.lookup (topics c) sid")
  case None
  then show ?thesis by (simp add: unsubscribe_def)
next
  case (Some a)
  let ?c = "c\<lparr>topics := Mapping.delete sid (topics c)\<rparr>"
  have "a \<notin> ran (Mapping.lookup (topics ?c))" "a < nextSub ?c"
    using assms Some by (auto simp: conn_inv_def ran_def lookup_mapping_if split: if_splits)
  then have "conn_step ?c (dispose ad a ?c)" by (intro conn_step.dispose)
  moreover have "conn_step c ?c" by (rule conn_step.remove)
  ultimately show ?thesis
    using Some by (auto simp: unsubscribe_def intro: converse_rtranclp_into_rtranclp)
qed

lemma conn_steps_inv: "conn_step\<^sup>*\<^sup>* c c' \<Longrightarrow> conn_inv c \<Longrightarrow> conn_inv c'"
  by (induction rule: rtranclp_induct) (auto intro: conn_step_inv)

subsection \<open>Lemmas on callbacks and reconnecting\<close>

text \<open>The packet that restores a subscription.\<close>

definition restore_call :: "('tls, 'h, 'l) MQTTConnection \<Rightarrow> nat \<Rightarrow> 'h client_call" where
  "restore_call c a = SubscribeMultiple (subFilters (si_qos (subs c a)) (si_topics (subs c a))) (si_callback (subs c a))"

lemma resubscribe_live:
  "\<not> si_disposed (subs c a) \<Longrightarrow> resubscribe a c = call (restore_call c a) c"
  by (simp add: resubscribe_def restore_call_def Let_def)

lemma visit_all:
  assumes "\<forall>sid \<in> set sids. \<exists>a. Mapping.lookup (topics c) sid = Some a \<and> \<not> si_disposed (subs c a)"
  shows "fold (\<lambda>sid c. case Mapping.lookup (topics c) sid of None \<Rightarrow> c | Some a \<Rightarrow> resubscribe a c) sids c
    = fold (\<lambda>sid. call (restore_call c (the (Mapping.lookup (topics c) sid)))) sids c"
  using assms
proof (induction sids arbitrary: c)
  case (Cons sid sids)
  then obtain a where a: "Mapping.lookup (topics c) sid = Some a" "\<not> si_disposed (subs c a)" by auto
  let ?c = "call (restore_call c a) c"
  have "restore_call ?c = restore_call c" by (simp add: restore_call_def fun_eq_iff)
  with Cons.IH [of ?c] Cons.prems a show ?case by (simp add: resubscribe_live)
qed simp

lemma fold_call_frame [simp]:
  "listeners (fold (\<lambda>t. call (f t)) ts c) = listeners c" "fired (fold (\<lambda>t. call (f t)) ts c) = fired c"
  by (induction ts arbitrary: c) simp_all

lemma onConnected_eq:
  assumes "conn_inv c" "is_shuffle sh"
  shows "onConnected sh c = fireConnectionEvent True None
    (fold (\<lambda>sid. call (restore_call c (the (Mapping.lookup (topics c) sid)))) (map_range sh (topics c)) c)"
proof -
  have "\<forall>sid \<in> set (map_range sh (topics c)). \<exists>a. Mapping.lookup (topics c) sid = Some a \<and> \<not> si_disposed (subs c a)"
    using assms by (auto simp: conn_inv_def set_map_range in_keys_lookup)
  from visit_all [OF this] show ?thesis by (simp add: onConnected_def)
qed

text \<open>The refusals among the turns of a loop.\<close>

definition refused :: "attempt \<Rightarrow> bool" where
  "refused t \<longleftrightarrow> (case att_result t of None \<Rightarrow> False | Some e \<Rightarrow> auth_error e)"

lemma reconnect_loop_fired:
  assumes "reconnect_loop ts n c = Some (c', e)" "n < AuthErrRetries (mc_config c)"
  shows "\<exists>errs. fired c' = fired c @ concat (map (\<lambda>err. map (\<lambda>l. (l, False, Some err)) (listeners c)) errs) \<and>
    (\<forall>err \<in> set errs. auth_error err) \<and> n + int (length errs) \<le> AuthErrRetries (mc_config c) \<and>
    (e = AuthRefused \<longleftrightarrow> n + int (length errs) = AuthErrRetries (mc_config c))"
  using assms
proof (induction ts n c rule: reconnect_loop.induct)
  case (2 t ts n c)
  show ?case
  proof (cases "att_running t \<and> (\<exists>d. att_interval t = Some d \<and>
      \<not> (case att_stopped t of None \<Rightarrow> False | Some i \<Rightarrow> i < spinCount d))")
    case False
    with "2.prems" have "c' = c" "e \<in> {StoppedRunning, BackoffStop}"
      by (auto split: if_splits option.splits)
    with "2.prems"(2) show ?thesis by (intro exI [of _ "[]"]) auto
  next
    case True
    then obtain d where d: "att_running t" "att_interval t = Some d"
      "\<not> (case att_stopped t of None \<Rightarrow> False | Some i \<Rightarrow> i < spinCount d)" by blast
    consider "att_result t = None" | err where "att_result t = Some err" "\<not> auth_error err"
      | err where "att_result t = Some err" "auth_error err" by (cases "att_result t") auto
    then show ?thesis
    proof cases
      case 1
      with d "2.prems" show ?thesis by (intro exI [of _ "[]"]) (auto simp: Let_def)
    next
      case (2 err)
      with d "2.prems" have "reconnect_loop ts n (call ClientConnect c) = Some (c', e)" by (simp add: Let_def)
      from "2.IH"(2) [OF _ d(2,3) refl 2(1) 2(2) this] d "2.prems"(2) show ?thesis by simp
    next
      case (3 err)
      let ?c = "fireConnectionEvent False (Some err) (call ClientConnect c)"
      show ?thesis
      proof (cases "n + 1 = AuthErrRetries (mc_config c)")
        case True
        with 3 d "2.prems" have "c' = ?c" "e = AuthRefused" by (auto simp: Let_def)
        with True 3 show ?thesis by (intro exI [of _ "[err]"]) auto
      next
        case False
        with 3 d "2.prems" have loop: "reconnect_loop ts (n + 1) ?c = Some (c', e)" by (simp add: Let_def)
        have "n + 1 < AuthErrRetries (mc_config ?c)" using False "2.prems"(2) by simp
        with "2.IH"(1) [OF _ d(2,3) refl 3(1,2) refl refl _ loop] False d obtain errs where
          "fired c' = fired ?c @ concat (map (\<lambda>err. map (\<lambda>l. (l, False, Some err)) (listeners c)) errs)"
          "\<forall>err \<in> set errs. auth_error err" "n + 1 + int (length errs) \<le> AuthErrRetries (mc_config c)"
          "e = AuthRefused \<longleftrightarrow> n + 1 + int (length errs) = AuthErrRetries (mc_config c)" by auto
        with 3(2) show ?thesis by (intro exI [of _ "err # errs"]) auto
      qed
    qed
  qed
qed simp

lemma reconnect_loop_ends:
  assumes "n < AuthErrRetries (mc_config c)" "AuthErrRetries (mc_config c) \<le> n + int (length (filter refused ts))"
  shows "reconnect_loop ts n c \<noteq> None"
  using assms
proof (induction ts n c rule: reconnect_loop.induct)
  case (2 t ts n c)
  show ?case
  proof (cases "att_result t")
    case None
    then show ?thesis by (auto simp: Let_def split: option.splits)
  next
    case (Some err)
    with "2.prems" "2.IH"(1) [OF _ _ _ refl Some _ refl refl] "2.IH"(2) [OF _ _ _ refl Some]
    show ?thesis
      by (cases "auth_error err") (auto simp: Let_def refused_def split: option.splits)
  qed
qed auto

subsection \<open>Properties of the connection\<close>

text \<open>A connection with one listener and one subscription of one topic, for the witnesses.\<close>

definition sample_config :: "unit Configuration" where
  "sample_config = \<lparr>URL = ''tcp://h'', CleanSession = False, NoOpStore = False, ConnectTimeout = 0, KeepAliveTimeout = 0,
     ConnectRetryInterval = 0, ExternalReconnect = True, AuthErrRetries = 2, BackoffMultiplier = Finite 2,
     MaxReconnectInterval = Minute, MinReconnectInterval = Second, Creds = \<lparr>UserName = '''', Password = ''''\<rparr>,
     WillTopic = '''', WillMessage = [], WillQos = 0, WillRetain = False, TLSConfig = None\<rparr>"

definition empty_conn :: "(unit, nat, nat) MQTTConnection" where
  "empty_conn = \<lparr>mc_config = sample_config, mc_clientID = ''id'', connectionOpen = True, calls = [],
     topics = Mapping.empty, subs = (\<lambda>_. nil_sub), nextSub = 0, listeners = [7], defaultHandler = None, running = True,
     reconnecting = False, fired = []\<rparr>"

definition sample_conn :: "(unit, nat, nat) MQTTConnection" where
  "sample_conn = empty_conn\<lparr>topics := Mapping.update ''t'' 0 Mapping.empty,
     subs := (\<lambda>_. nil_sub)(0 := \<lparr>si_topics = [''t''], si_callback = Some 1, si_qos = 1, si_disposed = False\<rparr>), nextSub := 1\<rparr>"

lemma sample_conn_inv: "conn_inv sample_conn"
  by (auto simp: conn_inv_def sample_conn_def empty_conn_def lookup_mapping_if split: if_splits)

text \<open>
  (C31) A connect restores the session: for every stored subscription exactly one subscribe packet is
  sent, with its topics, quality of service and callback, in whatever order the map is visited; no
  subscription changes, and every listener is then told once that there is a connection.
\<close>

theorem onConnected_restores:
  assumes "conn_inv c" "is_shuffle sh"
  shows "\<exists>sent. calls (onConnected sh c) = calls c @ sent \<and>
    mset sent = image_mset (\<lambda>sid. restore_call c (the (Mapping.lookup (topics c) sid))) (mset_set (Mapping.keys (topics c))) \<and>
    topics (onConnected sh c) = topics c \<and> subs (onConnected sh c) = subs c \<and>
    fired (onConnected sh c) = fired c @ map (\<lambda>l. (l, True, None)) (listeners c)"
proof -
  let ?f = "\<lambda>sid. restore_call c (the (Mapping.lookup (topics c) sid))"
  have "finite (Mapping.keys (topics c))" using assms(1) by (simp add: conn_inv_def)
  then have "mset (map_range sh (topics c)) = mset_set (Mapping.keys (topics c))"
    using set_map_range [OF assms(2)] distinct_map_range [OF assms(2)] by (metis mset_set_set)
  then have "mset (map ?f (map_range sh (topics c))) = image_mset ?f (mset_set (Mapping.keys (topics c)))"
    by (simp only: mset_map)
  with onConnected_eq [OF assms] show ?thesis
    by (intro exI [of _ "map ?f (map_range sh (topics c))"]) simp
qed

theorem onConnected_restores_witness:
  "\<exists>sent. calls (onConnected id sample_conn) = sent \<and> length sent = 1 \<and>
     fired (onConnected id sample_conn) = [(7, True, None)]"
proof -
  obtain sent where s: "calls (onConnected id sample_conn) = calls sample_conn @ sent"
    "mset sent = image_mset (\<lambda>sid. restore_call sample_conn (the (Mapping.lookup (topics sample_conn) sid)))
       (mset_set (Mapping.keys (topics sample_conn)))"
    "fired (onConnected id sample_conn) = fired sample_conn @ map (\<lambda>l. (l, True, None)) (listeners sample_conn)"
    using onConnected_restores [OF sample_conn_inv is_shuffle_id] unfolding id_def by blast
  have "size (mset sent) = 1" using s(2) by (simp add: sample_conn_def)
  with s(1,3) show ?thesis by (simp add: sample_conn_def empty_conn_def)
qed

text \<open>
  (C10) Unsubscribing is final under every interleaving: the subscriptions that are stored are never
  disposed, and once a subscription has been disposed, a range over the map that still holds a reference
  to it sends no subscribe packet for it any more.
\<close>

theorem disposed_not_restored:
  assumes "conn_inv c" "Mapping.lookup (topics c) sid = Some a" "conn_step\<^sup>*\<^sup>* (unsubscribe sid ad c) c'"
  shows "conn_inv c' \<and> resubscribe a c' = c'"
proof -
  have "conn_step\<^sup>*\<^sup>* c c'" using unsubscribe_steps [OF assms(1)] assms(3) by (rule rtranclp_trans)
  then have "conn_inv c'" using assms(1) by (rule conn_steps_inv)
  moreover have "a < nextSub (unsubscribe sid ad c)" "si_disposed (subs (unsubscribe sid ad c) a)"
    using assms(1,2) by (auto simp: conn_inv_def unsubscribe_def)
  then have "si_disposed (subs c' a)" using conn_steps_disposed [OF assms(3)] by blast
  then have "resubscribe a c' = c'" by (simp add: resubscribe_def)
  ultimately show ?thesis by blast
qed

theorem disposed_not_restored_witness:
  "resubscribe 0 (resubscribe 0 (unsubscribe ''t'' True sample_conn)) = resubscribe 0 (unsubscribe ''t'' True sample_conn)"
  by (rule disposed_not_restored [OF sample_conn_inv, of "''t''", THEN conjunct2])
    (auto simp: sample_conn_def intro: conn_step.visit)


definition refusal :: attempt where
  "refusal = \<lparr>att_running = True, att_interval = Some Minute, att_stopped = None, att_result = Some NotAuthorised\<rparr>"


text \<open>
  Between two connects the loop sleeps in steps of five seconds, at least once, for no less than
  the backoff interval rounded down to such steps and never past it, unless it is shorter than a step.
\<close>

lemma spinCount_bounds:
  assumes "0 \<le> d"
  shows "let wait = int (spinCount d) * externalRetrySleep
    in externalRetrySleep \<le> wait \<and> d - externalRetrySleep < wait \<and> wait \<le> max d externalRetrySleep"
proof -
  have s: "0 < externalRetrySleep" by (simp add: externalRetrySleep_def duration_defs)
  show ?thesis
  proof (cases "d < externalRetrySleep")
    case True
    with assms have "spinCount d = 1" by (simp add: spinCount_def)
    with True assms show ?thesis by simp
  next
    case False
    then have pos: "0 < d div externalRetrySleep" using s by (simp add: pos_imp_zdiv_pos_iff)
    then have eq: "int (spinCount d) = d div externalRetrySleep" by (simp add: spinCount_def)
    have "d div externalRetrySleep * externalRetrySleep = d - d mod externalRetrySleep"
      by (simp add: minus_mod_eq_div_mult)
    moreover have "0 \<le> d mod externalRetrySleep" "d mod externalRetrySleep < externalRetrySleep" using s by simp_all
    moreover have "1 * externalRetrySleep \<le> d div externalRetrySleep * externalRetrySleep"
      using pos s by (intro mult_right_mono) auto
    ultimately show ?thesis unfolding eq Let_def by auto
  qed
qed

end
