(* ===== verification/Subscription_Manager.thy ===== *)
theory Subscription_Manager
  imports Connection
begin

text \<open>
  The subscription manager, \<^verbatim>\<open>src/connector/subscription_manager.go\<close>: it counts how often each
  topic is subscribed locally and keeps one subscription per topic on the connection it forwards to.
  The Go interface \<^verbatim>\<open>SubscriptionManager\<close> is the locale \<open>refcounting\<close>, which is interpreted
  on the implementation at the end. The connections live in a store, because the manager refers to
  one of them and may be pointed at another one later.
\<close>

subsection \<open>State and operations\<close>

record ('tls, 'h, 'l) subscriptionManager =
  sm_topics :: "(string, int) mapping"
  sm_conn :: "nat option"
  conns :: "nat \<Rightarrow> ('tls, 'h, 'l) MQTTConnection"

definition NewSubscriptionManager ::
  "(nat \<Rightarrow> ('tls, 'h, 'l) MQTTConnection) \<Rightarrow> ('tls, 'h, 'l) subscriptionManager" where
  "NewSubscriptionManager cs = \<lparr>sm_topics = Mapping.empty, sm_conn = None, conns = cs\<rparr>"

text \<open>A subscription of one topic never panics and needs no fresh identifier.\<close>

definition forward :: "string \<Rightarrow> ('tls, 'h, 'l) MQTTConnection \<Rightarrow> ('tls, 'h, 'l) MQTTConnection" where
  "forward topic c = (case subscribe '''' None QosAtMostOnce [topic] c of Inr (c', _) \<Rightarrow> c' | Inl _ \<Rightarrow> c)"

definition on_conn ::
  "nat \<Rightarrow> (('tls, 'h, 'l) MQTTConnection \<Rightarrow> ('tls, 'h, 'l) MQTTConnection)
   \<Rightarrow> ('tls, 'h, 'l) subscriptionManager \<Rightarrow> ('tls, 'h, 'l) subscriptionManager" where
  "on_conn i f m = m\<lparr>conns := (conns m)(i := f (conns m i))\<rparr>"

definition sm_add0 :: "string \<Rightarrow> ('tls, 'h, 'l) subscriptionManager \<Rightarrow> ('tls, 'h, 'l) subscriptionManager \<times> bool" where
  "sm_add0 topic m =
     (case Mapping.lookup (sm_topics m) topic of
        Some c \<Rightarrow> (m\<lparr>sm_topics := Mapping.update topic (c + 1) (sm_topics m)\<rparr>, False)
      | None \<Rightarrow> (m\<lparr>sm_topics := Mapping.update topic 1 (sm_topics m)\<rparr>, True))"

definition sm_Add :: "string \<Rightarrow> ('tls, 'h, 'l) subscriptionManager \<Rightarrow> ('tls, 'h, 'l) subscriptionManager \<times> bool" where
  "sm_Add topic m =
     (let (m1, new) = sm_add0 topic m
      in if new then case sm_conn m1 of None \<Rightarrow> (m1, False) | Some i \<Rightarrow> (on_conn i (forward topic) m1, True)
         else (m1, False))"

definition sm_remove0 :: "string \<Rightarrow> ('tls, 'h, 'l) subscriptionManager \<Rightarrow> ('tls, 'h, 'l) subscriptionManager \<times> bool" where
  "sm_remove0 topic m =
     (case Mapping.lookup (sm_topics m) topic of
        Some c \<Rightarrow>
          if c > 1 then (m\<lparr>sm_topics := Mapping.update topic (c - 1) (sm_topics m)\<rparr>, False)
          else (m\<lparr>sm_topics := Mapping.delete topic (sm_topics m)\<rparr>, True)
      | None \<Rightarrow> (m, False))"

definition sm_Remove :: "string \<Rightarrow> ('tls, 'h, 'l) subscriptionManager \<Rightarrow> ('tls, 'h, 'l) subscriptionManager \<times> bool" where
  "sm_Remove topic m =
     (let (m1, last) = sm_remove0 topic m
      in if last then case sm_conn m1 of None \<Rightarrow> (m1, False) | Some i \<Rightarrow> (on_conn i (unsubscribe topic True) m1, True)
         else (m1, False))"

text \<open>\<open>sh\<close> is the order in which Go ranges over the map.\<close>

definition copyTopics ::
  "(string list \<Rightarrow> string list) \<Rightarrow> bool \<Rightarrow> ('tls, 'h, 'l) subscriptionManager
   \<Rightarrow> ('tls, 'h, 'l) subscriptionManager \<times> string list" where
  "copyTopics sh clear m =
     ((if clear then m\<lparr>sm_topics := Mapping.empty\<rparr> else m), map_range sh (sm_topics m))"

definition sm_RemoveAll ::
  "(string list \<Rightarrow> string list) \<Rightarrow> ('tls, 'h, 'l) subscriptionManager \<Rightarrow> ('tls, 'h, 'l) subscriptionManager" where
  "sm_RemoveAll sh m =
     (let (m1, ts) = copyTopics sh True m
      in case sm_conn m1 of None \<Rightarrow> m1 | Some i \<Rightarrow> on_conn i (fold (\<lambda>t. unsubscribe t True) ts) m1)"

definition ForwardTo ::
  "(string list \<Rightarrow> string list) \<Rightarrow> nat \<Rightarrow> ('tls, 'h, 'l) subscriptionManager \<Rightarrow> ('tls, 'h, 'l) subscriptionManager" where
  "ForwardTo sh i m =
     (let m1 = m\<lparr>sm_conn := Some i\<rparr>;
          (m2, ts) = copyTopics sh False m1
      in on_conn i (fold forward ts) m2)"

subsection \<open>The interface\<close>

text \<open>
  What a client of the manager sees: a reference count per topic, and an answer that is true exactly
  when the call reached the connection.
\<close>

locale refcounting =
  fixes minv :: "'m \<Rightarrow> bool"
    and cnt :: "'m \<Rightarrow> string \<Rightarrow> nat"
    and attached :: "'m \<Rightarrow> bool"
    and add rem :: "string \<Rightarrow> 'm \<Rightarrow> 'm \<times> bool"
  assumes add_law: "minv m \<Longrightarrow> add t m = (m', r) \<Longrightarrow>
      minv m' \<and> cnt m' = (cnt m)(t := Suc (cnt m t)) \<and> attached m' = attached m \<and> (r \<longleftrightarrow> attached m \<and> cnt m t = 0)"
    and rem_law: "minv m \<Longrightarrow> rem t m = (m', r) \<Longrightarrow>
      minv m' \<and> cnt m' = (cnt m)(t := cnt m t - 1) \<and> attached m' = attached m \<and> (r \<longleftrightarrow> attached m \<and> cnt m t = 1)"
begin

lemma add_rem:
  assumes "minv m" "add t m = (m1, r1)" "rem t m1 = (m2, r2)"
  shows "cnt m2 = cnt m" "r1 = r2"
  using add_law [OF assms(1,2)] rem_law [OF _ assms(3)] by (auto simp: fun_eq_iff)

text \<open>Removing the topics of a list takes each count down by the occurrences of its topic.\<close>

lemma rem_all:
  assumes "minv m"
  shows "minv (fold (\<lambda>t m. fst (rem t m)) ts m) \<and>
    cnt (fold (\<lambda>t m. fst (rem t m)) ts m) = (\<lambda>t. cnt m t - count_list ts t) \<and>
    attached (fold (\<lambda>t m. fst (rem t m)) ts m) = attached m"
  using assms
proof (induction ts arbitrary: m)
  case (Cons t ts)
  obtain m' r where "rem t m = (m', r)" by (cases "rem t m")
  with rem_law [OF Cons.prems this] Cons.IH [of m'] show ?case by (auto simp: fun_eq_iff)
qed simp

end

subsection \<open>Invariant\<close>

definition sm_cnt :: "('tls, 'h, 'l) subscriptionManager \<Rightarrow> string \<Rightarrow> nat" where
  "sm_cnt m t = (case Mapping.lookup (sm_topics m) t of None \<Rightarrow> 0 | Some c \<Rightarrow> nat c)"

text \<open>The topics a connection holds for the manager: those stored with no callback.\<close>

definition held :: "('tls, 'h, 'l) MQTTConnection \<Rightarrow> string set" where
  "held c = {t. \<exists>a. Mapping.lookup (topics c) t = Some a \<and> subs c a =
      \<lparr>si_topics = [t], si_callback = None, si_qos = QosAtMostOnce, si_disposed = False\<rparr>}"

definition sm_inv :: "('tls, 'h, 'l) subscriptionManager \<Rightarrow> bool" where
  "sm_inv m \<longleftrightarrow>
     finite (Mapping.keys (sm_topics m)) \<and>
     (\<forall>t c. Mapping.lookup (sm_topics m) t = Some c \<longrightarrow> 1 \<le> c) \<and>
     (\<forall>i. conn_inv (conns m i)) \<and>
     (\<forall>i. sm_conn m = Some i \<longrightarrow> held (conns m i) = Mapping.keys (sm_topics m))"

lemma forward_sel:
  "topics (forward t c) = Mapping.update t (nextSub c) (topics c)"
  "subs (forward t c) = (subs c)(nextSub c :=
     \<lparr>si_topics = [t], si_callback = None, si_qos = QosAtMostOnce, si_disposed = False\<rparr>)"
  "nextSub (forward t c) = nextSub c + 1"
  by (auto simp: forward_def subscribe_def Let_def)

lemma forward_inv: "conn_inv c \<Longrightarrow> conn_inv (forward t c)"
proof -
  assume "conn_inv c"
  moreover have "conn_step c (forward t c)"
    by (rule conn_step.subscribe [of "''''" None QosAtMostOnce "[t]" _ _ t]) (auto simp: forward_def subscribe_def Let_def)
  ultimately show ?thesis by (blast intro: conn_step_inv)
qed

lemma unsubscribe_inv: "conn_inv c \<Longrightarrow> conn_inv (unsubscribe t ad c)"
  by (blast intro: conn_steps_inv unsubscribe_steps)

lemma conn_inv_fresh: "conn_inv c \<Longrightarrow> Mapping.lookup (topics c) s = Some a \<Longrightarrow> a \<noteq> nextSub c"
  by (auto simp: conn_inv_def)

lemma held_forward:
  assumes "conn_inv c"
  shows "held (forward t c) = insert t (held c)"
  using conn_inv_fresh [OF assms] by (auto simp: held_def forward_sel lookup_mapping_if split: if_splits)

lemma held_unsubscribe:
  assumes "conn_inv c"
  shows "held (unsubscribe t ad c) = held c - {t}"
proof (cases "Mapping.lookup (topics c) t")
  case None
  then show ?thesis by (auto simp: unsubscribe_def held_def)
next
  case (Some a)
  then have "Mapping.lookup (topics c) s = Some b \<Longrightarrow> s \<noteq> t \<Longrightarrow> b \<noteq> a" for s b
    using assms by (auto simp: conn_inv_def)
  with Some show ?thesis
    by (auto simp: unsubscribe_def held_def lookup_mapping_if split: if_splits)
qed

lemma fold_forward:
  assumes "conn_inv c"
  shows "conn_inv (fold forward ts c) \<and> held (fold forward ts c) = set ts \<union> held c"
  using assms by (induction ts arbitrary: c) (auto simp: forward_inv held_forward)

lemma fold_unsubscribe:
  assumes "conn_inv c"
  shows "conn_inv (fold (\<lambda>t. unsubscribe t True) ts c) \<and> held (fold (\<lambda>t. unsubscribe t True) ts c) = held c - set ts"
  using assms by (induction ts arbitrary: c) (auto simp: unsubscribe_inv held_unsubscribe)

lemma on_conn_sel [simp]:
  "sm_topics (on_conn i f m) = sm_topics m" "sm_conn (on_conn i f m) = sm_conn m"
  "conns (on_conn i f m) = (conns m)(i := f (conns m i))"
  by (simp_all add: on_conn_def)

lemma sm_Add_law:
  assumes "sm_inv m" "sm_Add t m = (m', r)"
  shows "sm_inv m' \<and> sm_cnt m' = (sm_cnt m)(t := Suc (sm_cnt m t)) \<and> (sm_conn m' \<noteq> None) = (sm_conn m \<noteq> None) \<and>
    (r \<longleftrightarrow> sm_conn m \<noteq> None \<and> sm_cnt m t = 0)"
proof (cases "Mapping.lookup (sm_topics m) t")
  case None
  with assms show ?thesis
    by (cases "sm_conn m")
      (auto simp: sm_Add_def sm_add0_def sm_inv_def sm_cnt_def fun_eq_iff lookup_mapping_if held_forward forward_inv
        in_keys_lookup split: if_splits)
next
  case (Some c)
  then have "1 \<le> c" "t \<in> Mapping.keys (sm_topics m)" using assms(1) by (auto simp: sm_inv_def in_keys_lookup)
  moreover from this(1) have "0 \<le> c" "\<not> c \<le> 0" "nat (c + 1) = Suc (nat c)" by simp_all
  ultimately show ?thesis
    using Some assms
    by (auto simp: sm_Add_def sm_add0_def sm_inv_def sm_cnt_def fun_eq_iff lookup_mapping_if
        insert_absorb split: if_splits)
qed

lemma sm_Remove_law:
  assumes "sm_inv m" "sm_Remove t m = (m', r)"
  shows "sm_inv m' \<and> sm_cnt m' = (sm_cnt m)(t := sm_cnt m t - 1) \<and> (sm_conn m' \<noteq> None) = (sm_conn m \<noteq> None) \<and>
    (r \<longleftrightarrow> sm_conn m \<noteq> None \<and> sm_cnt m t = 1)"
proof (cases "Mapping.lookup (sm_topics m) t")
  case None
  with assms show ?thesis
    by (auto simp: sm_Remove_def sm_remove0_def sm_cnt_def fun_eq_iff)
next
  case (Some c)
  then have c: "1 \<le> c" "t \<in> Mapping.keys (sm_topics m)" using assms(1) by (auto simp: sm_inv_def in_keys_lookup)
  show ?thesis
  proof (cases "c > 1")
    case True
    with Some c assms show ?thesis
      by (auto simp: sm_Remove_def sm_remove0_def sm_inv_def sm_cnt_def fun_eq_iff lookup_mapping_if
          insert_absorb split: if_splits)
  next
    case False
    with c(1) have "c = 1" by simp
    with Some assms show ?thesis
      by (cases "sm_conn m")
        (auto simp: sm_Remove_def sm_remove0_def sm_inv_def sm_cnt_def fun_eq_iff lookup_mapping_if held_unsubscribe
          unsubscribe_inv split: if_splits)
  qed
qed

interpretation manager: refcounting sm_inv sm_cnt "\<lambda>m. sm_conn m \<noteq> None" sm_Add sm_Remove
  by unfold_locales (use sm_Add_law sm_Remove_law in blast)+

lemma ForwardTo_law:
  assumes "sm_inv m" "held (conns m i) \<subseteq> Mapping.keys (sm_topics m)" "is_shuffle sh"
  shows "sm_inv (ForwardTo sh i m) \<and> sm_cnt (ForwardTo sh i m) = sm_cnt m"
  using assms fold_forward [of "conns m i" "map_range sh (sm_topics m)"]
  by (auto simp: ForwardTo_def copyTopics_def sm_inv_def sm_cnt_def fun_eq_iff set_map_range)

lemma RemoveAll_law:
  assumes "sm_inv m" "is_shuffle sh"
  shows "sm_inv (sm_RemoveAll sh m) \<and> sm_cnt (sm_RemoveAll sh m) = (\<lambda>_. 0)"
  using assms fold_unsubscribe [of "conns m _" "map_range sh (sm_topics m)"]
  by (auto simp: sm_RemoveAll_def copyTopics_def sm_inv_def sm_cnt_def fun_eq_iff set_map_range split: option.splits)

lemma held_calls_forward:
  assumes "connectionOpen c"
  shows "calls (forward t c) = calls c @ [SubscribeMultiple (subFilters QosAtMostOnce [t]) None]"
  using assms by (simp add: forward_def subscribe_def Let_def)

subsection \<open>Properties of the manager\<close>

text \<open>The states a manager can get into.\<close>

inductive sm_step :: "('tls, 'h, 'l) subscriptionManager \<Rightarrow> ('tls, 'h, 'l) subscriptionManager \<Rightarrow> bool" where
  add: "sm_Add t m = (m', r) \<Longrightarrow> sm_step m m'"
| rem: "sm_Remove t m = (m', r) \<Longrightarrow> sm_step m m'"
| removeAll: "is_shuffle sh \<Longrightarrow> sm_step m (sm_RemoveAll sh m)"
| forwardTo: "is_shuffle sh \<Longrightarrow> held (conns m i) = {} \<Longrightarrow> sm_step m (ForwardTo sh i m)"

lemma sm_step_inv:
  assumes "sm_step m m'" "sm_inv m"
  shows "sm_inv m'"
  using assms
proof cases
  case (add t r)
  then show ?thesis using sm_Add_law [OF assms(2)] by blast
next
  case (rem t r)
  then show ?thesis using sm_Remove_law [OF assms(2)] by blast
next
  case (removeAll sh)
  then show ?thesis using RemoveAll_law [OF assms(2)] by blast
next
  case (forwardTo sh i)
  then show ?thesis using ForwardTo_law [OF assms(2)] by blast
qed

lemma sm_steps_inv: "sm_step\<^sup>*\<^sup>* m m' \<Longrightarrow> sm_inv m \<Longrightarrow> sm_inv m'"
  by (induction rule: rtranclp_induct) (auto intro: sm_step_inv)

lemma sm_inv_new: "\<forall>i. conn_inv (cs i) \<Longrightarrow> sm_inv (NewSubscriptionManager cs)"
  by (simp add: sm_inv_def NewSubscriptionManager_def)

text \<open>
  (C5) The connection mirrors the counts: after any operations on a new manager, the connection it
  forwards to holds a subscription without callback for exactly the topics whose count is positive,
  and no stored count is below one.
\<close>

theorem manager_mirrors:
  assumes "\<forall>i. conn_inv (cs i)" "sm_step\<^sup>*\<^sup>* (NewSubscriptionManager cs) m"
  shows "\<forall>i. conn_inv (conns m i) \<and> (sm_conn m = Some i \<longrightarrow> held (conns m i) = {t. 0 < sm_cnt m t})"
proof -
  have inv: "sm_inv m" using sm_steps_inv [OF assms(2)] sm_inv_new [OF assms(1)] by blast
  have "Mapping.keys (sm_topics m) = {t. 0 < sm_cnt m t}"
    using inv by (force simp: sm_inv_def sm_cnt_def in_keys_lookup split: option.splits)
  with inv show ?thesis by (simp add: sm_inv_def)
qed

lemma empty_conn_inv: "conn_inv empty_conn" "held empty_conn = {}"
  by (simp_all add: conn_inv_def held_def empty_conn_def)

theorem manager_mirrors_witness:
  "\<exists>m :: (unit, nat, nat) subscriptionManager. sm_step\<^sup>*\<^sup>* (NewSubscriptionManager (\<lambda>_. empty_conn)) m \<and>
     sm_cnt m ''t'' = 1 \<and> held (conns m 0) = {t. 0 < sm_cnt m t}"
proof -
  let ?m0 = "NewSubscriptionManager (\<lambda>_ :: nat. empty_conn)"
  let ?m1 = "ForwardTo (\<lambda>xs. xs) 0 ?m0"
  obtain m r where m: "sm_Add ''t'' ?m1 = (m, r)" by (cases "sm_Add ''t'' ?m1")
  have "sm_step ?m0 ?m1"
    by (rule sm_step.forwardTo) (simp_all add: NewSubscriptionManager_def empty_conn_inv)
  moreover have "sm_step ?m1 m" using m by (rule sm_step.add)
  ultimately have steps: "sm_step\<^sup>*\<^sup>* ?m0 m" by simp
  have 1: "sm_cnt m ''t'' = 1" "sm_conn m = Some 0"
    using m by (auto simp: sm_Add_def sm_add0_def ForwardTo_def copyTopics_def NewSubscriptionManager_def sm_cnt_def
        lookup_mapping_if)
  from manager_mirrors [OF _ steps] empty_conn_inv have "held (conns m 0) = {t. 0 < sm_cnt m t}"
    using 1(2) by simp
  with steps 1 show ?thesis by blast
qed

text \<open>
  The manager counts: \<open>Add\<close> and \<open>Remove\<close> move the count of their topic and of no
  other, their answer is true exactly when a connection is there and the count went from zero to one or
  back, \<open>ForwardTo\<close> keeps all counts and \<open>RemoveAll\<close> clears them.
\<close>

lemma manager_counts:
  assumes "sm_inv m" "is_shuffle sh"
  shows "(case sm_Add t m of (m', r) \<Rightarrow>
      sm_cnt m' = (sm_cnt m)(t := Suc (sm_cnt m t)) \<and> (r \<longleftrightarrow> sm_conn m \<noteq> None \<and> sm_cnt m t = 0)) \<and>
    (case sm_Remove t m of (m', r) \<Rightarrow>
      sm_cnt m' = (sm_cnt m)(t := sm_cnt m t - 1) \<and> (r \<longleftrightarrow> sm_conn m \<noteq> None \<and> sm_cnt m t = 1)) \<and>
    sm_cnt (sm_RemoveAll sh m) = (\<lambda>_. 0) \<and> sm_cnt (ForwardTo sh i m) = sm_cnt m"
proof -
  have "sm_cnt (ForwardTo sh i m) = sm_cnt m"
    by (auto simp: ForwardTo_def copyTopics_def sm_cnt_def fun_eq_iff)
  moreover obtain m1 r1 where a: "sm_Add t m = (m1, r1)" by (cases "sm_Add t m")
  moreover obtain m2 r2 where r: "sm_Remove t m = (m2, r2)" by (cases "sm_Remove t m")
  moreover note manager.add_law [OF assms(1) a] manager.rem_law [OF assms(1) r] RemoveAll_law [OF assms]
  ultimately show ?thesis by (simp only: prod.case)
qed

end
