(* ===== verification/Manager_Steps.thy ===== *)
theory Manager_Steps
  imports Subscription_Manager Transitions
begin

text \<open>
  The subscription manager under concurrent calls, \<^verbatim>\<open>src/connector/subscription_manager.go\<close>. The log handler calls
  \<^verbatim>\<open>Add\<close> and \<^verbatim>\<open>Remove\<close>, one after the other, while a launcher that starts calls \<^verbatim>\<open>ForwardTo\<close>. The mutex
  covers the counts only: the load of the connection and the call on it follow outside of it, so the calls interleave at
  these points. Each step below is one lock section, one atomic access of the connection or one call on a connection.
  \<^verbatim>\<open>RemoveAll\<close>, which the program does not call, is left out here.
\<close>

subsection \<open>State and steps\<close>

text \<open>Where the call of the log handler and that of the launcher are; a connection is its index in the store.\<close>

datatype sm_call = AddLoading string | AddSubscribing string nat | RemoveLoading string | RemoveUnsubscribing string nat

datatype sm_forward = Copying nat | Forwarding nat "string list"

text \<open>
  \<open>ms_next\<close> is the index of the next connection. \<open>ms_late\<close> is no state of the program: it records the topics whose last
  use was removed while the current connection had still to subscribe them.
\<close>

record ('tls, 'h, 'l) manager_sys =
  ms_manager :: "('tls, 'h, 'l) subscriptionManager"
  ms_call :: "sm_call option"
  ms_forward :: "sm_forward option"
  ms_next :: nat
  ms_late :: "string set"

definition new_manager_sys :: "(nat \<Rightarrow> ('tls, 'h, 'l) MQTTConnection) \<Rightarrow> ('tls, 'h, 'l) manager_sys" where
  "new_manager_sys cs = \<lparr>ms_manager = NewSubscriptionManager cs, ms_call = None, ms_forward = None, ms_next = 0, ms_late = {}\<rparr>"

datatype ('tls, 'h, 'l) sm_action =
  AddCount string
| RemoveCount string
| CallLoad
| CallApply
| ForwardStore "('tls, 'h, 'l) MQTTConnection"
| ForwardCopy "string list"
| ForwardNext

fun pending_forwards :: "sm_forward option \<Rightarrow> string set" where
  "pending_forwards (Some (Forwarding i ts)) = set ts"
| "pending_forwards _ = {}"

definition add_count :: "string \<Rightarrow> ('tls, 'h, 'l) manager_sys \<Rightarrow> ('tls, 'h, 'l) manager_sys option" where
  "add_count t s =
     (if ms_call s \<noteq> None then None
      else case sm_add0 t (ms_manager s) of
        (m, new) \<Rightarrow> Some (s\<lparr>ms_manager := m, ms_call := (if new then Some (AddLoading t) else None)\<rparr>))"

definition remove_count :: "string \<Rightarrow> ('tls, 'h, 'l) manager_sys \<Rightarrow> ('tls, 'h, 'l) manager_sys option" where
  "remove_count t s =
     (if ms_call s \<noteq> None then None
      else case sm_remove0 t (ms_manager s) of
        (m, gone) \<Rightarrow> Some (s\<lparr>ms_manager := m, ms_call := (if gone then Some (RemoveLoading t) else None),
          ms_late := (if gone \<and> t \<in> pending_forwards (ms_forward s) then insert t (ms_late s) else ms_late s)\<rparr>))"

definition call_load :: "('tls, 'h, 'l) manager_sys \<Rightarrow> ('tls, 'h, 'l) manager_sys option" where
  "call_load s =
     (case ms_call s of
        Some (AddLoading t) \<Rightarrow> Some (s\<lparr>ms_call := map_option (AddSubscribing t) (sm_conn (ms_manager s))\<rparr>)
      | Some (RemoveLoading t) \<Rightarrow> Some (s\<lparr>ms_call := map_option (RemoveUnsubscribing t) (sm_conn (ms_manager s))\<rparr>)
      | _ \<Rightarrow> None)"

definition call_apply :: "('tls, 'h, 'l) manager_sys \<Rightarrow> ('tls, 'h, 'l) manager_sys option" where
  "call_apply s =
     (case ms_call s of
        Some (AddSubscribing t i) \<Rightarrow> Some (s\<lparr>ms_manager := on_conn i (forward t) (ms_manager s), ms_call := None\<rparr>)
      | Some (RemoveUnsubscribing t i) \<Rightarrow>
          Some (s\<lparr>ms_manager := on_conn i (unsubscribe t True) (ms_manager s), ms_call := None\<rparr>)
      | _ \<Rightarrow> None)"

text \<open>\<^verbatim>\<open>ForwardTo\<close> is given a connection that has just been created.\<close>

definition forward_store ::
  "('tls, 'h, 'l) MQTTConnection \<Rightarrow> ('tls, 'h, 'l) manager_sys \<Rightarrow> ('tls, 'h, 'l) manager_sys option" where
  "forward_store c s =
     (if ms_forward s \<noteq> None \<or> \<not> Mapping.is_empty (topics c) then None
      else let i = ms_next s; m = ms_manager s
           in Some (s\<lparr>ms_manager := m\<lparr>conns := (conns m)(i := c), sm_conn := Some i\<rparr>, ms_forward := Some (Copying i),
                ms_next := i + 1, ms_late := {}\<rparr>))"

text \<open>The order in which the range over the map meets the topics is an argument.\<close>

definition forward_copy :: "string list \<Rightarrow> ('tls, 'h, 'l) manager_sys \<Rightarrow> ('tls, 'h, 'l) manager_sys option" where
  "forward_copy order s =
     (case ms_forward s of
        Some (Copying i) \<Rightarrow>
          if distinct order \<and> set order = Mapping.keys (sm_topics (ms_manager s))
          then case copyTopics (\<lambda>_. order) False (ms_manager s) of
                 (m, ts) \<Rightarrow> Some (s\<lparr>ms_manager := m, ms_forward := Some (Forwarding i ts)\<rparr>)
          else None
      | _ \<Rightarrow> None)"

definition forward_next :: "('tls, 'h, 'l) manager_sys \<Rightarrow> ('tls, 'h, 'l) manager_sys option" where
  "forward_next s =
     (case ms_forward s of
        Some (Forwarding i []) \<Rightarrow> Some (s\<lparr>ms_forward := None\<rparr>)
      | Some (Forwarding i (t # ts)) \<Rightarrow>
          Some (s\<lparr>ms_manager := on_conn i (forward t) (ms_manager s), ms_forward := Some (Forwarding i ts)\<rparr>)
      | _ \<Rightarrow> None)"

fun manager_step ::
  "('tls, 'h, 'l) sm_action \<Rightarrow> ('tls, 'h, 'l) manager_sys \<Rightarrow> ('tls, 'h, 'l) manager_sys option" where
  "manager_step (AddCount t) s = add_count t s"
| "manager_step (RemoveCount t) s = remove_count t s"
| "manager_step CallLoad s = call_load s"
| "manager_step CallApply s = call_apply s"
| "manager_step (ForwardStore c) s = forward_store c s"
| "manager_step (ForwardCopy order) s = forward_copy order s"
| "manager_step ForwardNext s = forward_next s"

abbreviation manager_run ::
  "('tls, 'h, 'l) sm_action list \<Rightarrow> ('tls, 'h, 'l) manager_sys \<Rightarrow> ('tls, 'h, 'l) manager_sys option" where
  "manager_run \<equiv> run_steps (\<lambda>_. False) manager_step"

lemmas manager_step_defs = new_manager_sys_def NewSubscriptionManager_def add_count_def remove_count_def sm_add0_def sm_remove0_def
  call_load_def call_apply_def forward_store_def forward_copy_def forward_next_def copyTopics_def map_range_def on_conn_def
  lookup_mapping_if

subsection \<open>Invariant\<close>

abbreviation counted :: "('tls, 'h, 'l) manager_sys \<Rightarrow> string set" where
  "counted s \<equiv> Mapping.keys (sm_topics (ms_manager s))"

text \<open>The topics the current connection \<open>i\<close> is still going to be given, and those it is still going to lose.\<close>

fun call_coming :: "nat \<Rightarrow> sm_call option \<Rightarrow> string set" where
  "call_coming i (Some (AddLoading t)) = {t}"
| "call_coming i (Some (AddSubscribing t j)) = (if j = i then {t} else {})"
| "call_coming i _ = {}"

fun forward_coming :: "string set \<Rightarrow> sm_forward option \<Rightarrow> string set" where
  "forward_coming ts (Some (Copying i)) = ts"
| "forward_coming ts f = pending_forwards f"

fun going :: "nat \<Rightarrow> sm_call option \<Rightarrow> string set" where
  "going i (Some (RemoveLoading t)) = {t}"
| "going i (Some (RemoveUnsubscribing t j)) = (if j = i then {t} else {})"
| "going i _ = {}"

text \<open>The topic of a call is counted while it is added and not counted while it is removed.\<close>

fun call_ok :: "string set \<Rightarrow> nat \<Rightarrow> sm_call option \<Rightarrow> bool" where
  "call_ok ts n None = True"
| "call_ok ts n (Some (AddLoading t)) = (t \<in> ts)"
| "call_ok ts n (Some (AddSubscribing t i)) = (t \<in> ts \<and> i < n)"
| "call_ok ts n (Some (RemoveLoading t)) = (t \<notin> ts)"
| "call_ok ts n (Some (RemoveUnsubscribing t i)) = (t \<notin> ts \<and> i < n)"

fun forward_ok :: "nat option \<Rightarrow> sm_forward option \<Rightarrow> bool" where
  "forward_ok cur None = True"
| "forward_ok cur (Some (Copying i)) = (cur = Some i)"
| "forward_ok cur (Some (Forwarding i ts)) = (cur = Some i)"

definition mirrors :: "string set \<Rightarrow> string set \<Rightarrow> string set \<Rightarrow> nat \<Rightarrow> sm_call option \<Rightarrow> sm_forward option \<Rightarrow> bool" where
  "mirrors ts late hs i cl fwd \<longleftrightarrow>
     ts \<subseteq> hs \<union> call_coming i cl \<union> forward_coming ts fwd \<and> hs \<subseteq> ts \<union> late \<union> going i cl \<and> pending_forwards fwd \<subseteq> ts \<union> late"

definition manager_sys_inv :: "('tls, 'h, 'l) manager_sys \<Rightarrow> bool" where
  "manager_sys_inv s \<longleftrightarrow>
     finite (counted s) \<and> (\<forall>t c. Mapping.lookup (sm_topics (ms_manager s)) t = Some c \<longrightarrow> 1 \<le> c) \<and>
     (\<forall>i. conn_inv (conns (ms_manager s) i)) \<and>
     call_ok (counted s) (ms_next s) (ms_call s) \<and>
     forward_ok (sm_conn (ms_manager s)) (ms_forward s) \<and>
     (\<forall>i. sm_conn (ms_manager s) = Some i \<longrightarrow> i < ms_next s \<and>
        mirrors (counted s) (ms_late s) (held (conns (ms_manager s) i)) i (ms_call s) (ms_forward s))"

text \<open>What the steps do to the sets.\<close>

lemma mirrors_add: "mirrors ts late hs i None f \<Longrightarrow> mirrors (insert t ts) late hs i (Some (AddLoading t)) f"
  by (cases f rule: pending_forwards.cases) (auto simp: mirrors_def)

lemma mirrors_remove:
  "mirrors ts late hs i None f \<Longrightarrow> t \<in> pending_forwards f \<Longrightarrow> mirrors (ts - {t}) (insert t late) hs i (Some (RemoveLoading t)) f"
  "mirrors ts late hs i None f \<Longrightarrow> t \<notin> pending_forwards f \<Longrightarrow> mirrors (ts - {t}) late hs i (Some (RemoveLoading t)) f"
  by (cases f rule: pending_forwards.cases; auto simp: mirrors_def)+

lemma mirrors_added: "mirrors ts late hs i (Some (AddSubscribing t i)) f \<Longrightarrow> t \<in> ts \<Longrightarrow> mirrors ts late (insert t hs) i None f"
  by (cases f rule: pending_forwards.cases) (auto simp: mirrors_def)

lemma mirrors_removed: "mirrors ts late hs i (Some (RemoveUnsubscribing t i)) f \<Longrightarrow> t \<notin> ts \<Longrightarrow> mirrors ts late (hs - {t}) i None f"
  by (cases f rule: pending_forwards.cases) (auto simp: mirrors_def)

lemma mirrors_forwarded:
  "mirrors ts late hs i cl (Some (Forwarding i (t # rest))) \<Longrightarrow> mirrors ts late (insert t hs) i cl (Some (Forwarding i rest))"
  by (auto simp: mirrors_def)

lemma mirrors_stored:
  assumes "call_ok ts n cl"
  shows "mirrors ts {} {} n cl (Some (Copying n))"
  by (simp add: mirrors_def)

lemma mirrors_elsewhere:
  "j \<noteq> i \<Longrightarrow> mirrors ts late hs i (Some (AddSubscribing t j)) f \<longleftrightarrow> mirrors ts late hs i None f"
  "j \<noteq> i \<Longrightarrow> mirrors ts late hs i (Some (RemoveUnsubscribing t j)) f \<longleftrightarrow> mirrors ts late hs i None f"
  by (simp_all add: mirrors_def)

lemma mirrors_loaded:
  "mirrors ts late hs i (Some (AddSubscribing t i)) f \<longleftrightarrow> mirrors ts late hs i (Some (AddLoading t)) f"
  "mirrors ts late hs i (Some (RemoveUnsubscribing t i)) f \<longleftrightarrow> mirrors ts late hs i (Some (RemoveLoading t)) f"
  by (simp_all add: mirrors_def)

text \<open>The steps keep the invariant.\<close>

lemma add_count_inv:
  assumes "add_count t s = Some s'" "manager_sys_inv s"
  shows "manager_sys_inv s'"
proof (cases "Mapping.lookup (sm_topics (ms_manager s)) t")
  case None
  with assms show ?thesis
    by (auto simp: add_count_def sm_add0_def manager_sys_inv_def lookup_mapping_if mirrors_add split: if_splits)
next
  case (Some c)
  then have "t \<in> counted s" "0 \<le> c" using assms(2) by (fastforce simp: in_keys_lookup manager_sys_inv_def)+
  with Some assms show ?thesis
    by (auto simp: add_count_def sm_add0_def manager_sys_inv_def lookup_mapping_if insert_absorb split: if_splits)
qed

lemma remove_count_inv:
  assumes "remove_count t s = Some s'" "manager_sys_inv s"
  shows "manager_sys_inv s'"
proof (cases "Mapping.lookup (sm_topics (ms_manager s)) t")
  case None
  with assms show ?thesis by (auto simp: remove_count_def sm_remove0_def manager_sys_inv_def split: if_splits)
next
  case (Some c)
  then have t: "t \<in> counted s" by (simp add: in_keys_lookup)
  have idle: "ms_call s = None" using assms(1) by (simp add: remove_count_def split: if_splits)
  show ?thesis
  proof (cases "c > 1")
    case True
    with Some t idle assms show ?thesis
      by (auto simp: remove_count_def sm_remove0_def manager_sys_inv_def lookup_mapping_if insert_absorb split: if_splits)
  next
    case False
    with Some idle assms(1) have s': "s' = s\<lparr>ms_manager := (ms_manager s)\<lparr>sm_topics := Mapping.delete t (sm_topics (ms_manager s))\<rparr>,
        ms_call := Some (RemoveLoading t), ms_late := (if t \<in> pending_forwards (ms_forward s) then insert t (ms_late s) else ms_late s)\<rparr>"
      by (simp add: remove_count_def sm_remove0_def)
    from assms(2) idle show ?thesis
      unfolding s' manager_sys_inv_def by (auto simp: lookup_mapping_if mirrors_remove split: if_splits)
  qed
qed

lemma call_load_inv:
  assumes "call_load s = Some s'" "manager_sys_inv s"
  shows "manager_sys_inv s'"
proof (cases "sm_conn (ms_manager s)")
  case None
  with assms show ?thesis by (auto simp: call_load_def manager_sys_inv_def split: option.splits sm_call.splits)
next
  case (Some i)
  with assms show ?thesis
    by (auto simp: call_load_def manager_sys_inv_def mirrors_loaded split: option.splits sm_call.splits)
qed

lemma call_apply_inv:
  assumes "call_apply s = Some s'" "manager_sys_inv s"
  shows "manager_sys_inv s'"
proof -
  consider t i where "ms_call s = Some (AddSubscribing t i)" | t i where "ms_call s = Some (RemoveUnsubscribing t i)"
    using assms(1) by (auto simp: call_apply_def split: option.splits sm_call.splits)
  then show ?thesis
  proof cases
    case (1 t i)
    with assms show ?thesis
      by (cases "sm_conn (ms_manager s) = Some i")
        (auto simp: call_apply_def manager_sys_inv_def mirrors_elsewhere held_forward forward_inv intro: mirrors_added)
  next
    case (2 t i)
    with assms show ?thesis
      by (cases "sm_conn (ms_manager s) = Some i")
        (auto simp: call_apply_def manager_sys_inv_def mirrors_elsewhere held_unsubscribe unsubscribe_inv intro: mirrors_removed)
  qed
qed

lemma forward_store_inv:
  assumes "forward_store c s = Some s'" "manager_sys_inv s"
  shows "manager_sys_inv s'"
proof -
  have c: "Mapping.is_empty (topics c)" "ms_forward s = None" using assms(1) by (auto simp: forward_store_def split: if_splits)
  then have "x \<notin> Mapping.keys (topics c)" for x by (simp add: Mapping.is_empty_def)
  then have "conn_inv c" "held c = {}" using c(1) by (simp_all add: Mapping.is_empty_def conn_inv_def held_def in_keys_lookup)
  moreover have "call_ok ts n cl \<Longrightarrow> call_ok ts (Suc n) cl" for ts n cl by (cases "(ts, n, cl)" rule: call_ok.cases) auto
  ultimately show ?thesis
    using assms c by (auto simp: forward_store_def manager_sys_inv_def mirrors_stored Let_def)
qed

lemma forward_copy_inv:
  assumes "forward_copy order s = Some s'" "manager_sys_inv s"
  shows "manager_sys_inv s'"
proof -
  obtain i where i: "ms_forward s = Some (Copying i)" "set order = counted s" "s' = s\<lparr>ms_forward := Some (Forwarding i order)\<rparr>"
    using assms(1) by (auto simp: forward_copy_def copyTopics_def map_range_def split: option.splits sm_forward.splits if_splits)
  with assms(2) show ?thesis by (auto simp: manager_sys_inv_def mirrors_def)
qed

lemma forward_next_inv:
  assumes "forward_next s = Some s'" "manager_sys_inv s"
  shows "manager_sys_inv s'"
proof -
  consider i where "ms_forward s = Some (Forwarding i [])" | i t ts where "ms_forward s = Some (Forwarding i (t # ts))"
    using assms(1) by (auto simp: forward_next_def split: option.splits sm_forward.splits list.splits)
  then show ?thesis
  proof cases
    case (1 i)
    with assms show ?thesis by (auto simp: forward_next_def manager_sys_inv_def mirrors_def)
  next
    case (2 i t ts)
    with assms show ?thesis
      by (auto simp: forward_next_def manager_sys_inv_def held_forward forward_inv intro: mirrors_forwarded)
  qed
qed

lemmas manager_steps_inv = add_count_inv remove_count_inv call_load_inv call_apply_inv forward_store_inv forward_copy_inv forward_next_inv

interpretation manager_sys: stepping "\<lambda>_. False" manager_step manager_sys_inv
proof
  fix s s' :: "('tls, 'h, 'l) manager_sys" and a
  assume "manager_sys_inv s" "manager_step a s = Some s'"
  then show "manager_sys_inv s'" by (cases a) (auto intro: manager_steps_inv)
qed

text \<open>
  The counts are those of a counter per topic that sees the lock sections of \<^verbatim>\<open>Add\<close> and \<^verbatim>\<open>Remove\<close> one after the other
  and nothing else.
\<close>

fun count_after :: "('tls, 'h, 'l) sm_action list \<Rightarrow> (string \<Rightarrow> nat) \<Rightarrow> string \<Rightarrow> nat" where
  "count_after [] n = n"
| "count_after (AddCount t # as) n = count_after as (n(t := Suc (n t)))"
| "count_after (RemoveCount t # as) n = count_after as (n(t := n t - 1))"
| "count_after (a # as) n = count_after as n"

definition counter_step :: "('tls, 'h, 'l) sm_action \<Rightarrow> (string \<Rightarrow> nat) \<Rightarrow> (string \<Rightarrow> nat) \<Rightarrow> bool" where
  "counter_step a n n' \<longleftrightarrow> n' = count_after [a] n"

lemma counter_run: "spec_run counter_step as n n' \<longleftrightarrow> n' = count_after as n"
proof (induction as arbitrary: n)
  case (Cons a as)
  have "count_after (a # as) n = count_after as (count_after [a] n)" by (cases a) simp_all
  with Cons.IH show ?case by (simp add: counter_step_def)
qed simp

lemma sm_cnt_add0: "manager_sys_inv s \<Longrightarrow> sm_cnt (fst (sm_add0 t (ms_manager s))) = (sm_cnt (ms_manager s))(t := Suc (sm_cnt (ms_manager s) t))"
  by (fastforce simp: sm_add0_def sm_cnt_def manager_sys_inv_def fun_eq_iff lookup_mapping_if Suc_nat_eq_nat_zadd1 add.commute
      split: option.splits)

lemma sm_cnt_remove0: "manager_sys_inv s \<Longrightarrow> sm_cnt (fst (sm_remove0 t (ms_manager s))) = (sm_cnt (ms_manager s))(t := sm_cnt (ms_manager s) t - 1)"
  by (auto simp: sm_remove0_def sm_cnt_def manager_sys_inv_def fun_eq_iff lookup_mapping_if split: option.splits)

lemma manager_step_counter:
  assumes "manager_sys_inv s" "manager_step a s = Some s'"
  shows "counter_step a (sm_cnt (ms_manager s)) (sm_cnt (ms_manager s'))"
proof (cases a)
  case (AddCount t)
  with assms sm_cnt_add0 [OF assms(1), of t] show ?thesis
    by (auto simp: counter_step_def add_count_def split: if_splits prod.splits)
next
  case (RemoveCount t)
  with assms sm_cnt_remove0 [OF assms(1), of t] show ?thesis
    by (auto simp: counter_step_def remove_count_def split: if_splits prod.splits)
qed (use assms(2) in \<open>auto simp: counter_step_def sm_cnt_def call_load_def call_apply_def forward_store_def forward_copy_def
  forward_next_def copyTopics_def Let_def split: option.splits sm_call.splits sm_forward.splits list.splits if_splits\<close>)

interpretation counting: simulation "\<lambda>_. False" manager_step manager_sys_inv "\<lambda>s. sm_cnt (ms_manager s)" counter_step
  by unfold_locales (rule manager_step_counter)

lemma new_manager_sys_inv: "\<forall>i. conn_inv (cs i) \<Longrightarrow> manager_sys_inv (new_manager_sys cs)"
  by (simp add: manager_sys_inv_def new_manager_sys_def NewSubscriptionManager_def)

subsection \<open>Uninterrupted calls\<close>

text \<open>
  A call whose steps no other call interrupts does what the operation of theory \<open>Subscription_Manager\<close> does: the two models
  of the manager agree where both apply.
\<close>

lemma uninterrupted_Add:
  assumes "ms_call s = None"
  shows "\<exists>as s'. manager_run (AddCount t # as) s = Some s' \<and> ms_manager s' = fst (sm_Add t (ms_manager s)) \<and>
    ms_call s' = None \<and> ms_forward s' = ms_forward s"
proof (cases "snd (sm_add0 t (ms_manager s))")
  case False
  then obtain m where "sm_add0 t (ms_manager s) = (m, False)" by (metis prod.collapse)
  with assms show ?thesis by (intro exI [of _ "[]"]) (simp add: add_count_def sm_Add_def)
next
  case True
  then obtain m where m: "sm_add0 t (ms_manager s) = (m, True)" by (metis prod.collapse)
  show ?thesis
  proof (cases "sm_conn m")
    case None
    with assms m show ?thesis
      by (intro exI [of _ "[CallLoad]"]) (simp add: add_count_def call_load_def sm_Add_def)
  next
    case (Some i)
    with assms m show ?thesis
      by (intro exI [of _ "[CallLoad, CallApply]"]) (simp add: add_count_def call_load_def call_apply_def sm_Add_def)
  qed
qed

lemma uninterrupted_Remove:
  assumes "ms_call s = None"
  shows "\<exists>as s'. manager_run (RemoveCount t # as) s = Some s' \<and> ms_manager s' = fst (sm_Remove t (ms_manager s)) \<and>
    ms_call s' = None \<and> ms_forward s' = ms_forward s"
proof (cases "snd (sm_remove0 t (ms_manager s))")
  case False
  then obtain m where "sm_remove0 t (ms_manager s) = (m, False)" by (metis prod.collapse)
  with assms show ?thesis by (intro exI [of _ "[]"]) (simp add: remove_count_def sm_Remove_def)
next
  case True
  then obtain m where m: "sm_remove0 t (ms_manager s) = (m, True)" by (metis prod.collapse)
  show ?thesis
  proof (cases "sm_conn m")
    case None
    with assms m show ?thesis
      by (intro exI [of _ "[CallLoad]"]) (simp add: remove_count_def call_load_def sm_Remove_def)
  next
    case (Some i)
    with assms m show ?thesis
      by (intro exI [of _ "[CallLoad, CallApply]"]) (simp add: remove_count_def call_load_def call_apply_def sm_Remove_def)
  qed
qed

lemma forward_rest:
  assumes "ms_forward s = Some (Forwarding i ts)"
  shows "\<exists>as s'. manager_run as s = Some s' \<and> ms_manager s' = on_conn i (fold forward ts) (ms_manager s) \<and>
    ms_forward s' = None \<and> ms_call s' = ms_call s"
  using assms
proof (induction ts arbitrary: s)
  case Nil
  then show ?case by (intro exI [of _ "[ForwardNext]"]) (simp add: forward_next_def on_conn_def)
next
  case (Cons t ts)
  let ?s = "s\<lparr>ms_manager := on_conn i (forward t) (ms_manager s), ms_forward := Some (Forwarding i ts)\<rparr>"
  obtain as s' where "manager_run as ?s = Some s'" "ms_manager s' = on_conn i (fold forward ts) (ms_manager ?s)"
      "ms_forward s' = None" "ms_call s' = ms_call ?s"
    using Cons.IH [of ?s] by auto
  with Cons.prems show ?case
    by (intro exI [of _ "ForwardNext # as"] exI [of _ s']) (simp add: forward_next_def on_conn_def)
qed

lemma uninterrupted_ForwardTo:
  assumes "ms_forward s = None" "Mapping.is_empty (topics c)" "manager_sys_inv s" "is_shuffle sh"
  shows "\<exists>as s'. manager_run (ForwardStore c # as) s = Some s' \<and> ms_forward s' = None \<and> ms_call s' = ms_call s \<and>
    ms_manager s' = ForwardTo sh (ms_next s) ((ms_manager s)\<lparr>conns := (conns (ms_manager s))(ms_next s := c)\<rparr>)"
proof -
  let ?i = "ms_next s" and ?order = "map_range sh (sm_topics (ms_manager s))"
  let ?m = "(ms_manager s)\<lparr>conns := (conns (ms_manager s))(?i := c), sm_conn := Some ?i\<rparr>"
  let ?s1 = "s\<lparr>ms_manager := ?m, ms_forward := Some (Copying ?i), ms_next := ?i + 1, ms_late := {}\<rparr>"
  let ?s2 = "?s1\<lparr>ms_forward := Some (Forwarding ?i ?order)\<rparr>"
  have fin: "finite (counted s)" using assms(3) by (simp add: manager_sys_inv_def)
  have "mset ?order = mset (Mapping.ordered_keys (sm_topics (ms_manager s)))"
    using assms(4) by (simp add: is_shuffle_def map_range_def)
  then have "distinct ?order" using mset_eq_imp_distinct_iff [of ?order] by (simp add: Mapping.ordered_keys_def)
  moreover have "set ?order = counted s" using fin assms(4) by (simp add: set_map_range)
  ultimately have copy: "forward_copy ?order ?s1 = Some ?s2"
    by (simp add: forward_copy_def copyTopics_def map_range_def)
  obtain as s' where rest: "manager_run as ?s2 = Some s'" "ms_manager s' = on_conn ?i (fold forward ?order) (ms_manager ?s2)"
      "ms_forward s' = None" "ms_call s' = ms_call ?s2"
    using forward_rest [of ?s2] by auto
  have "forward_store c s = Some ?s1" using assms(1,2) by (simp add: forward_store_def Let_def)
  with copy rest show ?thesis
    by (intro exI [of _ "ForwardCopy ?order # as"] exI [of _ s']) (simp add: ForwardTo_def copyTopics_def on_conn_def)
qed

subsection \<open>Properties\<close>

text \<open>
  (C16) The manager under every interleaving of the log handler with launchers that start: the counts are those of a counter
  per topic to which the calls of \<^verbatim>\<open>Add\<close> and \<^verbatim>\<open>Remove\<close> came one after the other. Whenever no call is under way, the
  connection it forwards to holds a subscription for every topic that is in use, and any other topic it holds is one whose
  last use was removed while the connection had still to subscribe it. Without such an overlap it holds exactly the
  topics in use.
\<close>

theorem manager_interleaved:
  assumes "\<forall>i. conn_inv (cs i)" "manager_run as (new_manager_sys cs) = Some s"
    and "ms_call s = None" "ms_forward s = None" "sm_conn (ms_manager s) = Some i"
  shows "sm_cnt (ms_manager s) = count_after as (\<lambda>_. 0) \<and>
    {t. 0 < count_after as (\<lambda>_. 0) t} \<subseteq> held (conns (ms_manager s) i) \<and>
    held (conns (ms_manager s) i) \<subseteq> {t. 0 < count_after as (\<lambda>_. 0) t} \<union> ms_late s"
proof -
  have "sm_cnt (ms_manager (new_manager_sys cs)) = (\<lambda>_. 0)"
    by (simp add: new_manager_sys_def NewSubscriptionManager_def sm_cnt_def fun_eq_iff)
  then have cnt: "sm_cnt (ms_manager s) = count_after as (\<lambda>_. 0)"
    using counting.run_spec [OF assms(2) new_manager_sys_inv [OF assms(1)]] by (simp add: counter_run)
  have inv: "manager_sys_inv s" using assms(2) new_manager_sys_inv [OF assms(1)] by (rule manager_sys.run_inv)
  then have "counted s = {t. 0 < sm_cnt (ms_manager s) t}"
    by (force simp: manager_sys_inv_def sm_cnt_def in_keys_lookup split: option.splits)
  with inv assms(3-5) show ?thesis by (simp add: cnt manager_sys_inv_def mirrors_def)
qed

lemma empty_conn_topics: "Mapping.is_empty (topics empty_conn)"
  by (simp add: empty_conn_def Mapping.is_empty_def)

abbreviation first_client :: "(unit, nat, nat) MQTTConnection" where "first_client \<equiv> empty_conn"

text \<open>
  The log handler adds a topic while a launcher is between the store of its connection and the copy of the topics: the topic is
  subscribed by the handler and by the launcher and is held once.
\<close>

theorem manager_interleaved_witness:
  "\<exists>s. manager_run [ForwardStore first_client, AddCount ''t'', CallLoad, ForwardCopy [''t''], CallApply, ForwardNext, ForwardNext]
      (new_manager_sys (\<lambda>_. first_client)) = Some s \<and> held (conns (ms_manager s) 0) = {''t''}"
proof -
  obtain s where s: "manager_run [ForwardStore first_client, AddCount ''t'', CallLoad, ForwardCopy [''t''], CallApply, ForwardNext, ForwardNext]
      (new_manager_sys (\<lambda>_. first_client)) = Some s"
    "ms_call s = None" "ms_forward s = None" "sm_conn (ms_manager s) = Some 0" "ms_late s = {}"
    by (simp add: manager_step_defs empty_conn_topics)
  with manager_interleaved [OF _ s(1-4)] empty_conn_inv show ?thesis by (auto split: if_splits)
qed

text \<open>
  The overlap that is not covered: the last use of a topic is removed after the launcher has copied the topics and before it
  subscribes this one. \<^verbatim>\<open>Remove\<close> finds nothing to unsubscribe, and the launcher then subscribes a topic that nobody
  uses any more; it is held until a device subscribes and unsubscribes it again.
\<close>

lemma forward_races_remove:
  "\<exists>s. manager_run [AddCount ''t'', CallLoad, ForwardStore first_client, ForwardCopy [''t''], RemoveCount ''t'', CallLoad, CallApply, ForwardNext, ForwardNext]
      (new_manager_sys (\<lambda>_. first_client)) = Some s \<and> ms_call s = None \<and> ms_forward s = None \<and> sm_conn (ms_manager s) = Some 0 \<and>
     sm_cnt (ms_manager s) ''t'' = 0 \<and> held (conns (ms_manager s) 0) = {''t''}"
  by (simp add: manager_step_defs empty_conn_topics sm_cnt_def held_forward held_unsubscribe unsubscribe_inv empty_conn_inv)

end
