(* ===== verification/Reconnect_Steps.thy ===== *)
theory Reconnect_Steps
  imports Connection Transitions
begin

text \<open>
  Closing a connection while it reconnects, \<^verbatim>\<open>src/connector/connection.go\<close>. The goroutine of \<^verbatim>\<open>onConnectionLost\<close>
  runs the loop of \<^verbatim>\<open>externalReconnect\<close>; \<^verbatim>\<open>Disconnect\<close> clears the flag \<^verbatim>\<open>running\<close>, waits for the group of
  the loop and disconnects the client. The flags are atomic, so the two interleave at each access of a flag, at the group
  and at the calls on the client. The loop on its own, with the events it fires, is \<open>reconnect_loop\<close> of \<open>Connection\<close>;
  here the connection is one that is configured to reconnect externally.
\<close>

subsection \<open>State and steps\<close>

text \<open>
  Where the goroutine is: outside, between the flag \<^verbatim>\<open>reconnecting\<close> and the entry into the group, at the head of the
  loop, with so many short sleeps ahead, about to connect, waiting for the answer, and on its way out of the group and out of
  the flag.
\<close>

datatype loop_place = Outside | Flagged | Heading | Resting nat | Dialing | Answering | Exiting | Unflagging

text \<open>Where \<^verbatim>\<open>Disconnect\<close> is: not called, waiting for the group, about to disconnect the client, returned.\<close>

datatype disc_place = Up | Awaiting | Dropping | Down

datatype client_event = AppConnect | Reconnect | Dropped

record reconnect_sys =
  rs_running :: bool
  rs_reconnecting :: bool
  rs_stopGroup :: nat
  rs_loop :: loop_place
  rs_authErrRetries :: int
  rs_disc :: disc_place
  rs_calls :: "client_event list"

definition new_reconnect_sys :: reconnect_sys where
  "new_reconnect_sys = \<lparr>rs_running = True, rs_reconnecting = False, rs_stopGroup = 0, rs_loop = Outside, rs_authErrRetries = 0,
     rs_disc = Up, rs_calls = []\<rparr>"

text \<open>
  The inputs are the intervals of the backoff (\<open>None\<close> for \<^verbatim>\<open>backoff.Stop\<close>) and the answers to the connects. The
  application does not connect while it disconnects.
\<close>

datatype reconnect_action =
  ConnectionLost
| EnterGroup
| NextTurn "duration option"
| Sleep
| Dial
| Answer "conn_error option"
| LeaveGroup
| ClearFlag
| AppConnects
| DisconnectCalled
| GroupEmpty
| ClientDropped

definition next_turn :: "duration option \<Rightarrow> reconnect_sys \<Rightarrow> reconnect_sys" where
  "next_turn interval s =
     (if \<not> rs_running s then s\<lparr>rs_loop := Exiting\<rparr>
      else case interval of
        None \<Rightarrow> s\<lparr>rs_loop := Exiting\<rparr>
      | Some d \<Rightarrow> s\<lparr>rs_loop := Resting (spinCount d)\<rparr>)"

definition after_sleep :: "nat \<Rightarrow> reconnect_sys \<Rightarrow> reconnect_sys" where
  "after_sleep n s =
     (if \<not> rs_running s then s\<lparr>rs_loop := Exiting\<rparr>
      else s\<lparr>rs_loop := (if n \<le> 1 then Dialing else Resting (n - 1))\<rparr>)"

definition answered :: "int \<Rightarrow> conn_error option \<Rightarrow> reconnect_sys \<Rightarrow> reconnect_sys" where
  "answered maxAuthErr result s =
     (case result of
        None \<Rightarrow> s\<lparr>rs_loop := Exiting\<rparr>
      | Some err \<Rightarrow>
          if auth_error err
          then let n = rs_authErrRetries s + 1
               in s\<lparr>rs_authErrRetries := n, rs_loop := (if n = maxAuthErr then Exiting else Heading)\<rparr>
          else s\<lparr>rs_loop := Heading\<rparr>)"

fun loop_step :: "int \<Rightarrow> reconnect_action \<Rightarrow> loop_place \<Rightarrow> reconnect_sys \<Rightarrow> reconnect_sys option" where
  "loop_step maxAuthErr ConnectionLost Outside s =
     (if rs_reconnecting s then None else Some (s\<lparr>rs_reconnecting := True, rs_loop := Flagged\<rparr>))"
| "loop_step maxAuthErr EnterGroup Flagged s =
     Some (s\<lparr>rs_stopGroup := rs_stopGroup s + 1, rs_authErrRetries := 0, rs_loop := Heading\<rparr>)"
| "loop_step maxAuthErr (NextTurn interval) Heading s = Some (next_turn interval s)"
| "loop_step maxAuthErr Sleep (Resting n) s = Some (after_sleep n s)"
| "loop_step maxAuthErr Dial Dialing s = Some (s\<lparr>rs_calls := rs_calls s @ [Reconnect], rs_loop := Answering\<rparr>)"
| "loop_step maxAuthErr (Answer result) Answering s = Some (answered maxAuthErr result s)"
| "loop_step maxAuthErr LeaveGroup Exiting s = Some (s\<lparr>rs_stopGroup := rs_stopGroup s - 1, rs_loop := Unflagging\<rparr>)"
| "loop_step maxAuthErr ClearFlag Unflagging s = Some (s\<lparr>rs_reconnecting := False, rs_loop := Outside\<rparr>)"
| "loop_step _ _ _ _ = None"

text \<open>A \<^verbatim>\<open>Disconnect\<close> that finds the flag cleared leaves the client alone.\<close>

fun disc_step :: "reconnect_action \<Rightarrow> disc_place \<Rightarrow> reconnect_sys \<Rightarrow> reconnect_sys option" where
  "disc_step DisconnectCalled p s = (if rs_running s then Some (s\<lparr>rs_running := False, rs_disc := Awaiting\<rparr>) else Some s)"
| "disc_step GroupEmpty Awaiting s = (if rs_stopGroup s = 0 then Some (s\<lparr>rs_disc := Dropping\<rparr>) else None)"
| "disc_step ClientDropped Dropping s = Some (s\<lparr>rs_calls := rs_calls s @ [Dropped], rs_disc := Down\<rparr>)"
| "disc_step AppConnects Up s = Some (s\<lparr>rs_running := True, rs_calls := rs_calls s @ [AppConnect]\<rparr>)"
| "disc_step AppConnects Down s = Some (s\<lparr>rs_running := True, rs_calls := rs_calls s @ [AppConnect], rs_disc := Up\<rparr>)"
| "disc_step _ _ _ = None"

definition reconnect_step :: "int \<Rightarrow> reconnect_action \<Rightarrow> reconnect_sys \<Rightarrow> reconnect_sys option" where
  "reconnect_step maxAuthErr a s =
     (case disc_step a (rs_disc s) s of Some s' \<Rightarrow> Some s' | None \<Rightarrow> loop_step maxAuthErr a (rs_loop s) s)"

abbreviation reconnect_run :: "int \<Rightarrow> reconnect_action list \<Rightarrow> reconnect_sys \<Rightarrow> reconnect_sys option" where
  "reconnect_run maxAuthErr \<equiv> run_steps (\<lambda>_. False) (reconnect_step maxAuthErr)"

subsection \<open>Invariant\<close>

text \<open>The calls on the client by whether it is down: while it is, the loop does not connect.\<close>

fun calls_ok :: "bool \<Rightarrow> client_event list \<Rightarrow> bool" where
  "calls_ok down [] = True"
| "calls_ok down (AppConnect # cs) = calls_ok False cs"
| "calls_ok down (Dropped # cs) = calls_ok True cs"
| "calls_ok down (Reconnect # cs) = (\<not> down \<and> calls_ok down cs)"

fun is_down :: "bool \<Rightarrow> client_event list \<Rightarrow> bool" where
  "is_down down [] = down"
| "is_down down (AppConnect # cs) = is_down False cs"
| "is_down down (Dropped # cs) = is_down True cs"
| "is_down down (Reconnect # cs) = is_down down cs"

lemma calls_ok_append: "calls_ok d (xs @ [c]) \<longleftrightarrow> calls_ok d xs \<and> (c = Reconnect \<longrightarrow> \<not> is_down d xs)"
proof (induction d xs rule: calls_ok.induct)
  case (1 d)
  then show ?case by (cases c) auto
qed auto

lemma is_down_append: "is_down d (xs @ [c]) \<longleftrightarrow> (case c of AppConnect \<Rightarrow> False | Dropped \<Rightarrow> True | Reconnect \<Rightarrow> is_down d xs)"
  by (induction d xs rule: is_down.induct; cases c) auto

fun in_group :: "loop_place \<Rightarrow> bool" where
  "in_group Outside = False"
| "in_group Flagged = False"
| "in_group Unflagging = False"
| "in_group _ = True"

text \<open>The places of the loop that do not lead to a connect once the flag is cleared.\<close>

fun harmless :: "loop_place \<Rightarrow> bool" where
  "harmless Dialing = False"
| "harmless Answering = False"
| "harmless (Resting n) = False"
| "harmless _ = True"

definition reconnect_inv :: "reconnect_sys \<Rightarrow> bool" where
  "reconnect_inv s \<longleftrightarrow>
     rs_stopGroup s = (if in_group (rs_loop s) then 1 else 0) \<and> (rs_reconnecting s \<longleftrightarrow> rs_loop s \<noteq> Outside) \<and>
     (rs_disc s \<noteq> Up \<longrightarrow> \<not> rs_running s) \<and> (rs_disc s \<in> {Dropping, Down} \<longrightarrow> harmless (rs_loop s)) \<and>
     calls_ok False (rs_calls s) \<and> (is_down False (rs_calls s) \<longleftrightarrow> rs_disc s = Down)"

lemma loop_step_inv:
  assumes "loop_step maxAuthErr a (rs_loop s) s = Some s'" "reconnect_inv s"
  shows "reconnect_inv s'"
  using assms
  by (cases "(maxAuthErr, a, rs_loop s, s)" rule: loop_step.cases)
    (auto simp: reconnect_inv_def next_turn_def after_sleep_def answered_def calls_ok_append is_down_append Let_def
      split: if_splits option.splits)

lemma disc_step_inv:
  assumes "disc_step a (rs_disc s) s = Some s'" "reconnect_inv s"
  shows "reconnect_inv s'"
proof -
  have "harmless l" if "\<not> in_group l" for l using that by (cases l) auto
  with assms show ?thesis
    by (cases "(a, rs_disc s, s)" rule: disc_step.cases)
      (auto simp: reconnect_inv_def calls_ok_append is_down_append split: if_splits)
qed

lemma reconnect_step_inv: "reconnect_step maxAuthErr a s = Some s' \<Longrightarrow> reconnect_inv s \<Longrightarrow> reconnect_inv s'"
  by (auto simp: reconnect_step_def intro: loop_step_inv disc_step_inv split: option.splits)

interpretation reconnecting: stepping "\<lambda>_. False" "reconnect_step maxAuthErr" reconnect_inv for maxAuthErr
  by unfold_locales (rule reconnect_step_inv)

lemma new_reconnect_inv: "reconnect_inv new_reconnect_sys"
  by (simp add: reconnect_inv_def new_reconnect_sys_def)

subsection \<open>Ending\<close>

text \<open>
  While \<^verbatim>\<open>Disconnect\<close> is at work the flag stays cleared, so each step of the goroutine leads towards its end. The step
  function is restricted to that time.
\<close>

definition closing_step :: "int \<Rightarrow> reconnect_action \<Rightarrow> reconnect_sys \<Rightarrow> reconnect_sys option" where
  "closing_step maxAuthErr a s = (if rs_disc s \<in> {Awaiting, Dropping} then reconnect_step maxAuthErr a s else None)"

fun place_rank :: "loop_place \<Rightarrow> nat" where
  "place_rank Outside = 0"
| "place_rank Unflagging = 1"
| "place_rank Exiting = 2"
| "place_rank Heading = 3"
| "place_rank (Resting n) = 3"
| "place_rank Flagged = 4"
| "place_rank Answering = 4"
| "place_rank Dialing = 5"

fun disc_rank :: "disc_place \<Rightarrow> nat" where
  "disc_rank Awaiting = 2"
| "disc_rank Dropping = 1"
| "disc_rank _ = 0"

definition closing_rank :: "reconnect_sys \<Rightarrow> nat" where
  "closing_rank s = place_rank (rs_loop s) + disc_rank (rs_disc s)"

text \<open>The steps of the goroutine that is under way and of \<^verbatim>\<open>Disconnect\<close>; a further loss of the connection is none.\<close>

fun closing_action :: "reconnect_action \<Rightarrow> bool" where
  "closing_action ConnectionLost = False"
| "closing_action AppConnects = False"
| "closing_action DisconnectCalled = False"
| "closing_action _ = True"

lemma closing_rank_less:
  assumes "reconnect_inv s" "closing_action a" "closing_step maxAuthErr a s = Some s'"
  shows "closing_rank s' < closing_rank s"
proof -
  have s: "rs_disc s = Awaiting \<or> rs_disc s = Dropping" "\<not> rs_running s" "reconnect_step maxAuthErr a s = Some s'"
    using assms(1,3) by (auto simp: closing_step_def reconnect_inv_def split: if_splits)
  show ?thesis
  proof (cases "disc_step a (rs_disc s) s")
    case None
    with s have "loop_step maxAuthErr a (rs_loop s) s = Some s'" by (simp add: reconnect_step_def)
    then show ?thesis using assms(2) s(2)
      by (cases "(maxAuthErr, a, rs_loop s, s)" rule: loop_step.cases)
        (auto simp: closing_rank_def next_turn_def after_sleep_def answered_def Let_def split: if_splits option.splits)
  next
    case (Some t)
    with s have "t = s'" by (simp add: reconnect_step_def)
    with Some assms(2) s(1) show ?thesis
      by (cases "(a, rs_disc s, s)" rule: disc_step.cases) (auto simp: closing_rank_def split: if_splits)
  qed
qed

lemma teardown_not_stuck:
  assumes "reconnect_inv s" "rs_disc s \<in> {Awaiting, Dropping}"
  shows "\<exists>a s'. closing_action a \<and> closing_step maxAuthErr a s = Some s'"
proof (cases "rs_disc s = Dropping \<or> rs_stopGroup s = 0")
  case True
  with assms(2) have "\<exists>s'. closing_step maxAuthErr (if rs_disc s = Dropping then ClientDropped else GroupEmpty) s = Some s'"
    by (auto simp: closing_step_def reconnect_step_def)
  then show ?thesis by (metis closing_action.simps(10,11,12))
next
  case False
  then have "in_group (rs_loop s)" "rs_disc s = Awaiting" using assms by (auto simp: reconnect_inv_def split: if_splits)
  then have "\<exists>a s'. closing_action a \<and> closing_step maxAuthErr a s = Some s'" if "\<exists>a s'. closing_action a \<and> disc_step a Awaiting s = None \<and> loop_step maxAuthErr a (rs_loop s) s = Some s'"
    using that by (auto simp: closing_step_def reconnect_step_def)
  moreover have "\<exists>a s'. closing_action a \<and> disc_step a Awaiting s = None \<and> loop_step maxAuthErr a (rs_loop s) s = Some s'"
    using \<open>in_group (rs_loop s)\<close> by (cases "rs_loop s")
      (auto intro: exI [of _ "NextTurn None"] exI [of _ Sleep] exI [of _ Dial] exI [of _ "Answer None"] exI [of _ LeaveGroup])
  ultimately show ?thesis by blast
qed

lemma loop_step_disc: "loop_step maxAuthErr a p s = Some s' \<Longrightarrow> rs_disc s' = rs_disc s"
  by (cases "(maxAuthErr, a, p, s)" rule: loop_step.cases)
    (auto simp: next_turn_def after_sleep_def answered_def Let_def split: if_splits option.splits)

lemma closing_not_up:
  assumes "closing_step maxAuthErr a s = Some s'"
  shows "rs_disc s' \<noteq> Up"
proof -
  have "rs_disc t \<noteq> Up" if "disc_step a (rs_disc s) s = Some t" "rs_disc s \<in> {Awaiting, Dropping}" for t
    using that by (cases "(a, rs_disc s, s)" rule: disc_step.cases) (auto split: if_splits)
  with assms loop_step_disc [of maxAuthErr a "rs_loop s" s] show ?thesis
    by (auto simp: closing_step_def reconnect_step_def split: if_splits option.splits)
qed

interpretation closing_down: progress "\<lambda>_. False" "closing_step maxAuthErr" "\<lambda>s. reconnect_inv s \<and> rs_disc s \<noteq> Up" closing_action
  closing_rank "\<lambda>s. rs_disc s = Down" for maxAuthErr
proof (unfold_locales, goal_cases)
  case (1 s a s')
  moreover from this have "reconnect_step maxAuthErr a s = Some s'" by (simp add: closing_step_def split: if_splits)
  ultimately show ?case using reconnect_step_inv closing_not_up by blast
next
  case (2 s a s')
  then show ?case using closing_rank_less by blast
next
  case (3 s)
  then have "rs_disc s \<in> {Awaiting, Dropping}" by (cases "rs_disc s") auto
  with 3 show ?case using teardown_not_stuck [of s maxAuthErr] by blast
qed

lemma closing_run:
  assumes "run_steps (\<lambda>_. False) (closing_step maxAuthErr) as s = Some s'"
  shows "reconnect_run maxAuthErr as s = Some s'"
  using assms by (induction as arbitrary: s) (auto simp: closing_step_def split: if_splits option.splits)

subsection \<open>The loop on its own\<close>

text \<open>
  Turns in which the connection keeps running: nothing but the backoff and the answers decides. Then the steps of the goroutine
  do what \<open>reconnect_loop\<close> does: they connect the client as often and come to the end of the loop when it ends.
\<close>

definition undisturbed :: "attempt list \<Rightarrow> bool" where
  "undisturbed ts \<longleftrightarrow> (\<forall>t \<in> set ts. att_running t \<and> att_stopped t = None)"

lemma spinCount_pos: "0 < spinCount d"
  by (simp add: spinCount_def Let_def)

lemma sleeps_through:
  assumes "rs_loop s = Resting (Suc n)" "rs_running s"
  shows "reconnect_run k (replicate (Suc n) Sleep) s = Some (s\<lparr>rs_loop := Dialing\<rparr>)"
  using assms
proof (induction n arbitrary: s)
  case 0
  then show ?case by (cases "rs_disc s") (simp_all add: reconnect_step_def after_sleep_def)
next
  case (Suc n)
  from Suc.prems have "reconnect_step k Sleep s = Some (s\<lparr>rs_loop := Resting (Suc n)\<rparr>)"
    by (cases "rs_disc s") (simp_all add: reconnect_step_def after_sleep_def)
  with Suc.IH [of "s\<lparr>rs_loop := Resting (Suc n)\<rparr>"] Suc.prems show ?case by simp
qed

text \<open>One turn from the head of the loop to the answer of the client.\<close>

lemma turn_steps:
  assumes "rs_loop s = Heading" "rs_running s"
  shows "\<exists>as. reconnect_run k as s =
    Some (answered k r (s\<lparr>rs_calls := rs_calls s @ [Reconnect], rs_loop := Answering\<rparr>))"
proof -
  obtain n where n: "spinCount d = Suc n" using spinCount_pos gr0_implies_Suc by blast
  let ?s1 = "s\<lparr>rs_loop := Resting (Suc n)\<rparr>" and ?s2 = "s\<lparr>rs_loop := Dialing\<rparr>"
    and ?s3 = "s\<lparr>rs_calls := rs_calls s @ [Reconnect], rs_loop := Answering\<rparr>"
  have "reconnect_run k [NextTurn (Some d)] s = Some ?s1"
    using assms n by (cases "rs_disc s") (simp_all add: reconnect_step_def next_turn_def)
  moreover have "reconnect_run k (replicate (Suc n) Sleep) ?s1 = Some ?s2"
    using sleeps_through [of ?s1 n k] assms(2) by simp
  moreover have "reconnect_run k [Dial, Answer r] ?s2 = Some (answered k r ?s3)"
    by (cases "rs_disc s") (simp_all add: reconnect_step_def)
  ultimately show ?thesis using run_steps_two by metis
qed

lemma loop_agrees:
  assumes "reconnect_loop ts n c = Some (c', e)" "undisturbed ts"
    and "rs_loop s = Heading" "rs_running s" "rs_authErrRetries s = n" "AuthErrRetries (mc_config c) = k"
  shows "\<exists>as s' m. reconnect_run k as s = Some s' \<and> rs_loop s' = Exiting \<and> rs_running s' \<and> e \<noteq> StoppedRunning \<and>
    rs_calls s' = rs_calls s @ replicate m Reconnect \<and> calls c' = calls c @ replicate m ClientConnect"
  using assms
proof (induction ts arbitrary: n c s)
  case (Cons t ts)
  have t: "att_running t" "att_stopped t = None" "undisturbed ts" using Cons.prems(2) by (simp_all add: undisturbed_def)
  show ?case
  proof (cases "att_interval t")
    case None
    with Cons.prems t have "c' = c" "e = BackoffStop"
      "reconnect_run k [NextTurn None] s = Some (s\<lparr>rs_loop := Exiting\<rparr>)"
      by (cases "rs_disc s"; simp add: reconnect_step_def next_turn_def)+
    with Cons.prems show ?thesis by (intro exI [of _ "[NextTurn None]"] exI [of _ "s\<lparr>rs_loop := Exiting\<rparr>"] exI [of _ 0]) simp
  next
    case (Some d)
    let ?s = "answered k (att_result t) (s\<lparr>rs_calls := rs_calls s @ [Reconnect], rs_loop := Answering\<rparr>)"
    obtain as where as: "reconnect_run k as s = Some ?s" using turn_steps [OF Cons.prems(3,4)] by blast
    have s: "rs_running ?s" "rs_calls ?s = rs_calls s @ [Reconnect]"
      using Cons.prems(4) by (simp_all add: answered_def Let_def split: option.split)
    show ?thesis
    proof (cases "rs_loop ?s = Exiting")
      case True
      then have "calls c' = calls c @ [ClientConnect]" "e \<noteq> StoppedRunning"
        using Cons.prems t Some by (auto simp: answered_def Let_def split: option.splits if_splits)
      with as s True show ?thesis by (intro exI [of _ as] exI [of _ ?s] exI [of _ "Suc 0"]) simp
    next
      case False
      then obtain c2 where c2: "reconnect_loop ts (rs_authErrRetries ?s) c2 = Some (c', e)"
          "calls c2 = calls c @ [ClientConnect]" "mc_config c2 = mc_config c"
        using Cons.prems t Some by (auto simp: answered_def Let_def split: option.splits if_splits)
      have "rs_loop ?s = Heading" using False by (auto simp: answered_def Let_def split: option.splits if_splits)
      from Cons.IH [OF c2(1) t(3) this s(1) refl] c2(3) Cons.prems(6)
      obtain bs s' m where "reconnect_run k bs ?s = Some s'" "rs_loop s' = Exiting" "rs_running s'" "e \<noteq> StoppedRunning"
          "rs_calls s' = rs_calls ?s @ replicate m Reconnect" "calls c' = calls c2 @ replicate m ClientConnect" by auto
      with as s(2) c2(2) run_steps_two [OF as] show ?thesis
        by (intro exI [of _ "as @ bs"] exI [of _ s'] exI [of _ "Suc m"]) simp
    qed
  qed
qed simp

subsection \<open>Properties\<close>



end
