(* ===== verification/Subscriber.thy ===== *)
theory Subscriber
  imports Connection Transitions "HOL-Library.Sublist"
begin

text \<open>
  Subscribing, \<^verbatim>\<open>src/connector/subscriber.go\<close>: the subscribers and the message loop that
  hands the messages of the client to a channel. The loop's goroutine, the client's calls of the handler,
  the consumer of the channel and the closing of the subscriber interleave at the mutex
  \<^verbatim>\<open>processMessage\<close> and at the channels; they are the steps of a transition function.
\<close>

subsection \<open>Subscribers\<close>

datatype sub_error = SubClosed | SubConnect conn_error | SubTimeout string | SubRefused string

record subscriber =
  sb_closed :: bool
  sb_qos :: Qos
  sb_buffSize :: nat
  sb_autoDelete :: bool

definition NewSubscriber :: "Qos \<Rightarrow> bool \<Rightarrow> subscriber" where
  "NewSubscriber qos autoDelete = \<lparr>sb_closed = False, sb_qos = qos, sb_buffSize = 0, sb_autoDelete = autoDelete\<rparr>"

definition NewBufferedSubscriber :: "nat \<Rightarrow> bool \<Rightarrow> subscriber" where
  "NewBufferedSubscriber buffSize autoDelete =
     \<lparr>sb_closed = False, sb_qos = QosAtMostOnce, sb_buffSize = buffSize, sb_autoDelete = autoDelete\<rparr>"

definition NewDynamicSubscriber :: "Qos \<Rightarrow> bool \<Rightarrow> subscriber" where
  "NewDynamicSubscriber qos autoDelete = \<lparr>sb_closed = False, sb_qos = qos, sb_buffSize = 0, sb_autoDelete = autoDelete\<rparr>"

text \<open>
  \<open>handler\<close> is the new loop's handler. The result names how the loop stops: by resetting the default
  handler (\<open>None\<close>) or by removing its subscription.
\<close>

definition Subscribe ::
  "string \<Rightarrow> 'h \<Rightarrow> string \<Rightarrow> subscriber \<Rightarrow> ('tls, 'h, 'l) MQTTConnection
   \<Rightarrow> (sub_error + ('tls, 'h, 'l) MQTTConnection \<times> string option) outcome" where
  "Subscribe newUUID handler topic m c =
     (if sb_closed m then Inr (Inl SubClosed)
      else let ts = parseSubs topic
           in if length topic = 0 then Inr (Inr (setDefaultHandler (Some handler) c, None))
              else and_then (subscribe newUUID (Some handler) (sb_qos m) ts c) (\<lambda>(c', subID). Inr (Inr (c', Some subID))))"

definition stopper :: "subscriber \<Rightarrow> string option \<Rightarrow> ('tls, 'h, 'l) MQTTConnection \<Rightarrow> ('tls, 'h, 'l) MQTTConnection" where
  "stopper m how c =
     (case how of None \<Rightarrow> setDefaultHandler None c | Some subID \<Rightarrow> unsubscribe subID (sb_autoDelete m) c)"

text \<open>
  The dynamic subscriber makes a client of its own; \<open>provider\<close> is the client ID provider and
  \<open>newID\<close> a fresh identifier of the library. The calls are those made on the new client.
\<close>

definition getClientID :: "string \<Rightarrow> (string \<Rightarrow> string) option \<Rightarrow> string \<Rightarrow> string" where
  "getClientID newID provider topic =
     (case provider of
        None \<Rightarrow> newID
      | Some f \<Rightarrow> let clientID = f topic in if length clientID = 0 then newID else clientID)"

text \<open>\<open>connectErr\<close> is the error of the connect; \<open>subscribed\<close> is \<open>None\<close> for a timeout, else the token's error.\<close>

definition SubscribeInitialize ::
  "subscriber \<Rightarrow> conn_error option \<Rightarrow> string option option \<Rightarrow> string \<Rightarrow> 'h client_call list \<times> (sub_error + unit)" where
  "SubscribeInitialize m connectErr subscribed topic =
     (if sb_closed m then ([], Inl SubClosed)
      else case connectErr of
        Some e \<Rightarrow> ([ClientConnect], Inl (SubConnect e))
      | None \<Rightarrow>
          ([ClientConnect, SubscribeMultiple (subFilters (sb_qos m) (parseSubs topic)) None, ClientDisconnect disconnectQuiesce],
           case subscribed of
             None \<Rightarrow> Inl (SubTimeout topic)
           | Some (Some e) \<Rightarrow> Inl (SubRefused e)
           | Some None \<Rightarrow> Inr ()))"

definition dynamic_Subscribe ::
  "subscriber \<Rightarrow> conn_error option \<Rightarrow> string \<Rightarrow> 'h client_call list \<times> (sub_error + unit)" where
  "dynamic_Subscribe m connectErr topic =
     (if sb_closed m then ([], Inl SubClosed)
      else case connectErr of
        Some e \<Rightarrow> ([ClientConnect], Inl (SubConnect e))
      | None \<Rightarrow> ([ClientConnect, SubscribeMultiple (subFilters (sb_qos m) (parseSubs topic)) None], Inr ()))"

definition dynamic_stopper :: "subscriber \<Rightarrow> string \<Rightarrow> 'h client_call list" where
  "dynamic_stopper m topic =
     (if sb_autoDelete m then [Unsubscribe (parseSubs topic)] else []) @ [ClientDisconnect disconnectQuiesce]"

subsection \<open>The message loop\<close>

text \<open>What the handler that holds the mutex is doing, and where the loop's goroutine is.\<close>

datatype handler_pc = Sending message | Acking message

datatype loop_pc = LWaiting | LStopping | LLocking | LHolding | LReleased | LFinished

record messageloop =
  lp_cap :: nat
  lp_buf :: "message list"
  lp_received :: "message list"
  lp_outClosed :: bool
  lp_closing :: bool
  lp_ctxDone :: bool
  lp_topicClosed :: bool
  lp_proc :: "handler_pc option"
  lp_pc :: loop_pc
  lp_accepted :: "message list"
  lp_crash :: "go_panic option"

definition new_loop :: "nat \<Rightarrow> messageloop" where
  "new_loop buffSize = \<lparr>lp_cap = buffSize, lp_buf = [], lp_received = [], lp_outClosed = False, lp_closing = False,
     lp_ctxDone = False, lp_topicClosed = False, lp_proc = None, lp_pc = LWaiting, lp_accepted = [], lp_crash = None\<rparr>"

text \<open>
  The steps: the client calls the handler with a message; the handler sends, gives up because the
  subscriber closes, or is done waiting (acknowledged, refused or timed out); the consumer receives;
  the subscriber is closed or its context cancelled; the goroutine of the loop advances.
\<close>

datatype loop_action =
  HandlerCall "16 word" "byte list" string Qos
| HandlerSend
| HandlerGiveUp
| HandlerDone
| Consume
| CloseSubscriber
| CancelContext
| LoopAdvance

text \<open>The message the handler passes on; \<open>base\<close> is the context of the subscription.\<close>

definition received_message ::
  "(16 word \<Rightarrow> byte list \<Rightarrow> 'e + message) \<Rightarrow> ctx \<Rightarrow> 16 word \<Rightarrow> byte list \<Rightarrow> string \<Rightarrow> Qos \<Rightarrow> message option" where
  "received_message unmarshal base mid payload topic qos =
     (case unmarshal mid payload of
        Inl _ \<Rightarrow> None
      | Inr msg \<Rightarrow> Some (SetContext msg (SetQosToCtx (SetTopicToCtx base topic) qos)))"

definition handler_call ::
  "(16 word \<Rightarrow> byte list \<Rightarrow> 'e + message) \<Rightarrow> ctx \<Rightarrow> 16 word \<Rightarrow> byte list \<Rightarrow> string \<Rightarrow> Qos \<Rightarrow> messageloop \<Rightarrow> messageloop option" where
  "handler_call unmarshal base mid payload topic qos l =
     (if lp_proc l \<noteq> None \<or> lp_pc l = LHolding then None
      else if lp_topicClosed l then Some l
      else case received_message unmarshal base mid payload topic qos of
        None \<Rightarrow> Some l
      | Some msg \<Rightarrow> Some (l\<lparr>lp_proc := Some (Sending msg), lp_accepted := lp_accepted l @ [msg]\<rparr>))"

text \<open>After the send a buffered subscriber returns at once.\<close>

definition after_send :: "message \<Rightarrow> messageloop \<Rightarrow> messageloop" where
  "after_send msg l = l\<lparr>lp_proc := (if lp_cap l > 0 then None else Some (Acking msg))\<rparr>"

definition handler_send :: "messageloop \<Rightarrow> messageloop option" where
  "handler_send l =
     (case lp_proc l of
        Some (Sending msg) \<Rightarrow>
          if lp_outClosed l then Some (l\<lparr>lp_crash := Some SendOnClosedChannel\<rparr>)
          else if length (lp_buf l) < lp_cap l then Some (after_send msg (l\<lparr>lp_buf := lp_buf l @ [msg]\<rparr>))
          else None
      | _ \<Rightarrow> None)"

text \<open>The consumer takes from the buffer, or meets the sender when there is no buffer.\<close>

definition consume :: "messageloop \<Rightarrow> messageloop option" where
  "consume l =
     (case lp_buf l of
        msg # rest \<Rightarrow> Some (l\<lparr>lp_buf := rest, lp_received := lp_received l @ [msg]\<rparr>)
      | [] \<Rightarrow>
          if lp_cap l = 0 \<and> \<not> lp_outClosed l
          then case lp_proc l of
                 Some (Sending msg) \<Rightarrow> Some (after_send msg (l\<lparr>lp_received := lp_received l @ [msg]\<rparr>))
               | _ \<Rightarrow> None
          else None)"

definition handler_give_up :: "messageloop \<Rightarrow> messageloop option" where
  "handler_give_up l = (if lp_proc l \<noteq> None \<and> lp_closing l then Some (l\<lparr>lp_proc := None\<rparr>) else None)"

definition handler_done :: "messageloop \<Rightarrow> messageloop option" where
  "handler_done l = (case lp_proc l of Some (Acking msg) \<Rightarrow> Some (l\<lparr>lp_proc := None\<rparr>) | _ \<Rightarrow> None)"

text \<open>
  The goroutine of \<^verbatim>\<open>runMessageLoop\<close>: it waits for the closing of the subscriber or the end of the
  context, runs the stopper, takes the mutex, releases it and then, by the deferred calls, closes the
  channel and runs the cleaner.
\<close>

definition loop_advance :: "messageloop \<Rightarrow> messageloop option" where
  "loop_advance l =
     (case lp_pc l of
        LWaiting \<Rightarrow> if lp_closing l \<or> lp_ctxDone l then Some (l\<lparr>lp_topicClosed := True, lp_pc := LStopping\<rparr>) else None
      | LStopping \<Rightarrow> Some (l\<lparr>lp_pc := LLocking\<rparr>)
      | LLocking \<Rightarrow> if lp_proc l = None then Some (l\<lparr>lp_pc := LHolding\<rparr>) else None
      | LHolding \<Rightarrow> Some (l\<lparr>lp_topicClosed := True, lp_pc := LReleased\<rparr>)
      | LReleased \<Rightarrow>
          if lp_outClosed l then Some (l\<lparr>lp_crash := Some (Explicit ''close of closed channel'')\<rparr>)
          else Some (l\<lparr>lp_outClosed := True, lp_pc := LFinished\<rparr>)
      | LFinished \<Rightarrow> None)"

fun loop_act ::
  "(16 word \<Rightarrow> byte list \<Rightarrow> 'e + message) \<Rightarrow> ctx \<Rightarrow> loop_action \<Rightarrow> messageloop \<Rightarrow> messageloop option" where
  "loop_act unmarshal base (HandlerCall mid payload topic qos) l = handler_call unmarshal base mid payload topic qos l"
| "loop_act unmarshal base HandlerSend l = handler_send l"
| "loop_act unmarshal base HandlerGiveUp l = handler_give_up l"
| "loop_act unmarshal base HandlerDone l = handler_done l"
| "loop_act unmarshal base Consume l = consume l"
| "loop_act unmarshal base CloseSubscriber l = Some (l\<lparr>lp_closing := True\<rparr>)"
| "loop_act unmarshal base CancelContext l = Some (l\<lparr>lp_ctxDone := True\<rparr>)"
| "loop_act unmarshal base LoopAdvance l = loop_advance l"

abbreviation loop_run ::
  "(16 word \<Rightarrow> byte list \<Rightarrow> 'e + message) \<Rightarrow> ctx \<Rightarrow> loop_action list \<Rightarrow> messageloop \<Rightarrow> messageloop option" where
  "loop_run unmarshal base \<equiv> run_steps (\<lambda>l. lp_crash l \<noteq> None) (loop_act unmarshal base)"

lemmas loop_defs = handler_call_def handler_send_def handler_give_up_def handler_done_def consume_def
  loop_advance_def after_send_def

subsection \<open>Invariant\<close>

definition pending_send :: "messageloop \<Rightarrow> message list" where
  "pending_send l = (case lp_proc l of Some (Sending m) \<Rightarrow> [m] | _ \<Rightarrow> [])"

text \<open>
  While the goroutine is past its lock no handler holds the mutex and none will send again; and what was
  received and is buffered, with what is being sent, is a sublist of what was accepted.
\<close>

definition loop_inv :: "messageloop \<Rightarrow> bool" where
  "loop_inv l \<longleftrightarrow>
     lp_crash l = None \<and>
     (lp_pc l \<noteq> LWaiting \<longrightarrow> lp_topicClosed l) \<and>
     (lp_pc l \<in> {LHolding, LReleased, LFinished} \<longrightarrow> lp_proc l = None) \<and>
     (lp_outClosed l \<longleftrightarrow> lp_pc l = LFinished) \<and>
     length (lp_buf l) \<le> lp_cap l"

lemma loop_act_inv:
  assumes "loop_act unmarshal base a l = Some l'" "loop_inv l"
  shows "loop_inv l'"
proof (cases a)
  case (HandlerCall mid payload topic qos)
  with assms show ?thesis
    by (auto simp: loop_inv_def handler_call_def split: if_splits option.splits)
next
  case HandlerSend
  with assms show ?thesis
    by (auto simp: loop_inv_def handler_send_def after_send_def split: if_splits option.splits handler_pc.splits)
next
  case Consume
  with assms show ?thesis
    by (auto simp: loop_inv_def consume_def after_send_def split: if_splits option.splits handler_pc.splits list.splits)
next
  case LoopAdvance
  with assms show ?thesis
    by (auto simp: loop_inv_def loop_advance_def split: if_splits loop_pc.splits)
qed (use assms in \<open>auto simp: loop_inv_def handler_give_up_def handler_done_def split: if_splits option.splits handler_pc.splits\<close>)

interpretation loop: stepping "\<lambda>l. lp_crash l \<noteq> None" "loop_act unmarshal base" loop_inv for unmarshal base
  by unfold_locales (rule loop_act_inv)

lemma loop_inv_new: "loop_inv (new_loop n)"
  by (simp add: loop_inv_def new_loop_def)

lemma subseq_dropped: "subseq (xs @ ys) zs \<Longrightarrow> subseq xs zs"
  by (metis subseq_order.refl subseq_order.trans subseq_rev_drop_many)

text \<open>What was received, is buffered or is being sent, in order.\<close>

definition passed :: "messageloop \<Rightarrow> message list" where
  "passed l = lp_received l @ lp_buf l @ pending_send l"

lemma loop_act_passed:
  assumes "loop_act unmarshal base a l = Some l'" "loop_inv l" "subseq (passed l) (lp_accepted l)"
  shows "subseq (passed l') (lp_accepted l')"
proof -
  have drop: "subseq (lp_received l @ lp_buf l) (lp_accepted l)"
    using assms(3) subseq_dropped [of "lp_received l @ lp_buf l" "pending_send l"] by (simp add: passed_def)
  show ?thesis
  proof (cases a)
    case (HandlerCall mid payload topic qos)
    have "subseq ((lp_received l @ lp_buf l) @ [m]) (lp_accepted l @ [m])" for m
      using drop by (rule list_emb_append_mono) simp
    with HandlerCall assms show ?thesis
      by (auto simp: handler_call_def passed_def pending_send_def split: if_splits option.splits)
  next
    case HandlerSend
    with assms show ?thesis
      by (auto simp: loop_inv_def handler_send_def after_send_def passed_def pending_send_def
          split: if_splits option.splits handler_pc.splits)
  next
    case HandlerGiveUp
    with assms drop show ?thesis by (auto simp: handler_give_up_def passed_def pending_send_def split: if_splits)
  next
    case HandlerDone
    with assms drop show ?thesis
      by (auto simp: handler_done_def passed_def pending_send_def split: option.splits handler_pc.splits)
  next
    case Consume
    with assms show ?thesis
      by (auto simp: loop_inv_def consume_def after_send_def passed_def pending_send_def
          split: if_splits option.splits handler_pc.splits list.splits)
  next
    case LoopAdvance
    with assms show ?thesis
      by (auto simp: loop_advance_def passed_def pending_send_def split: if_splits loop_pc.splits)
  qed (use assms in \<open>auto simp: passed_def pending_send_def\<close>)
qed

interpretation delivery: stepping "\<lambda>l. lp_crash l \<noteq> None" "loop_act unmarshal base"
  "\<lambda>l. loop_inv l \<and> subseq (passed l) (lp_accepted l)" for unmarshal base
  by unfold_locales (use loop_act_inv loop_act_passed in blast)

text \<open>Once the subscriber is closing, the handler's giving up and the goroutine lead to the closed channel.\<close>

fun pc_rank :: "loop_pc \<Rightarrow> nat" where
  "pc_rank LWaiting = 5"
| "pc_rank LStopping = 4"
| "pc_rank LLocking = 3"
| "pc_rank LHolding = 2"
| "pc_rank LReleased = 1"
| "pc_rank LFinished = 0"

lemma pc_rank_bound: "pc_rank pc \<le> 5"
  by (cases pc) simp_all

lemma loop_advance_rank:
  assumes "loop_advance l = Some l'" "loop_inv l"
  shows "pc_rank (lp_pc l') < pc_rank (lp_pc l) \<and> lp_proc l' = lp_proc l \<and> lp_buf l' = lp_buf l"
  using assms by (cases "lp_pc l") (auto simp: loop_inv_def loop_advance_def split: if_splits)

definition loop_rank :: "messageloop \<Rightarrow> nat" where
  "loop_rank l = pc_rank (lp_pc l) + (if lp_proc l = None then 0 else 1)"

lemma closing_step: "loop_act unmarshal base a l = Some l' \<Longrightarrow> lp_closing l \<Longrightarrow> lp_closing l'"
proof (cases a)
  case (HandlerCall mid payload topic qos)
  moreover assume "loop_act unmarshal base a l = Some l'" "lp_closing l"
  ultimately show ?thesis by (auto simp: handler_call_def split: if_splits option.splits)
next
  case HandlerSend
  moreover assume "loop_act unmarshal base a l = Some l'" "lp_closing l"
  ultimately show ?thesis by (auto simp: handler_send_def after_send_def split: if_splits option.splits handler_pc.splits)
next
  case Consume
  moreover assume "loop_act unmarshal base a l = Some l'" "lp_closing l"
  ultimately show ?thesis by (auto simp: consume_def after_send_def split: if_splits list.splits option.splits handler_pc.splits)
next
  case LoopAdvance
  moreover assume "loop_act unmarshal base a l = Some l'" "lp_closing l"
  ultimately show ?thesis by (cases "lp_pc l") (auto simp: loop_advance_def split: if_splits)
qed (auto simp: handler_give_up_def handler_done_def split: if_splits option.splits handler_pc.splits)

lemma closing_not_stuck:
  assumes "loop_inv l" "lp_closing l" "\<not> lp_outClosed l"
  shows "lp_crash l = None \<and> (\<exists>a l'. a \<in> {HandlerGiveUp, LoopAdvance} \<and> loop_act unmarshal base a l = Some l')"
proof (intro conjI)
  show "lp_crash l = None" using assms(1) by (simp add: loop_inv_def)
  show "\<exists>a l'. a \<in> {HandlerGiveUp, LoopAdvance} \<and> loop_act unmarshal base a l = Some l'"
  proof (cases "lp_proc l = None")
    case True
    with assms have "loop_act unmarshal base LoopAdvance l \<noteq> None"
      by (auto simp: loop_inv_def loop_advance_def split: loop_pc.split)
    then show ?thesis by blast
  next
    case False
    with assms have "loop_act unmarshal base HandlerGiveUp l \<noteq> None" by (auto simp: handler_give_up_def)
    then show ?thesis by blast
  qed
qed

lemma own_loop_rank:
  assumes "loop_inv l" "a \<in> {HandlerGiveUp, LoopAdvance}" "loop_act unmarshal base a l = Some l'"
  shows "loop_rank l' < loop_rank l"
proof (cases "a = HandlerGiveUp")
  case True
  with assms(3) show ?thesis by (auto simp: handler_give_up_def loop_rank_def split: if_splits)
next
  case False
  with assms loop_advance_rank [of l l'] show ?thesis by (simp add: loop_rank_def)
qed

interpretation closing: progress "\<lambda>l. lp_crash l \<noteq> None" "loop_act unmarshal base" "\<lambda>l. loop_inv l \<and> lp_closing l"
  "\<lambda>a. a \<in> {HandlerGiveUp, LoopAdvance}" loop_rank lp_outClosed for unmarshal base
proof (unfold_locales, goal_cases)
  case (1 s a s')
  then show ?case using loop_act_inv [of unmarshal base a s s'] closing_step [of unmarshal base a s s'] by simp
next
  case (2 s a s')
  then show ?case using own_loop_rank [of s a] by blast
next
  case (3 s)
  then show ?case using closing_not_stuck [of s unmarshal base] by simp
qed

text \<open>
  After the cancelling of its context the loop ends as well, but a handler that is sending watches only the channel and
  the closing of the subscriber: it needs the consumer.
\<close>

fun handler_rank :: "handler_pc option \<Rightarrow> nat" where
  "handler_rank None = 0"
| "handler_rank (Some (Acking m)) = 1"
| "handler_rank (Some (Sending m)) = 3"

definition drain_rank :: "messageloop \<Rightarrow> nat" where
  "drain_rank l = pc_rank (lp_pc l) + handler_rank (lp_proc l) + length (lp_buf l)"

lemma handler_rank_bound: "handler_rank h \<le> 3"
  by (cases h rule: handler_rank.cases) simp_all

abbreviation draining :: "loop_action set" where
  "draining \<equiv> {HandlerSend, HandlerDone, Consume, LoopAdvance}"

lemma ctxDone_step: "loop_act unmarshal base a l = Some l' \<Longrightarrow> lp_ctxDone l \<Longrightarrow> lp_ctxDone l'"
  by (cases a) (auto simp: loop_defs split: if_splits option.splits handler_pc.splits list.splits loop_pc.splits)

lemma drain_not_stuck:
  assumes "loop_inv l" "lp_ctxDone l" "\<not> lp_outClosed l"
  shows "\<exists>a l'. a \<in> draining \<and> loop_act unmarshal base a l = Some l'"
proof (cases "lp_proc l")
  case None
  with assms have "loop_act unmarshal base LoopAdvance l \<noteq> None" by (auto simp: loop_inv_def loop_advance_def split: loop_pc.split)
  then show ?thesis by blast
next
  case (Some h)
  show ?thesis
  proof (cases h)
    case (Sending msg)
    show ?thesis
    proof (cases "length (lp_buf l) < lp_cap l")
      case True
      with Some Sending assms(3) have "loop_act unmarshal base HandlerSend l \<noteq> None" by (simp add: handler_send_def)
      then show ?thesis by blast
    next
      case False
      with Some Sending assms(3) have "loop_act unmarshal base Consume l \<noteq> None" by (cases "lp_buf l") (simp_all add: consume_def)
      then show ?thesis by blast
    qed
  next
    case (Acking msg)
    with Some have "loop_act unmarshal base HandlerDone l \<noteq> None" by (simp add: handler_done_def)
    then show ?thesis by blast
  qed
qed

lemma drain_step_rank:
  assumes "loop_inv l" "a \<in> draining" "loop_act unmarshal base a l = Some l'"
  shows "drain_rank l' < drain_rank l"
proof -
  consider "a = HandlerSend" | "a = HandlerDone" | "a = Consume" | "a = LoopAdvance" using assms(2) by blast
  then show ?thesis
  proof cases
    case 1
    moreover from assms(1) have "lp_pc l = LFinished \<longrightarrow> lp_proc l = None" "lp_outClosed l \<longleftrightarrow> lp_pc l = LFinished" by (simp_all add: loop_inv_def)
    ultimately show ?thesis using assms(3)
      by (auto simp: handler_send_def after_send_def drain_rank_def split: if_splits option.splits handler_pc.splits)
  next
    case 2
    with assms(3) show ?thesis by (auto simp: handler_done_def drain_rank_def split: option.splits handler_pc.splits)
  next
    case 3
    with assms(3) show ?thesis
      by (auto simp: consume_def after_send_def drain_rank_def split: if_splits list.splits option.splits handler_pc.splits)
  next
    case 4
    with assms loop_advance_rank [of l l'] show ?thesis by (simp add: drain_rank_def)
  qed
qed

interpretation cancelled: progress "\<lambda>l. lp_crash l \<noteq> None" "loop_act unmarshal base" "\<lambda>l. loop_inv l \<and> lp_ctxDone l"
  "\<lambda>a. a \<in> draining" drain_rank lp_outClosed for unmarshal base
proof (unfold_locales, goal_cases)
  case (1 s a s')
  then show ?case using loop_act_inv [of unmarshal base a s s'] ctxDone_step [of unmarshal base a s s'] by simp
next
  case (2 s a s')
  then show ?case using drain_step_rank [of s a] by blast
next
  case (3 s)
  then show ?case using drain_not_stuck [of s unmarshal base] by (simp add: loop_inv_def)
qed

text \<open>
  Without a consumer the goroutine of a cancelled subscription waits for the mutex of the sending handler, for good as long
  as the subscriber is not closed.
\<close>

lemma cancel_needs_consumer:
  "\<exists>l. loop_run defUnmarshal Background [HandlerCall 7 [1] ''t'' 1, CancelContext, LoopAdvance, LoopAdvance] (new_loop 0) = Some l \<and>
     lp_pc l = LLocking \<and> \<not> lp_outClosed l \<and>
     (\<forall>a l'. loop_act defUnmarshal Background a l = Some l' \<longrightarrow> a \<in> {Consume, CloseSubscriber, CancelContext})"
proof -
  let ?as = "[HandlerCall 7 [1] ''t'' 1, CancelContext, LoopAdvance, LoopAdvance]"
  obtain l where l: "loop_run defUnmarshal Background ?as (new_loop 0) = Some l" "lp_pc l = LLocking" "\<not> lp_outClosed l" "lp_cap l = 0"
    "\<not> lp_closing l" "\<exists>m. lp_proc l = Some (Sending m)"
    by (simp add: loop_defs received_message_def defUnmarshal_def new_loop_def)
  have "a \<in> {Consume, CloseSubscriber, CancelContext}" if "loop_act defUnmarshal Background a l = Some l'" for a l'
    using that l by (cases a) (auto simp: loop_defs)
  with l show ?thesis by blast
qed

lemma loop_run_cap: "loop_run unmarshal base as l = Some l' \<Longrightarrow> lp_cap l' = lp_cap l"
proof (induction as arbitrary: l)
  case (Cons a as)
  then obtain t where "loop_act unmarshal base a l = Some t" "loop_run unmarshal base as t = Some l'" by (auto split: if_splits option.splits)
  moreover from this(1) have "lp_cap t = lp_cap l"
    by (cases a) (auto simp: loop_defs split: if_splits option.splits handler_pc.splits list.splits loop_pc.splits)
  ultimately show ?case using Cons.IH by simp
qed simp

subsection \<open>Properties of the message loop\<close>

text \<open>
  (C29) The loop is safe under every interleaving of client, consumer, closing and cancelling: nothing is
  ever sent on the closed channel and the channel is closed only once, by the goroutine at its end, when
  no handler holds the mutex; and the consumer receives messages in the order in which the client
  delivered them, none twice.
\<close>

theorem messageloop_safe:
  assumes "loop_run unmarshal base as (new_loop n) = Some l"
  shows "lp_crash l = None \<and> (lp_outClosed l \<longleftrightarrow> lp_pc l = LFinished) \<and> (lp_outClosed l \<longrightarrow> lp_proc l = None) \<and>
    subseq (lp_received l) (lp_accepted l)"
proof -
  have "loop_inv (new_loop n) \<and> subseq (passed (new_loop n)) (lp_accepted (new_loop n))"
    by (simp add: loop_inv_new) (simp add: new_loop_def passed_def pending_send_def)
  with delivery.run_inv [OF assms] have inv: "loop_inv l" "subseq (passed l) (lp_accepted l)" by blast+
  from inv(2) have "subseq (lp_received l) (lp_accepted l)" unfolding passed_def by (rule subseq_dropped)
  with inv show ?thesis by (auto simp: loop_inv_def)
qed

theorem messageloop_safe_witness:
  "\<exists>l. loop_run defUnmarshal Background [HandlerCall 7 [1] ''t'' 1, Consume, HandlerDone] (new_loop 0) = Some l \<and>
     lp_crash l = None \<and> subseq (lp_received l) (lp_accepted l) \<and> length (lp_received l) = 1"
proof -
  obtain l where l: "loop_run defUnmarshal Background [HandlerCall 7 [1] ''t'' 1, Consume, HandlerDone] (new_loop 0) = Some l"
      "length (lp_received l) = 1"
    by (simp add: loop_defs received_message_def defUnmarshal_def new_loop_def)
  from messageloop_safe [OF l(1)] l show ?thesis by blast
qed

text \<open>
  (C30) Closing the subscriber ends the loop: from every reachable state in which it is closing, giving
  up the handler in progress and the goroutine's own steps, at most six of them, close the channel, whether
  or not the consumer still reads. Cancelling the context ends it as well, in at most eight steps more than the
  channel has places, with a consumer that still reads.
\<close>

theorem messageloop_stops:
  assumes "loop_run unmarshal base as (new_loop n) = Some l" "lp_closing l \<or> lp_ctxDone l"
  shows "\<exists>bs l'. loop_run unmarshal base bs l = Some l' \<and> lp_outClosed l' \<and>
    (if lp_closing l then set bs \<subseteq> {HandlerGiveUp, LoopAdvance} \<and> length bs \<le> 6 else set bs \<subseteq> draining \<and> length bs \<le> 8 + n)"
proof -
  have inv: "loop_inv l" using assms(1) loop_inv_new by (rule loop.run_inv)
  show ?thesis
  proof (cases "lp_closing l")
    case True
    with inv closing.reaches [of l unmarshal base] obtain bs l' where
      "loop_run unmarshal base bs l = Some l'" "list_all (\<lambda>a. a \<in> {HandlerGiveUp, LoopAdvance}) bs" "length bs \<le> loop_rank l" "lp_outClosed l'"
      by blast
    moreover have "loop_rank l \<le> 6" using pc_rank_bound [of "lp_pc l"] by (simp add: loop_rank_def)
    ultimately show ?thesis using True by (intro exI [of _ bs] exI [of _ l']) (auto simp: list_all_iff)
  next
    case False
    with assms(2) inv cancelled.reaches [of l unmarshal base] obtain bs l' where
      "loop_run unmarshal base bs l = Some l'" "list_all (\<lambda>a. a \<in> draining) bs" "length bs \<le> drain_rank l" "lp_outClosed l'"
      by blast
    moreover have "lp_cap l = n" using loop_run_cap [OF assms(1)] by (simp add: new_loop_def)
    then have "drain_rank l \<le> 8 + n"
      using inv pc_rank_bound [of "lp_pc l"] handler_rank_bound [of "lp_proc l"] by (simp add: drain_rank_def loop_inv_def)
    ultimately show ?thesis using False by (intro exI [of _ bs] exI [of _ l']) (auto simp: list_all_iff)
  qed
qed

theorem messageloop_stops_witness:
  "\<exists>l bs l'. loop_run defUnmarshal Background [HandlerCall 7 [1] ''t'' 1, CloseSubscriber] (new_loop 0) = Some l \<and>
     loop_run defUnmarshal Background bs l = Some l' \<and> lp_outClosed l'"
proof -
  obtain l where l: "loop_run defUnmarshal Background [HandlerCall 7 [1] ''t'' 1, CloseSubscriber] (new_loop 0) = Some l" "lp_closing l"
    by (simp add: loop_defs received_message_def defUnmarshal_def new_loop_def)
  from messageloop_stops [OF l(1)] l show ?thesis by blast
qed

end
