(* ===== verification/Go_Regexp.thy ===== *)
theory Go_Regexp
  imports Go_Strings
begin

text \<open>
  The part of Go's \<^verbatim>\<open>regexp\<close> that \<^verbatim>\<open>src/routing/subscription.go\<close> uses: literals, bounded and
  unbounded greedy repetition of a class of bytes, alternatives and capturing groups, with the
  leftmost-first choice that the Go documentation describes: of the matches that begin first, the one
  a backtracking search would find first. \<open>rx\<close> lists the ways to match a prefix in that order.
\<close>

datatype regex =
  Lit string
| Rep "char \<Rightarrow> bool" nat "nat option"
| Cat regex regex
| Alt regex regex
| Grp nat regex

type_synonym captures = "(nat \<times> string) list"

fun rx :: "regex \<Rightarrow> string \<Rightarrow> (captures \<times> string) list" where
  "rx (Lit l) s = (if HasPrefix s l then [([], drop (length l) s)] else [])"
| "rx (Rep p lo hi) s =
     (let n = length (takeWhile p s);
          m = (case hi of None \<Rightarrow> n | Some h \<Rightarrow> min h n)
      in map (\<lambda>k. ([], drop k s)) (rev [lo..<Suc m]))"
| "rx (Cat a b) s = concat (map (\<lambda>(c1, r1). map (\<lambda>(c2, r2). (c1 @ c2, r2)) (rx b r1)) (rx a s))"
| "rx (Alt a b) s = rx a s @ rx b s"
| "rx (Grp n a) s = map (\<lambda>(c, r). ((n, take (length s - length r) s) # c, r)) (rx a s)"

definition best :: "regex \<Rightarrow> string \<Rightarrow> (captures \<times> string) option" where
  "best e s = (case rx e s of [] \<Rightarrow> None | m # _ \<Rightarrow> Some m)"

text \<open>\<^verbatim>\<open>FindStringSubmatch\<close>: the first position with a match.\<close>

fun FindStringSubmatch :: "regex \<Rightarrow> string \<Rightarrow> captures option" where
  "FindStringSubmatch e [] = map_option fst (best e [])"
| "FindStringSubmatch e (x # xs) =
     (case best e (x # xs) of Some (c, _) \<Rightarrow> Some c | None \<Rightarrow> FindStringSubmatch e xs)"

definition submatch :: "captures \<Rightarrow> nat \<Rightarrow> string" where
  "submatch c n = (case map_of c n of None \<Rightarrow> [] | Some s \<Rightarrow> s)"

lemma FindStringSubmatch_here: "best e s = Some (c, r) \<Longrightarrow> FindStringSubmatch e s = Some c"
  by (cases s) auto

subsection \<open>Calculating the best match\<close>

lemma best_None: "best e s = None \<longleftrightarrow> rx e s = []"
  by (simp add: best_def split: list.split)

text \<open>Candidates of the first part that the second part rejects are skipped.\<close>

lemma best_Cat_skip:
  assumes "rx a s = xs @ (c1, r1) # ys" "\<forall>(c, r) \<in> set xs. rx b r = []" "best b r1 = Some (c2, r2)"
  shows "best (Cat a b) s = Some (c1 @ c2, r2)"
proof -
  have skipped: "concat (map (\<lambda>(c1, r1). map (\<lambda>(c2, r2). (c1 @ c2, r2)) (rx b r1)) xs) = []"
    using assms(2) by auto
  obtain zs where "rx b r1 = (c2, r2) # zs"
    using assms(3) by (auto simp: best_def split: list.splits)
  then show ?thesis
    unfolding best_def rx.simps(3) assms(1) map_append concat_append skipped by simp
qed

lemma best_Lit: "best (Lit l) (l @ s) = Some ([], s)"
  by (simp add: best_def)

lemma best_Cat_Lit: "best (Cat (Lit l) b) (l @ s) = best b s"
  by (simp add: best_def split: list.split)

lemma best_Grp:
  "best a s = Some (c, r) \<Longrightarrow> best (Grp n a) s = Some ((n, take (length s - length r) s) # c, r)"
  by (auto simp: best_def split: list.splits)

lemma rev_upt_split: "lo \<le> m \<Longrightarrow> m \<le> n \<Longrightarrow> rev [lo..<Suc n] = rev [Suc m..<Suc n] @ m # rev [lo..<m]"
proof -
  assume "lo \<le> m" "m \<le> n"
  then have "[lo..<Suc n] = [lo..<m] @ [m..<Suc n]" by (metis le_SucI upt_add_eq_append le_add_diff_inverse)
  moreover have "[m..<Suc n] = m # [Suc m..<Suc n]" using \<open>m \<le> n\<close> by (simp add: upt_conv_Cons)
  ultimately show ?thesis by simp
qed

text \<open>A greedy repetition that could go on to the end of the input stops where the rest first matches.\<close>

lemma best_greedy:
  assumes "\<forall>x \<in> set (u @ v). p x" "lo \<le> length u"
    and "\<And>j. 0 < j \<Longrightarrow> j \<le> length v \<Longrightarrow> rx b (drop j v) = []"
    and "best b v = Some (c, r)"
  shows "best (Cat (Grp n (Rep p lo None)) b) (u @ v) = Some ((n, u) # c, r)"
    and "best (Cat (Rep p lo None) b) (u @ v) = Some (c, r)"
proof -
  let ?len = "length (u @ v)"
  have all: "takeWhile p (u @ v) = u @ v" using assms(1) by (simp add: takeWhile_eq_all_conv)
  have split: "rev [lo..<Suc ?len] = rev [Suc (length u)..<Suc ?len] @ length u # rev [lo..<length u]"
    using assms(2) by (intro rev_upt_split) auto
  have skip: "rx b (drop k (u @ v)) = []" if "k \<in> set (rev [Suc (length u)..<Suc ?len])" for k
  proof -
    have "length u < k" "k \<le> ?len" using that by auto
    with assms(3) [of "k - length u"] show ?thesis by simp
  qed
  have rep: "rx (Rep p lo None) (u @ v) = map (\<lambda>k. ([], drop k (u @ v))) (rev [Suc (length u)..<Suc ?len])
      @ ([], v) # map (\<lambda>k. ([], drop k (u @ v))) (rev [lo..<length u])"
    unfolding rx.simps all Let_def option.case split by simp
  show "best (Cat (Rep p lo None) b) (u @ v) = Some (c, r)"
    using best_Cat_skip [OF rep _ assms(4)] skip by auto
  have grp: "rx (Grp n (Rep p lo None)) (u @ v) =
      map (\<lambda>k. ([(n, take (?len - length (drop k (u @ v))) (u @ v))], drop k (u @ v))) (rev [Suc (length u)..<Suc ?len])
      @ ([(n, u)], v) # map (\<lambda>k. ([(n, take (?len - length (drop k (u @ v))) (u @ v))], drop k (u @ v))) (rev [lo..<length u])"
    unfolding rx.simps(5) rep by simp
  show "best (Cat (Grp n (Rep p lo None)) b) (u @ v) = Some ((n, u) # c, r)"
    using best_Cat_skip [OF grp _ assms(4)] skip by auto
qed

text \<open>A bounded repetition that must stop takes all it can.\<close>

lemma best_bounded:
  assumes "\<forall>x \<in> set u. p x" "\<not> p y" "lo \<le> length u" "length u \<le> hi" "best b (y # v) = Some (c, r)"
  shows "best (Cat (Grp n (Rep p lo (Some hi))) b) (u @ y # v) = Some ((n, u) # c, r)"
proof -
  have "takeWhile p (u @ y # v) = u" using assms(1,2) by (simp add: takeWhile_append2)
  moreover have "rev [lo..<Suc (length u)] = length u # rev [lo..<length u]" using assms(3) by simp
  ultimately have "rx (Grp n (Rep p lo (Some hi))) (u @ y # v) = [] @ ([(n, u)], y # v) #
      map (\<lambda>k. ([(n, take (length (u @ y # v) - length (drop k (u @ y # v))) (u @ y # v))], drop k (u @ y # v))) (rev [lo..<length u])"
    using assms(3,4) by (simp add: Let_def min_absorb2)
  from best_Cat_skip [OF this _ assms(5)] show ?thesis by simp
qed

end
