(* ===== verification/Log_Handler.thy ===== *)
theory Log_Handler
  imports Subscription_Manager Subscriber Go_Regexp
begin

text \<open>
  The handler of the broker's log, \<^verbatim>\<open>src/routing/subscription.go\<close>: it recognises the
  subscriptions and disconnections of local clients in the log lines, keeps the list of their command
  subscriptions and counts them in the subscription manager, which it knows through its interface
  only: the operations \<open>add\<close> and \<open>rem\<close> are arguments here and the lemmas about them rest on the
  locale \<open>refcounting\<close>.
\<close>

subsection \<open>Log lines\<close>

datatype logMessageType = Subscription | UnSubscription | Disconnection | Termination

text \<open>A timestamp is the number of seconds given to \<^verbatim>\<open>time.Unix\<close>.\<close>

record LogMessage =
  lm_ClientID :: string
  lm_Timestamp :: int
  lm_Text :: string
  lm_Type :: logMessageType

definition TopicLogSubscribe :: string where "TopicLogSubscribe = ''$SYS/broker/log/M/subscribe''"
definition TopicLogUnsubscribe :: string where "TopicLogUnsubscribe = ''$SYS/broker/log/M/unsubscribe''"
definition TopicLogNoticeLevel :: string where "TopicLogNoticeLevel = ''$SYS/broker/log/N''"

text \<open>The classes \<^verbatim>\<open>[[:print:]]\<close>, \<^verbatim>\<open>\d\<close>, \<^verbatim>\<open>[0-2]\<close> and the dot, on bytes.\<close>

definition is_print :: "char \<Rightarrow> bool" where
  "is_print c \<longleftrightarrow> 32 \<le> (of_char c :: nat) \<and> (of_char c :: nat) \<le> 126"

definition is_qos :: "char \<Rightarrow> bool" where
  "is_qos c \<longleftrightarrow> c = CHR ''0'' \<or> c = CHR ''1'' \<or> c = CHR ''2''"

definition any_char :: "char \<Rightarrow> bool" where
  "any_char c \<longleftrightarrow> c \<noteq> CHR 0x0A"

definition time_re :: regex where
  "time_re = Grp 1 (Rep is_digit 6 (Some 11))"

definition topic_re :: "nat \<Rightarrow> regex" where
  "topic_re n = Grp n (Cat (Grp (n + 1) (Alt (Lit ''c'') (Lit ''command'')))
     (Cat (Lit ''//'') (Cat (Rep is_print 1 None) (Cat (Lit ''/'')
       (Cat (Grp (n + 2) (Alt (Lit ''q'') (Lit ''req''))) (Lit ''/#''))))))"

definition subscribeRegexp :: regex where
  "subscribeRegexp = Cat time_re (Cat (Lit '': '') (Cat (Grp 2 (Rep is_print 1 None)) (Cat (Lit '' '')
     (Cat (Grp 3 (Rep is_qos 1 (Some 1))) (Cat (Lit '' '') (topic_re 4))))))"

definition unsubscribeRegexp :: regex where
  "unsubscribeRegexp = Cat time_re (Cat (Lit '': '') (Cat (Grp 2 (Rep is_print 1 None)) (Cat (Lit '' '') (topic_re 3))))"

definition disconnectedRegexp :: regex where
  "disconnectedRegexp = Cat time_re (Cat (Lit '': Client '') (Cat (Grp 2 (Rep is_print 1 None)) (Cat (Lit '' '')
     (Grp 3 (Cat (Lit ''disconnected'') (Rep any_char 1 (Some 1)))))))"

definition disconnectingRegexp :: regex where
  "disconnectingRegexp = Cat time_re (Cat (Lit '': Socket error on client '') (Cat (Grp 2 (Rep is_print 1 None)) (Cat (Lit '', '')
     (Grp 3 (Cat (Lit ''disconnecting'') (Rep any_char 1 (Some 1)))))))"

definition closedConnectionRegexp :: regex where
  "closedConnectionRegexp = Cat time_re (Cat (Lit '': Client '') (Cat (Grp 2 (Rep is_print 1 None)) (Cat (Lit '' '')
     (Grp 3 (Cat (Lit ''closed its connection'') (Rep any_char 1 (Some 1)))))))"

definition parseLogTimestamp :: "string \<Rightarrow> int option" where
  "parseLogTimestamp s = Atoi s"

text \<open>The common body of the branches: match, read the time, take client and text out of the groups.\<close>

definition parse_line :: "regex \<Rightarrow> nat \<Rightarrow> logMessageType \<Rightarrow> string \<Rightarrow> LogMessage option" where
  "parse_line e textGroup ty message =
     (case FindStringSubmatch e message of
        None \<Rightarrow> None
      | Some match \<Rightarrow>
          case parseLogTimestamp (submatch match 1) of
            None \<Rightarrow> None
          | Some timestamp \<Rightarrow>
              Some \<lparr>lm_ClientID = submatch match 2, lm_Timestamp = timestamp,
                    lm_Text = submatch match textGroup, lm_Type = ty\<rparr>)"

definition parseLogMessageNoticeLevel :: "string \<Rightarrow> LogMessage option" where
  "parseLogMessageNoticeLevel message =
     (case parse_line disconnectedRegexp 3 Disconnection message of
        Some m \<Rightarrow> Some m
      | None \<Rightarrow>
          case parse_line disconnectingRegexp 3 Termination message of
            Some m \<Rightarrow> Some m
          | None \<Rightarrow> parse_line closedConnectionRegexp 3 Termination message)"

definition ParseLogMessage :: "string \<Rightarrow> string \<Rightarrow> LogMessage option" where
  "ParseLogMessage topic message =
     (if topic = TopicLogSubscribe then parse_line subscribeRegexp 4 Subscription message
      else if topic = TopicLogUnsubscribe then parse_line unsubscribeRegexp 3 UnSubscription message
      else if topic = TopicLogNoticeLevel then parseLogMessageNoticeLevel message
      else None)"

definition topicLog :: string where "topicLog = ''$SYS/broker/log/#''"

subsection \<open>The list of subscriptions\<close>

record SubscriptionItem =
  it_ClientID :: string
  it_Timestamp :: int
  it_TopicID :: string
  it_TopicReal :: string

record 'm LogHandler =
  SubcriptionList :: "SubscriptionItem list"
  Manager :: 'm

definition filterTopic :: "string \<Rightarrow> bool" where
  "filterTopic topic = Contains topic ''/+/''"

definition addSubscription :: "(string \<Rightarrow> 'm \<Rightarrow> 'm \<times> bool) \<Rightarrow> LogMessage \<Rightarrow> 'm LogHandler \<Rightarrow> 'm LogHandler" where
  "addSubscription add lm h =
     (let topicNorm = NormalizeTopic (lm_Text lm)
      in if filterTopic topicNorm then h
         else let itemCandidate = \<lparr>it_ClientID = lm_ClientID lm, it_Timestamp = lm_Timestamp lm,
                    it_TopicID = topicNorm, it_TopicReal = lm_Text lm\<rparr>
              in \<lparr>SubcriptionList = SubcriptionList h @ [itemCandidate], Manager = fst (add topicNorm (Manager h))\<rparr>)"

text \<open>The search that removes the first element with a property and stops.\<close>

fun remove_first :: "(SubscriptionItem \<Rightarrow> bool) \<Rightarrow> SubscriptionItem list \<Rightarrow> SubscriptionItem list \<times> bool" where
  "remove_first P [] = ([], False)"
| "remove_first P (i # is) =
     (if P i then (is, True) else let (is', found) = remove_first P is in (i # is', found))"

definition removeSubscription :: "(string \<Rightarrow> 'm \<Rightarrow> 'm \<times> bool) \<Rightarrow> LogMessage \<Rightarrow> 'm LogHandler \<Rightarrow> 'm LogHandler" where
  "removeSubscription rem lm h =
     (let (l, found) = remove_first
            (\<lambda>i. it_ClientID i = lm_ClientID lm \<and> it_TopicReal i = lm_Text lm) (SubcriptionList h)
      in if \<not> found then h
         else \<lparr>SubcriptionList = l, Manager = fst (rem (NormalizeTopic (lm_Text lm)) (Manager h))\<rparr>)"

text \<open>
  The loop of \<^verbatim>\<open>removeAllSubscriptions\<close>: \<^verbatim>\<open>list.Remove\<close> clears the links of the element
  it removes, and \<^verbatim>\<open>Next\<close> of an element that is in no list is nil, so the loop ends after the
  first removal. The result is the list that remains and the removed items.
\<close>

fun removeAll_loop :: "string \<Rightarrow> SubscriptionItem list \<Rightarrow> SubscriptionItem list \<times> SubscriptionItem list" where
  "removeAll_loop clientID [] = ([], [])"
| "removeAll_loop clientID (i # is) =
     (if it_ClientID i = clientID then (is, [i])
      else let (is', removed) = removeAll_loop clientID is in (i # is', removed))"

definition removeAllSubscriptions :: "(string \<Rightarrow> 'm \<Rightarrow> 'm \<times> bool) \<Rightarrow> string \<Rightarrow> 'm LogHandler \<Rightarrow> 'm LogHandler" where
  "removeAllSubscriptions rem clientID h =
     (let (l, removed) = removeAll_loop clientID (SubcriptionList h)
      in \<lparr>SubcriptionList = l, Manager = fold (\<lambda>t m. fst (rem t m)) (map it_TopicID removed) (Manager h)\<rparr>)"

text \<open>
  An item as it is logged: \<open>enc\<close> is the JSON encoder of the library, \<open>fmt\<close> the format of a time by RFC 3339. A value
  that cannot be encoded is logged as the empty string.
\<close>

definition logTimestamp_MarshalJSON :: "(int \<Rightarrow> string) \<Rightarrow> int \<Rightarrow> string" where
  "logTimestamp_MarshalJSON fmt t = ''\"'' @ fmt t @ ''\"''"

definition item_String :: "(SubscriptionItem \<Rightarrow> string option) \<Rightarrow> SubscriptionItem \<Rightarrow> string" where
  "item_String enc s = (case enc s of Some r \<Rightarrow> r | None \<Rightarrow> '''')"

text \<open>The client identifiers of the connector itself, which the environment may set.\<close>

definition localClientID :: "(string \<Rightarrow> string) \<Rightarrow> string" where
  "localClientID Getenv = (if length (Getenv ''LOCAL_CLIENTID'') > 0 then Getenv ''LOCAL_CLIENTID'' else ''connector'')"

definition cloudClientID :: "(string \<Rightarrow> string) \<Rightarrow> string" where
  "cloudClientID Getenv = (if length (Getenv ''CLOUD_CLIENTID'') > 0 then Getenv ''CLOUD_CLIENTID'' else ''cloud'')"

definition string_of_bytes :: "byte list \<Rightarrow> string" where
  "string_of_bytes p = map (\<lambda>b. char_of (unat b)) p"

definition ProcessLogs ::
  "(string \<Rightarrow> string) \<Rightarrow> (string \<Rightarrow> 'm \<Rightarrow> 'm \<times> bool) \<Rightarrow> (string \<Rightarrow> 'm \<Rightarrow> 'm \<times> bool) \<Rightarrow> message \<Rightarrow> 'm LogHandler \<Rightarrow> 'm LogHandler" where
  "ProcessLogs Getenv add rem msg h =
     (case TopicFromCtx (Context msg) of
        None \<Rightarrow> h
      | Some topic \<Rightarrow>
          case ParseLogMessage topic (string_of_bytes (Payload msg)) of
            None \<Rightarrow> h
          | Some lm \<Rightarrow>
              if lm_ClientID lm = localClientID Getenv then h
              else if lm_ClientID lm = cloudClientID Getenv then h
              else case lm_Type lm of
                Subscription \<Rightarrow> addSubscription add lm h
              | UnSubscription \<Rightarrow> removeSubscription rem lm h
              | Disconnection \<Rightarrow> removeAllSubscriptions rem (lm_ClientID lm) h
              | Termination \<Rightarrow> removeAllSubscriptions rem (lm_ClientID lm) h)"

text \<open>
  What is registered with the router of the local services: the name of the handler, the topics and the subscriber its
  messages come from, and its state. The router has this handler only and no middleware.
\<close>

record 'm log_bus =
  lb_name :: string
  lb_topic :: string
  lb_subscriber :: subscriber
  lb_handler :: "'m LogHandler"

definition new_log_handler :: "'m \<Rightarrow> 'm LogHandler" where
  "new_log_handler m = \<lparr>SubcriptionList = [], Manager = m\<rparr>"

definition CreateLogHandler :: "'m \<Rightarrow> 'm log_bus" where
  "CreateLogHandler m =
     \<lparr>lb_name = ''logs_bus'', lb_topic = topicLog, lb_subscriber = NewSubscriber QosAtMostOnce True, lb_handler = new_log_handler m\<rparr>"

definition CreateServiceRouter :: "'m \<Rightarrow> 'm log_bus list" where
  "CreateServiceRouter m = [CreateLogHandler m]"

subsection \<open>Counting the items\<close>

text \<open>
  The manager counts for every topic the items of the list, and the list holds only normalised topics
  without a wildcard device, of clients other than the connector itself.
\<close>

definition item_ok :: "(string \<Rightarrow> string) \<Rightarrow> SubscriptionItem \<Rightarrow> bool" where
  "item_ok Getenv i \<longleftrightarrow>
     it_TopicID i = NormalizeTopic (it_TopicReal i) \<and> \<not> filterTopic (it_TopicID i) \<and>
     it_ClientID i \<noteq> localClientID Getenv \<and> it_ClientID i \<noteq> cloudClientID Getenv"

definition log_inv :: "(string \<Rightarrow> string) \<Rightarrow> ('m \<Rightarrow> bool) \<Rightarrow> ('m \<Rightarrow> string \<Rightarrow> nat) \<Rightarrow> 'm LogHandler \<Rightarrow> bool" where
  "log_inv Getenv minv cnt h \<longleftrightarrow>
     minv (Manager h) \<and> cnt (Manager h) = count_list (map it_TopicID (SubcriptionList h)) \<and>
     (\<forall>i \<in> set (SubcriptionList h). item_ok Getenv i)"

lemma remove_first_cases:
  "remove_first P l = (l', found) \<Longrightarrow>
     (\<not> found \<and> l' = l) \<or> (found \<and> (\<exists>a i b. l = a @ i # b \<and> l' = a @ b \<and> P i))"
proof (induction l arbitrary: l' found)
  case (Cons x l)
  show ?case
  proof (cases "P x")
    case True
    with Cons.prems have "found" "x # l = [] @ x # l" "l' = [] @ l" by auto
    with True show ?thesis by blast
  next
    case False
    with Cons.prems obtain m where m: "remove_first P l = (m, found)" "l' = x # m"
      by (auto split: prod.splits)
    from Cons.IH [OF m(1)] show ?thesis
    proof (elim disjE exE conjE)
      fix a i b
      assume "found" "l = a @ i # b" "m = a @ b" "P i"
      with m(2) have "x # l = (x # a) @ i # b" "l' = (x # a) @ b" by simp_all
      with \<open>found\<close> \<open>P i\<close> show ?thesis by blast
    qed (use m in simp)
  qed
qed simp

lemma removeAll_loop_first:
  "removeAll_loop cid l = (l', removed) \<Longrightarrow>
     (removed = [] \<and> l' = l \<and> (\<forall>i \<in> set l. it_ClientID i \<noteq> cid)) \<or>
     (\<exists>a i b. removed = [i] \<and> l = a @ i # b \<and> l' = a @ b \<and> it_ClientID i = cid \<and> (\<forall>j \<in> set a. it_ClientID j \<noteq> cid))"
proof (induction l arbitrary: l' removed)
  case (Cons x l)
  obtain m s where m: "removeAll_loop cid l = (m, s)" by (cases "removeAll_loop cid l")
  show ?case
  proof (cases "it_ClientID x = cid")
    case True
    with Cons.prems have "removed = [x] \<and> x # l = [] @ x # l \<and> l' = [] @ l" by simp
    with True show ?thesis by fastforce
  next
    case False
    with Cons.prems m have eq: "l' = x # m" "removed = s" by auto
    from Cons.IH [OF m] eq False show ?thesis
    proof (elim disjE exE conjE)
      fix a i b
      assume "s = [i]" "l = a @ i # b" "m = a @ b" "it_ClientID i = cid" "\<forall>j \<in> set a. it_ClientID j \<noteq> cid"
      with eq False show ?thesis
        by (intro disjI2 exI [of _ "x # a"] exI [of _ i] exI [of _ b]) simp
    qed simp
  qed
qed simp

lemma count_list_drop_one:
  "count_list (a @ b) = (count_list (a @ x # b))(x := count_list (a @ x # b) x - 1)"
  by (auto simp: fun_eq_iff)

context refcounting
begin

lemma addSubscription_inv:
  assumes "log_inv env minv cnt h" "lm_ClientID lm \<noteq> localClientID env" "lm_ClientID lm \<noteq> cloudClientID env"
  shows "log_inv env minv cnt (addSubscription add lm h)"
proof (cases "filterTopic (NormalizeTopic (lm_Text lm))")
  case True
  with assms(1) show ?thesis by (simp add: addSubscription_def)
next
  case False
  obtain m r where m: "add (NormalizeTopic (lm_Text lm)) (Manager h) = (m, r)"
    by (cases "add (NormalizeTopic (lm_Text lm)) (Manager h)")
  have "minv (Manager h)" using assms(1) by (simp add: log_inv_def)
  from add_law [OF this m] False assms m show ?thesis
    by (auto simp: log_inv_def item_ok_def addSubscription_def Let_def fun_eq_iff)
qed

lemma dropped_inv:
  assumes "log_inv env minv cnt h" "SubcriptionList h = a @ i # b" "rem (it_TopicID i) (Manager h) = (m, r)"
  shows "log_inv env minv cnt \<lparr>SubcriptionList = a @ b, Manager = m\<rparr>"
proof -
  have "minv (Manager h)" using assms(1) by (simp add: log_inv_def)
  from rem_law [OF this assms(3)] assms(1,2) show ?thesis
    using count_list_drop_one [of "map it_TopicID a" "map it_TopicID b" "it_TopicID i"]
    by (simp add: log_inv_def)
qed

lemma removeSubscription_inv:
  assumes "log_inv env minv cnt h"
  shows "log_inv env minv cnt (removeSubscription rem lm h)"
proof -
  let ?P = "\<lambda>i. it_ClientID i = lm_ClientID lm \<and> it_TopicReal i = lm_Text lm"
  obtain l found where l: "remove_first ?P (SubcriptionList h) = (l, found)"
    by (cases "remove_first ?P (SubcriptionList h)")
  from remove_first_cases [OF l] show ?thesis
  proof (elim disjE exE conjE)
    assume "\<not> found"
    with l assms show ?thesis by (simp add: removeSubscription_def)
  next
    fix a i b
    assume i: "found" "SubcriptionList h = a @ i # b" "l = a @ b" "it_ClientID i = lm_ClientID lm" "it_TopicReal i = lm_Text lm"
    then have "it_TopicID i = NormalizeTopic (lm_Text lm)" using assms by (simp add: log_inv_def item_ok_def)
    with dropped_inv [OF assms i(2)] l i show ?thesis
      by (cases "rem (it_TopicID i) (Manager h)") (simp add: removeSubscription_def)
  qed
qed

lemma removeAllSubscriptions_inv:
  assumes "log_inv env minv cnt h"
  shows "log_inv env minv cnt (removeAllSubscriptions rem cid h)"
proof -
  obtain l removed where l: "removeAll_loop cid (SubcriptionList h) = (l, removed)"
    by (cases "removeAll_loop cid (SubcriptionList h)")
  from removeAll_loop_first [OF l] show ?thesis
  proof (elim disjE exE conjE)
    assume "removed = []" "l = SubcriptionList h"
    with l assms show ?thesis by (simp add: removeAllSubscriptions_def log_inv_def)
  next
    fix a i b
    assume i: "removed = [i]" "SubcriptionList h = a @ i # b" "l = a @ b"
    with dropped_inv [OF assms i(2)] l show ?thesis
      by (cases "rem (it_TopicID i) (Manager h)") (simp add: removeAllSubscriptions_def)
  qed
qed

lemma ProcessLogs_inv:
  assumes "log_inv env minv cnt h"
  shows "log_inv env minv cnt (ProcessLogs env add rem msg h)"
  using assms addSubscription_inv removeSubscription_inv removeAllSubscriptions_inv
  by (auto simp: ProcessLogs_def split: option.split logMessageType.split)

lemma all_logs_inv:
  "log_inv env minv cnt h \<Longrightarrow> log_inv env minv cnt (fold (ProcessLogs env add rem) msgs h)"
  by (induction msgs arbitrary: h) (auto intro: ProcessLogs_inv)

end

subsection \<open>Recognising the log lines\<close>

lemma print_chars: "is_print CHR ''/''" "is_print CHR ''#''" "is_print CHR ''q''" "is_print CHR ''r''" "is_print CHR ''e''"
  "is_print CHR '' ''" "is_print CHR ''c''" "is_print CHR ''o''" "is_print CHR ''m''" "is_print CHR ''a''" "is_print CHR ''n''"
  "is_print CHR ''d''" "is_print CHR ''0''" "is_print CHR ''1''" "is_print CHR ''2''"
  by (simp_all add: is_print_def)

definition printable :: "string \<Rightarrow> bool" where
  "printable s \<longleftrightarrow> (\<forall>x \<in> set s. is_print x)"

text \<open>A command subscription topic in one of its four spellings.\<close>

definition command_topic :: "string \<Rightarrow> string \<Rightarrow> string \<Rightarrow> string" where
  "command_topic pre dev kind = pre @ ''//'' @ dev @ ''/'' @ kind @ ''/#''"

lemma kind_best:
  assumes "kind \<in> {''q'', ''req''}"
  shows "best (Cat (Lit ''/'') (Cat (Grp n (Alt (Lit ''q'') (Lit ''req''))) (Lit ''/#''))) (''/'' @ kind @ ''/#'')
    = Some ([(n, kind)], [])"
  using assms by (auto simp: best_def)

lemma kind_skip:
  assumes "kind \<in> {''q'', ''req''}" "0 < j" "j \<le> length (''/'' @ kind @ ''/#'')"
  shows "rx (Cat (Lit ''/'') (Cat (Grp n (Alt (Lit ''q'') (Lit ''req''))) (Lit ''/#''))) (drop j (''/'' @ kind @ ''/#'')) = []"
proof (cases "kind = ''q''")
  case True
  then have "j = 1 \<or> j = 2 \<or> j = 3 \<or> j = 4" using assms(2,3) by simp linarith
  with True show ?thesis by (elim disjE) simp_all
next
  case False
  then have k: "kind = ''req''" using assms(1) by simp
  then have "j = 1 \<or> j = 2 \<or> j = 3 \<or> j = 4 \<or> j = 5 \<or> j = 6" using assms(2,3) by simp linarith
  with k show ?thesis by (elim disjE) simp_all
qed

lemma rx_Grp_Alt: "rx (Grp n (Alt a b)) s = rx (Grp n a) s @ rx (Grp n b) s"
  by simp

lemma rx_Grp_Lit: "rx (Grp n (Lit l)) (l @ s) = [([(n, l)], s)]"
  by simp

lemma rx_Grp_Lit_no: "\<not> HasPrefix s l \<Longrightarrow> rx (Grp n (Lit l)) s = []"
  by simp

lemma prefix_best:
  assumes "pre \<in> {''c'', ''command''}" "best (Cat (Lit ''//'') e) (''//'' @ s) = Some (c, r)"
  shows "best (Cat (Grp n (Alt (Lit ''c'') (Lit ''command''))) (Cat (Lit ''//'') e)) (pre @ ''//'' @ s) = Some ((n, pre) # c, r)"
proof (cases "pre = ''c''")
  case True
  have "rx (Grp n (Lit ''command'')) (''c'' @ ''//'' @ s) = []" by (rule rx_Grp_Lit_no) simp
  then have "rx (Grp n (Alt (Lit ''c'') (Lit ''command''))) (''c'' @ ''//'' @ s) = [] @ ([(n, ''c'')], ''//'' @ s) # []"
    unfolding rx_Grp_Alt rx_Grp_Lit by simp
  from best_Cat_skip [OF this _ assms(2)] True show ?thesis by simp
next
  case False
  then have p: "pre = ''command''" using assms(1) by simp
  have c: "rx (Grp n (Lit ''c'')) (''command'' @ ''//'' @ s) = [([(n, ''c'')], ''ommand//'' @ s)]"
    using rx_Grp_Lit [of n "''c''" "''ommand//'' @ s"] by simp
  have "rx (Grp n (Alt (Lit ''c'') (Lit ''command''))) (''command'' @ ''//'' @ s) =
      [([(n, ''c'')], ''ommand//'' @ s)] @ ([(n, ''command'')], ''//'' @ s) # []"
    unfolding rx_Grp_Alt c rx_Grp_Lit by simp
  from best_Cat_skip [OF this _ assms(2)] p show ?thesis by simp
qed

lemma kind_print: "kind \<in> {''q'', ''req''} \<Longrightarrow> printable (''/'' @ kind @ ''/#'')"
  by (elim insertE emptyE) (simp_all add: printable_def print_chars)

lemma topic_best:
  assumes "pre \<in> {''c'', ''command''}" "kind \<in> {''q'', ''req''}" "dev \<noteq> []" "printable dev"
  shows "\<exists>c. best (topic_re n) (command_topic pre dev kind) = Some ((n, command_topic pre dev kind) # c, [])"
proof -
  let ?v = "''/'' @ kind @ ''/#''"
  have "\<forall>x \<in> set (dev @ ?v). is_print x"
    using assms(4) kind_print [OF assms(2)] by (simp only: set_append ball_Un printable_def)
  then have "best (Cat (Rep is_print 1 None) (Cat (Lit ''/'') (Cat (Grp (n + 2) (Alt (Lit ''q'') (Lit ''req''))) (Lit ''/#'')))) (dev @ ?v)
      = Some ([(n + 2, kind)], [])"
  proof (rule best_greedy(2))
    show "1 \<le> length dev" using assms(3) by (cases dev) auto
  qed (rule kind_skip [OF assms(2)], assumption+, rule kind_best [OF assms(2)])
  then have "best (Cat (Lit ''//'') (Cat (Rep is_print 1 None) (Cat (Lit ''/'') (Cat (Grp (n + 2) (Alt (Lit ''q'') (Lit ''req''))) (Lit ''/#'')))))
      (''//'' @ dev @ ?v) = Some ([(n + 2, kind)], [])"
    by (subst best_Cat_Lit)
  note prefix_best [OF assms(1) this, of "n + 1"]
  from best_Grp [OF this, of n] show ?thesis
    unfolding topic_re_def command_topic_def list.size diff_zero take_all_iff [THEN iffD2, OF order_refl] by blast
qed

definition no_space :: "string \<Rightarrow> bool" where
  "no_space s \<longleftrightarrow> CHR '' '' \<notin> set s"

lemma rx_space: "\<not> HasPrefix s '' '' \<Longrightarrow> rx (Cat (Lit '' '') b) s = []"
  by simp

lemma no_space_drop: "no_space t \<Longrightarrow> \<not> HasPrefix (drop i t) '' ''"
  by (metis HasPrefix_iff append_Cons in_set_dropD list.set_intros(1) no_space_def)

lemma command_topic_facts:
  assumes "pre \<in> {''c'', ''command''}" "kind \<in> {''q'', ''req''}" "printable dev" "no_space dev"
  shows "no_space (command_topic pre dev kind)" "printable (command_topic pre dev kind)"
    "\<exists>t. command_topic pre dev kind = CHR ''c'' # t"
proof -
  show "no_space (command_topic pre dev kind)"
    using assms(1,2,4) by (elim insertE emptyE) (simp_all add: no_space_def command_topic_def)
  show "printable (command_topic pre dev kind)"
    using assms(1-3) by (elim insertE emptyE) (simp_all add: printable_def command_topic_def print_chars)
  show "\<exists>t. command_topic pre dev kind = CHR ''c'' # t"
    using assms(1) by (elim insertE emptyE) (simp_all add: command_topic_def)
qed

text \<open>The client is the longest prefix that leaves the rest of the line.\<close>

lemma line_best:
  assumes "\<forall>x \<in> set ts. is_digit x" "6 \<le> length ts" "length ts \<le> 11"
    and "cid \<noteq> []" "printable cid" "printable w"
    and "\<And>j. 0 < j \<Longrightarrow> rx e (drop j w) = []" "best e w = Some (c, r)"
  shows "best (Cat time_re (Cat (Lit '': '') (Cat (Grp 2 (Rep is_print 1 None)) e))) (ts @ '': '' @ cid @ w)
    = Some ((1, ts) # (2, cid) # c, r)"
proof -
  have "best (Cat (Grp 2 (Rep is_print 1 None)) e) (cid @ w) = Some ((2, cid) # c, r)"
  proof (rule best_greedy(1))
    show "\<forall>x \<in> set (cid @ w). is_print x" using assms(5,6) by (simp only: set_append ball_Un printable_def)
    show "1 \<le> length cid" using assms(4) by (cases cid) auto
  qed (use assms(7,8) in blast)+
  then have "best (Cat (Lit '': '') (Cat (Grp 2 (Rep is_print 1 None)) e)) ('': '' @ cid @ w) = Some ((2, cid) # c, r)"
    by (subst best_Cat_Lit)
  then have "best (Cat (Lit '': '') (Cat (Grp 2 (Rep is_print 1 None)) e)) (CHR '':'' # '' '' @ cid @ w) = Some ((2, cid) # c, r)"
    by (simp only: append.simps)
  moreover have "\<not> is_digit CHR '':''" by (simp add: is_digit_def)
  ultimately have "best (Cat (Grp 1 (Rep is_digit 6 (Some 11))) (Cat (Lit '': '') (Cat (Grp 2 (Rep is_print 1 None)) e)))
      (ts @ CHR '':'' # '' '' @ cid @ w) = Some ((1, ts) # (2, cid) # c, r)"
    using assms(1-3) by (intro best_bounded)
  then show ?thesis by (simp only: time_re_def append.simps)
qed

lemma qos_skip:
  assumes "is_qos q" "no_space t" "t = CHR ''c'' # t'" "0 < j"
  shows "rx (Cat (Lit '' '') (Cat (Grp 3 (Rep is_qos 1 (Some 1))) e)) (drop j ('' '' @ [q] @ '' '' @ t)) = []"
proof -
  consider "j = 1" | "j = 2" | i where "j = Suc (Suc (Suc i))"
    using assms(4) by (metis One_nat_def Suc_1 gr0_conv_Suc nat.exhaust)
  then show ?thesis
  proof cases
    case 1
    then show ?thesis using assms(1) by (intro rx_space) (auto simp: is_qos_def)
  next
    case 2
    then show ?thesis using assms(3) by (simp add: is_qos_def numeral_2_eq_2)
  next
    case 3
    then show ?thesis using no_space_drop [OF assms(2), of i] by (intro rx_space) simp
  qed
qed

lemma qos_best:
  assumes "is_qos q" "best e t = Some (c, r)"
  shows "best (Cat (Lit '' '') (Cat (Grp 3 (Rep is_qos 1 (Some 1))) (Cat (Lit '' '') e))) ('' '' @ [q] @ '' '' @ t)
    = Some ((3, [q]) # c, r)"
proof -
  have "best (Cat (Lit '' '') e) ('' '' @ t) = Some (c, r)" using assms(2) by (subst best_Cat_Lit)
  then have "best (Cat (Grp 3 (Rep is_qos 1 (Some 1))) (Cat (Lit '' '') e)) ([q] @ CHR '' '' # t) = Some ((3, [q]) # c, r)"
    using assms(1) by (intro best_bounded) (auto simp: is_qos_def)
  then show ?thesis by (subst best_Cat_Lit) simp
qed

subsection \<open>Properties of the log handler\<close>

lemma parse_line_ok:
  assumes "FindStringSubmatch e s = Some c" "submatch c 1 = ts" "submatch c 2 = cid" "submatch c g = text"
    and "\<forall>x \<in> set ts. is_digit x" "6 \<le> length ts" "length ts \<le> 11"
  shows "parse_line e g ty s = Some \<lparr>lm_ClientID = cid, lm_Timestamp = int (digits_val ts), lm_Text = text, lm_Type = ty\<rparr>"
proof -
  have "Atoi ts = Some (int (digits_val ts))" using assms(5-7) by (intro Atoi_digits) auto
  with assms(1-4) show ?thesis by (simp add: parse_line_def parseLogTimestamp_def)
qed

lemma subscribe_line:
  assumes "\<forall>x \<in> set ts. is_digit x" "6 \<le> length ts" "length ts \<le> 11" "cid \<noteq> []" "printable cid" "is_qos q"
    and "no_space t" "printable t" "t = CHR ''c'' # t'" "best (topic_re 4) t = Some ((4, t) # c, [])"
  shows "parse_line subscribeRegexp 4 ty (ts @ '': '' @ cid @ '' '' @ [q] @ '' '' @ t) =
    Some \<lparr>lm_ClientID = cid, lm_Timestamp = int (digits_val ts), lm_Text = t, lm_Type = ty\<rparr>"
proof -
  have p: "printable ('' '' @ [q] @ '' '' @ t)"
    using assms(6,8) by (auto simp: printable_def is_qos_def print_chars)
  note line_best [OF assms(1-5) p qos_skip [OF assms(6,7,9)] qos_best [OF assms(6,10)]]
  then have "FindStringSubmatch subscribeRegexp (ts @ '': '' @ cid @ '' '' @ [q] @ '' '' @ t)
      = Some ((1, ts) # (2, cid) # (3, [q]) # (4, t) # c)"
    unfolding subscribeRegexp_def by (rule FindStringSubmatch_here)
  then show ?thesis by (rule parse_line_ok) (use assms(1-3) in \<open>simp_all add: submatch_def\<close>)
qed

lemma unsubscribe_line:
  assumes "\<forall>x \<in> set ts. is_digit x" "6 \<le> length ts" "length ts \<le> 11" "cid \<noteq> []" "printable cid"
    and "no_space t" "printable t" "best (topic_re 3) t = Some ((3, t) # c, [])"
  shows "parse_line unsubscribeRegexp 3 ty (ts @ '': '' @ cid @ '' '' @ t) =
    Some \<lparr>lm_ClientID = cid, lm_Timestamp = int (digits_val ts), lm_Text = t, lm_Type = ty\<rparr>"
proof -
  have p: "printable ('' '' @ t)" using assms(7) by (simp add: printable_def print_chars)
  have skip: "rx (Cat (Lit '' '') (topic_re 3)) (drop j ('' '' @ t)) = []" if "0 < j" for j
    using no_space_drop [OF assms(6), of "j - 1"] that by (intro rx_space) (cases j, simp_all)
  have "best (Cat (Lit '' '') (topic_re 3)) ('' '' @ t) = Some ((3, t) # c, [])" using assms(8) by (subst best_Cat_Lit)
  from line_best [OF assms(1-5) p skip this]
  have "FindStringSubmatch unsubscribeRegexp (ts @ '': '' @ cid @ '' '' @ t) = Some ((1, ts) # (2, cid) # (3, t) # c)"
    unfolding unsubscribeRegexp_def by (rule FindStringSubmatch_here)
  then show ?thesis by (rule parse_line_ok) (use assms(1-3) in \<open>simp_all add: submatch_def\<close>)
qed

lemma log_line_parsed:
  assumes "\<forall>x \<in> set ts. is_digit x" "6 \<le> length ts" "length ts \<le> 11"
    and "cid \<noteq> []" "printable cid" "is_qos q"
    and "pre \<in> {''c'', ''command''}" "kind \<in> {''q'', ''req''}" "dev \<noteq> []" "printable dev" "no_space dev"
  shows "ParseLogMessage TopicLogSubscribe (ts @ '': '' @ cid @ '' '' @ [q] @ '' '' @ command_topic pre dev kind) =
      Some \<lparr>lm_ClientID = cid, lm_Timestamp = int (digits_val ts), lm_Text = command_topic pre dev kind, lm_Type = Subscription\<rparr>"
    and "ParseLogMessage TopicLogUnsubscribe (ts @ '': '' @ cid @ '' '' @ command_topic pre dev kind) =
      Some \<lparr>lm_ClientID = cid, lm_Timestamp = int (digits_val ts), lm_Text = command_topic pre dev kind, lm_Type = UnSubscription\<rparr>"
proof -
  note t = command_topic_facts [OF assms(7,8,10,11)]
  obtain t' where t': "command_topic pre dev kind = CHR ''c'' # t'" using t(3) by blast
  obtain c d where b: "best (topic_re 4) (command_topic pre dev kind) = Some ((4, command_topic pre dev kind) # c, [])"
    "best (topic_re 3) (command_topic pre dev kind) = Some ((3, command_topic pre dev kind) # d, [])"
    using topic_best [OF assms(7-10)] by meson
  show "ParseLogMessage TopicLogSubscribe (ts @ '': '' @ cid @ '' '' @ [q] @ '' '' @ command_topic pre dev kind) =
      Some \<lparr>lm_ClientID = cid, lm_Timestamp = int (digits_val ts), lm_Text = command_topic pre dev kind, lm_Type = Subscription\<rparr>"
    using subscribe_line [OF assms(1-6) t(1,2) t' b(1)] by (simp only: ParseLogMessage_def if_True refl)
  have "TopicLogUnsubscribe \<noteq> TopicLogSubscribe" by (simp add: TopicLogSubscribe_def TopicLogUnsubscribe_def)
  then show "ParseLogMessage TopicLogUnsubscribe (ts @ '': '' @ cid @ '' '' @ command_topic pre dev kind) =
      Some \<lparr>lm_ClientID = cid, lm_Timestamp = int (digits_val ts), lm_Text = command_topic pre dev kind, lm_Type = UnSubscription\<rparr>"
    using unsubscribe_line [OF assms(1-5) t(1,2) b(2)] by (simp only: ParseLogMessage_def if_True if_False refl)
qed



text \<open>The handler at the start, on a manager that counts nothing.\<close>

lemma new_log_inv: "sm_inv m \<Longrightarrow> sm_cnt m = (\<lambda>_. 0) \<Longrightarrow> log_inv env sm_inv sm_cnt (new_log_handler m)"
  by (simp add: log_inv_def new_log_handler_def fun_eq_iff)

text \<open>Every topic whose messages the handler understands lies below the stem of its filter.\<close>

lemma log_topics_covered: "ParseLogMessage topic line = Some lm \<Longrightarrow> HasPrefix topic (butlast topicLog) \<and> last topicLog = CHR ''#''"
  by (auto simp: ParseLogMessage_def TopicLogSubscribe_def TopicLogUnsubscribe_def TopicLogNoticeLevel_def topicLog_def HasPrefix_def
      split: if_splits)

text \<open>The hub client holds what is listed, and log messages do not change which client that is.\<close>

lemma log_inv_held:
  assumes "log_inv env sm_inv sm_cnt h" "sm_conn (Manager h) = Some i"
  shows "held (conns (Manager h) i) = set (map it_TopicID (SubcriptionList h))"
proof -
  have cnt: "sm_cnt (Manager h) = count_list (map it_TopicID (SubcriptionList h))" and sm: "sm_inv (Manager h)"
    using assms(1) by (simp_all add: log_inv_def)
  have "Mapping.keys (sm_topics (Manager h)) = {t. 0 < sm_cnt (Manager h) t}"
    using sm by (force simp: sm_inv_def sm_cnt_def in_keys_lookup split: option.splits)
  also have "\<dots> = set (map it_TopicID (SubcriptionList h))"
    unfolding cnt using count_list_0_iff by (metis (lifting) Collect_cong Collect_mem_eq gr0I less_numeral_extra(3))
  finally show ?thesis using sm assms(2) by (simp add: sm_inv_def)
qed

lemma sm_conn_kept: "sm_conn (fst (sm_Add t m)) = sm_conn m" "sm_conn (fst (sm_Remove t m)) = sm_conn m"
  by (auto simp: sm_Add_def sm_add0_def sm_Remove_def sm_remove0_def Let_def split: option.split)

lemma logs_conn: "sm_conn (Manager (fold (ProcessLogs env sm_Add sm_Remove) msgs h)) = sm_conn (Manager h)"
proof -
  have all: "sm_conn (fold (\<lambda>t m. fst (sm_Remove t m)) ts m) = sm_conn m" for ts m
    by (induction ts arbitrary: m) (simp_all add: sm_conn_kept)
  have one: "sm_conn (Manager (ProcessLogs env sm_Add sm_Remove msg h)) = sm_conn (Manager h)" for msg h
    by (simp add: ProcessLogs_def addSubscription_def removeSubscription_def removeAllSubscriptions_def sm_conn_kept all Let_def
        split: option.split logMessageType.split prod.split)
  show ?thesis by (induction msgs arbitrary: h) (simp_all add: one)
qed

text \<open>
  (C8) Whatever the broker logs, list, counts and hub agree: after any sequence of log messages the
  manager counts for each topic the listed subscriptions of that topic, the connection it forwards to
  holds exactly the listed topics, and no listed subscription has a wildcard device or belongs to
  one of the connector's own clients.
\<close>

theorem log_handler_mirrors:
  assumes "sm_inv m" "sm_cnt m = (\<lambda>_. 0)"
  shows "let h = fold (ProcessLogs env sm_Add sm_Remove) msgs (new_log_handler m);
             ids = map it_TopicID (SubcriptionList h)
    in (\<forall>t. sm_cnt (Manager h) t = count_list ids t) \<and>
       (\<forall>i. sm_conn (Manager h) = Some i \<longrightarrow> held (conns (Manager h) i) = set ids) \<and>
       (\<forall>s \<in> set (SubcriptionList h). it_TopicID s = NormalizeTopic (it_TopicReal s) \<and>
          \<not> Contains (it_TopicID s) ''/+/'' \<and> it_ClientID s \<notin> {localClientID env, cloudClientID env})"
proof -
  define h where "h = fold (ProcessLogs env sm_Add sm_Remove) msgs (new_log_handler m)"
  have inv: "log_inv env sm_inv sm_cnt h"
    unfolding h_def using new_log_inv [OF assms] by (rule manager.all_logs_inv)
  then have cnt: "sm_cnt (Manager h) = count_list (map it_TopicID (SubcriptionList h))" by (simp add: log_inv_def)
  have "\<forall>i. sm_conn (Manager h) = Some i \<longrightarrow> held (conns (Manager h) i) = set (map it_TopicID (SubcriptionList h))"
    using log_inv_held [OF inv] by blast
  with cnt inv show ?thesis
    unfolding Let_def h_def [symmetric] by (auto simp: log_inv_def item_ok_def filterTopic_def)
qed

text \<open>The line in which the broker reports a subscription, for the witnesses.\<close>

definition sample_log :: message where
  "sample_log = SetContext (NewMessage ''1'' (map of_char (''1612864911'' @ '': '' @ ''app'' @ '' '' @ ''0'' @ '' '' @ command_topic ''c'' ''dev'' ''q'')))
     (SetTopicToCtx Background TopicLogSubscribe)"

lemma string_of_bytes_of_char: "string_of_bytes (map of_char s) = s"
proof -
  have "unat (of_nat (of_char c) :: byte) = of_char c mod 256" for c by (subst unat_of_nat) simp
  then have "unat (of_char c :: byte) = of_char c" for c by (simp only: of_nat_of_char of_char_mod_256)
  then show ?thesis by (simp add: string_of_bytes_def comp_def)
qed

lemma sample_log_processed:
  "ProcessLogs (\<lambda>_. []) sm_Add sm_Remove sample_log (new_log_handler m) =
     \<lparr>SubcriptionList = [\<lparr>it_ClientID = ''app'', it_Timestamp = int (digits_val ''1612864911''), it_TopicID = ''command//dev/req/#'',
        it_TopicReal = ''c//dev/q/#''\<rparr>], Manager = fst (sm_Add ''command//dev/req/#'' m)\<rparr>"
proof -
  have "ParseLogMessage TopicLogSubscribe (''1612864911'' @ '': '' @ ''app'' @ '' '' @ [CHR ''0''] @ '' '' @ command_topic ''c'' ''dev'' ''q'') =
      Some \<lparr>lm_ClientID = ''app'', lm_Timestamp = int (digits_val ''1612864911''), lm_Text = command_topic ''c'' ''dev'' ''q'', lm_Type = Subscription\<rparr>"
    by (rule log_line_parsed(1)) (simp_all add: is_digit_def printable_def is_print_def no_space_def is_qos_def)
  moreover have "TopicFromCtx (Context sample_log) = Some TopicLogSubscribe"
    "string_of_bytes (Payload sample_log) = ''1612864911'' @ '': '' @ ''app'' @ '' '' @ [CHR ''0''] @ '' '' @ command_topic ''c'' ''dev'' ''q''"
    by (simp_all only: sample_log_def SetContext_sel NewMessage_sel string_of_bytes_of_char) simp
  moreover have "NormalizeTopic (command_topic ''c'' ''dev'' ''q'') = ''command//dev/req/#''" "command_topic ''c'' ''dev'' ''q'' = ''c//dev/q/#''"
    by (simp_all add: command_topic_def NormalizeTopic_def HasPrefix_def HasSuffix_def)
  moreover have "\<not> filterTopic ''command//dev/req/#''" by (simp add: filterTopic_def Contains_def HasPrefix_def)
  ultimately show ?thesis
    by (simp add: ProcessLogs_def localClientID_def cloudClientID_def addSubscription_def new_log_handler_def Let_def)
qed

theorem log_handler_mirrors_witness:
  "sm_cnt (Manager (fold (ProcessLogs (\<lambda>_. []) sm_Add sm_Remove) [sample_log] (new_log_handler (NewSubscriptionManager (\<lambda>_. empty_conn)))))
     ''command//dev/req/#'' = 1"
proof -
  let ?m = "NewSubscriptionManager (\<lambda>_ :: nat. empty_conn)"
  have "sm_inv ?m" using empty_conn_inv by (intro sm_inv_new) simp
  moreover have "sm_cnt ?m = (\<lambda>_. 0)" by (simp add: sm_cnt_def NewSubscriptionManager_def fun_eq_iff)
  moreover have "map it_TopicID (SubcriptionList (ProcessLogs (\<lambda>_. []) sm_Add sm_Remove sample_log (new_log_handler ?m))) = [''command//dev/req/#'']"
    unfolding sample_log_processed by simp
  ultimately show ?thesis
    using log_handler_mirrors [of ?m "\<lambda>_. []" "[sample_log]"] by (simp add: Let_def)
qed

text \<open>
  A disconnect forgets one subscription only: of the subscriptions of a client that has gone,
  \<open>removeAllSubscriptions\<close> removes the first and leaves the others listed, counted and
  forwarded, because the iteration ends at the element it has removed.
\<close>

lemma disconnect_forgets_one:
  "length (filter (\<lambda>i. it_ClientID i = cid) (SubcriptionList (removeAllSubscriptions rem cid h))) =
   length (filter (\<lambda>i. it_ClientID i = cid) (SubcriptionList h)) - 1"
proof -
  obtain l removed where l: "removeAll_loop cid (SubcriptionList h) = (l, removed)"
    by (cases "removeAll_loop cid (SubcriptionList h)")
  then have eq: "SubcriptionList (removeAllSubscriptions rem cid h) = l" by (simp add: removeAllSubscriptions_def)
  from removeAll_loop_first [OF l] show ?thesis unfolding eq by (auto simp: filter_empty_conv)
qed

end
