(* ===== verification/Publisher.thy ===== *)
theory Publisher
  imports Messages
begin

text \<open>
  Publishing: \<^verbatim>\<open>src/connector/publisher.go\<close>, \<^verbatim>\<open>src/connector/ratelimiter.go\<close>,
  \<^verbatim>\<open>src/connector/publisher_mock.go\<close> and the life cycle of \<^verbatim>\<open>src/connector/wrapper.go\<close>.
  The MQTT client is seen as the list of packets handed to it and, for each, what its token says within
  the acknowledgement timeout. The interface \<^verbatim>\<open>message.Publisher\<close> is the locale
  \<open>message_publisher\<close>; the rate limiter is a client of it.
\<close>

subsection \<open>Publisher\<close>

record packet =
  pk_topic :: string
  pk_qos :: byte
  pk_retain :: bool
  pk_payload :: "byte list"

text \<open>What waiting for a token yields: no answer in time, an error, or success.\<close>

datatype token = TokenTimeout | TokenError string | TokenDone

datatype pub_error = ErrClosed | ErrTimeout | ErrNotConnected | MarshalFailed | PublishError string

text \<open>\<open>closed\<close> is the flag of the wrapper; \<open>sent\<close> the packets handed to the client.\<close>

record publisher =
  pb_closed :: bool
  pb_qos :: Qos
  pb_ackTimeout :: duration
  pb_sent :: "packet list"

definition newPublisher :: "Qos \<Rightarrow> duration \<Rightarrow> publisher" where
  "newPublisher qos ackTimeout = \<lparr>pb_closed = False, pb_qos = qos, pb_ackTimeout = ackTimeout, pb_sent = []\<rparr>"

definition NewPublisher :: "Qos \<Rightarrow> publisher" where
  "NewPublisher qos = newPublisher qos 0"

definition NewSyncPublisher :: "Qos \<Rightarrow> duration \<Rightarrow> publisher" where
  "NewSyncPublisher qos ackTimeout = newPublisher qos ackTimeout"

definition packet_of :: "Qos \<Rightarrow> string \<Rightarrow> byte list \<Rightarrow> message \<Rightarrow> packet" where
  "packet_of qos topic payload msg =
     \<lparr>pk_topic = (case TopicFromCtx (Context msg) of
                    Some msgTopic \<Rightarrow> if length msgTopic > 0 then msgTopic else topic | None \<Rightarrow> topic),
      pk_qos = (case QosFromCtx (Context msg) of Some q \<Rightarrow> q | None \<Rightarrow> qos),
      pk_retain = RetainFromCtx (Context msg), pk_payload = payload\<rparr>"

text \<open>\<open>tok n\<close> is the answer to the \<open>n\<close>-th packet handed to the client.\<close>

fun publish_loop ::
  "(message \<Rightarrow> 'e + byte list) \<Rightarrow> (nat \<Rightarrow> token) \<Rightarrow> string \<Rightarrow> message list \<Rightarrow> publisher \<Rightarrow> publisher \<times> pub_error option" where
  "publish_loop marshal tok topic [] p = (p, None)"
| "publish_loop marshal tok topic (msg # msgs) p =
     (case marshal msg of
        Inl _ \<Rightarrow> (p, Some MarshalFailed)
      | Inr payload \<Rightarrow>
          let k = packet_of (pb_qos p) topic payload msg;
              answer = tok (length (pb_sent p));
              p1 = p\<lparr>pb_sent := pb_sent p @ [k]\<rparr>
          in if pb_ackTimeout p > 0 \<and> pk_qos k \<noteq> QosAtMostOnce
             then case answer of
                    TokenTimeout \<Rightarrow> (p1, Some ErrTimeout)
                  | TokenError e \<Rightarrow> (p1, Some (PublishError e))
                  | TokenDone \<Rightarrow> publish_loop marshal tok topic msgs p1
             else publish_loop marshal tok topic msgs p1)"

definition Publish ::
  "(message \<Rightarrow> 'e + byte list) \<Rightarrow> (nat \<Rightarrow> token) \<Rightarrow> string \<Rightarrow> message list \<Rightarrow> publisher \<Rightarrow> publisher \<times> pub_error option" where
  "Publish marshal tok topic msgs p =
     (if pb_closed p then (p, Some ErrClosed) else publish_loop marshal tok topic msgs p)"

text \<open>\<^verbatim>\<open>wrapper.doClose\<close> answers whether it was closed before; \<^verbatim>\<open>Close\<close> never fails.\<close>

definition wrapper_doClose :: "publisher \<Rightarrow> publisher \<times> bool" where
  "wrapper_doClose p = (p\<lparr>pb_closed := True\<rparr>, pb_closed p)"

definition wrapper_Close :: "publisher \<Rightarrow> publisher" where
  "wrapper_Close p = fst (wrapper_doClose p)"

definition onlinepub_Publish ::
  "bool \<Rightarrow> (message \<Rightarrow> 'e + byte list) \<Rightarrow> (nat \<Rightarrow> token) \<Rightarrow> string \<Rightarrow> message list \<Rightarrow> publisher \<Rightarrow> publisher \<times> pub_error option" where
  "onlinepub_Publish isConnected marshal tok topic msgs p =
     (if \<not> isConnected then (p, Some ErrNotConnected) else Publish marshal tok topic msgs p)"

text \<open>The online publisher is its synchronous publisher; whether its connection is open is asked at each publish.\<close>

definition NewOnlinePublisher :: "Qos \<Rightarrow> duration \<Rightarrow> publisher" where
  "NewOnlinePublisher qos ackTimeout = NewSyncPublisher qos ackTimeout"

definition onlinepub_Close :: "publisher \<Rightarrow> publisher" where
  "onlinepub_Close p = wrapper_Close p"

subsection \<open>Mock publishers\<close>

definition nullpublisher_Publish :: "string \<Rightarrow> message list \<Rightarrow> pub_error option" where
  "nullpublisher_Publish topic msgs = None"

definition nullpublisher_Close :: "pub_error option" where
  "nullpublisher_Close = None"

text \<open>The state of the failing publisher is its closed flag, next to the error it was created with.\<close>

definition NewErrPublisher :: "pub_error \<Rightarrow> pub_error \<times> bool" where
  "NewErrPublisher err = (err, False)"

definition errpublisher_Publish :: "pub_error \<Rightarrow> string \<Rightarrow> message list \<Rightarrow> bool \<Rightarrow> pub_error option" where
  "errpublisher_Publish err topic msgs is_closed = (if is_closed then Some ErrClosed else Some err)"

definition errpublisher_Close :: "bool \<Rightarrow> bool \<times> pub_error option" where
  "errpublisher_Close is_closed = (if \<not> is_closed then (True, None) else (is_closed, Some ErrClosed))"

subsection \<open>Rate limiter\<close>

datatype rate_error = MessageCancelled string | PublishFailed string pub_error

text \<open>
  \<open>pub\<close> is the publisher it wraps and \<open>wait n\<close> tells whether the limiter lets the \<open>n\<close>-th
  message of the call pass before its context is done. The collected errors are the Go multi-error.
\<close>

fun rate_loop ::
  "(string \<Rightarrow> message list \<Rightarrow> 's \<Rightarrow> 's \<times> pub_error option) \<Rightarrow> (nat \<Rightarrow> bool) \<Rightarrow> string \<Rightarrow> nat \<Rightarrow> message list \<Rightarrow> 's
   \<Rightarrow> 's \<times> rate_error list" where
  "rate_loop pub wait topic n [] s = (s, [])"
| "rate_loop pub wait topic n (msg # msgs) s =
     (if \<not> wait n
      then (case rate_loop pub wait topic (n + 1) msgs s of (s', es) \<Rightarrow> (s', MessageCancelled (UUID msg) # es))
      else case pub topic [msg] s of
        (s1, Some e) \<Rightarrow> (case rate_loop pub wait topic (n + 1) msgs s1 of (s', es) \<Rightarrow> (s', PublishFailed (UUID msg) e # es))
      | (s1, None) \<Rightarrow> rate_loop pub wait topic (n + 1) msgs s1)"

definition ratelimiter_Publish ::
  "(string \<Rightarrow> message list \<Rightarrow> 's \<Rightarrow> 's \<times> pub_error option) \<Rightarrow> (nat \<Rightarrow> bool) \<Rightarrow> string \<Rightarrow> message list \<Rightarrow> 's
   \<Rightarrow> 's \<times> rate_error list" where
  "ratelimiter_Publish pub wait topic msgs s = rate_loop pub wait topic 0 msgs s"

text \<open>
  \<^verbatim>\<open>rate.Every(duration/time.Duration(count))\<close>: the interval between two messages; the division
  by zero panics.
\<close>

definition rate_interval :: "int \<Rightarrow> duration \<Rightarrow> duration outcome" where
  "rate_interval cnt d = (if cnt = 0 then Inl (Explicit ''integer divide by zero'') else Inr (sgn d * sgn cnt * (\<bar>d\<bar> div \<bar>cnt\<bar>)))"

text \<open>A publisher that is \<^verbatim>\<open>nil\<close> is \<open>None\<close>. The limiter is the publisher with the interval.\<close>

definition NewRateLimiter :: "'p option \<Rightarrow> int \<Rightarrow> duration \<Rightarrow> ('p \<times> duration) outcome" where
  "NewRateLimiter pub cnt d =
     (case pub of
        None \<Rightarrow> Inl (Explicit ''No Publisher'')
      | Some p \<Rightarrow> and_then (rate_interval cnt d) (\<lambda>every. Inr (p, every)))"

definition ratelimiter_Close :: "('p \<Rightarrow> 'p \<times> 'e) \<Rightarrow> 'p \<times> duration \<Rightarrow> ('p \<times> duration) \<times> 'e" where
  "ratelimiter_Close closePub l = (case closePub (fst l) of (p, e) \<Rightarrow> ((p, snd l), e))"

subsection \<open>The interface\<close>

text \<open>
  What a client relies on when it publishes one message: the packets accepted so far only grow, by at
  most that message's packet, and by exactly that one if there is no error.
\<close>

locale message_publisher =
  fixes publish :: "string \<Rightarrow> message list \<Rightarrow> 's \<Rightarrow> 's \<times> pub_error option"
    and accepted :: "'s \<Rightarrow> 'k list"
    and key :: "'s \<Rightarrow> string \<Rightarrow> message \<Rightarrow> 'k"
  assumes one: "publish t [m] s = (s', e) \<Longrightarrow>
      (accepted s' = accepted s @ [key s t m] \<or> accepted s' = accepted s \<and> e \<noteq> None)"
    and stable: "publish t [m] s = (s', e) \<Longrightarrow> key s' = key s"
begin

text \<open>Rate limiting reorders and duplicates nothing and reports each message it did not pass on.\<close>

lemma rate_loop_accepted:
  "rate_loop publish wait t n msgs s = (s', es) \<Longrightarrow>
     \<exists>keep. accepted s' = accepted s @ map (\<lambda>i. key s t (msgs ! i)) keep \<and> sorted_wrt (<) keep \<and>
       (\<forall>i \<in> set keep. i < length msgs) \<and> length msgs \<le> length keep + length es \<and>
       (es = [] \<longrightarrow> keep = [0..<length msgs])"
proof (induction msgs arbitrary: n s s' es)
  case (Cons msg msgs)
  define s1 where "s1 = (if wait n then fst (publish t [msg] s) else s)"
  define err where "err = (if wait n then snd (publish t [msg] s) \<noteq> None else True)"
  obtain es1 where es1: "rate_loop publish wait t (n + 1) msgs s1 = (s', es1)" "if err then \<exists>e. es = e # es1 else es = es1"
    using Cons.prems by (auto simp: s1_def err_def split: if_splits prod.splits option.splits)
  obtain keep where k: "accepted s' = accepted s1 @ map (\<lambda>i. key s1 t (msgs ! i)) keep" "sorted_wrt (<) keep"
      "\<forall>i \<in> set keep. i < length msgs" "length msgs \<le> length keep + length es1" "es1 = [] \<longrightarrow> keep = [0..<length msgs]"
    using Cons.IH [OF es1(1)] by blast
  have key: "key s1 = key s"
    using stable [of t msg s] by (cases "publish t [msg] s") (simp add: s1_def)
  have shift: "sorted_wrt (<) (map Suc keep)" "sorted_wrt (<) (0 # map Suc keep)"
    using k(2) by (simp_all add: sorted_wrt_map)
  have acc: "accepted s1 = accepted s @ [key s t msg] \<or> accepted s1 = accepted s \<and> err"
    using one [of t msg s] by (cases "publish t [msg] s") (auto simp: s1_def err_def)
  then show ?case
  proof
    assume "accepted s1 = accepted s @ [key s t msg]"
    then have "accepted s' = accepted s @ map (\<lambda>i. key s t ((msg # msgs) ! i)) (0 # map Suc keep)"
      using k(1) key by simp
    moreover have "es = [] \<longrightarrow> 0 # map Suc keep = [0..<length (msg # msgs)]"
      using es1(2) k(5) upt_conv_Cons [of 0 "Suc (length msgs)"] by (auto simp del: upt_Suc simp: map_Suc_upt split: if_splits)
    ultimately show ?thesis
      using k shift es1(2) by (intro exI [of _ "0 # map Suc keep"]) (auto split: if_splits)
  next
    assume "accepted s1 = accepted s \<and> err"
    then have "accepted s' = accepted s @ map (\<lambda>i. key s t ((msg # msgs) ! i)) (map Suc keep)" "err"
      using k(1) key by simp_all
    then show ?thesis
      using k shift es1(2) by (intro exI [of _ "map Suc keep"]) auto
  qed
qed simp

end

subsection \<open>Lemmas on publishing\<close>

definition packets :: "(message \<Rightarrow> 'e + byte list) \<Rightarrow> Qos \<Rightarrow> string \<Rightarrow> message list \<Rightarrow> packet list" where
  "packets marshal qos topic msgs = map (\<lambda>m. packet_of qos topic (projr (marshal m)) m) msgs"

lemma publish_loop_sent:
  "publish_loop marshal tok topic msgs p = (p', e) \<Longrightarrow>
     \<exists>k \<le> length msgs. p' = p\<lparr>pb_sent := pb_sent p @ packets marshal (pb_qos p) topic (take k msgs)\<rparr> \<and>
       (e = None \<longrightarrow> k = length msgs) \<and> (\<forall>m \<in> set (take k msgs). \<not> isl (marshal m))"
proof (induction marshal tok topic msgs p rule: publish_loop.induct)
  case (2 marshal tok topic msg msgs p)
  show ?case
  proof (cases "marshal msg")
    case (Inl x)
    with "2.prems" show ?thesis by (intro exI [of _ 0]) (auto simp: packets_def)
  next
    case (Inr payload)
    let ?k = "packet_of (pb_qos p) topic payload msg"
    let ?p = "p\<lparr>pb_sent := pb_sent p @ [?k]\<rparr>"
    have "publish_loop marshal tok topic msgs ?p = (p', e) \<or> p' = ?p \<and> e \<noteq> None"
      using "2.prems" Inr by (auto simp: Let_def split: if_splits token.splits)
    then show ?thesis
    proof
      assume loop: "publish_loop marshal tok topic msgs ?p = (p', e)"
      have "\<exists>k \<le> length msgs. p' = ?p\<lparr>pb_sent := pb_sent ?p @ packets marshal (pb_qos ?p) topic (take k msgs)\<rparr> \<and>
          (e = None \<longrightarrow> k = length msgs) \<and> (\<forall>m \<in> set (take k msgs). \<not> isl (marshal m))"
      proof (cases "pb_ackTimeout p > 0 \<and> pk_qos ?k \<noteq> QosAtMostOnce")
        case True
        then show ?thesis
        proof (cases "tok (length (pb_sent p))")
          case TokenDone
          with "2.IH"(1) [OF Inr refl refl refl True _ loop] show ?thesis by blast
        qed (use "2.prems" Inr True in \<open>auto simp: Let_def packets_def intro: exI [of _ 0]\<close>)
      next
        case False
        from "2.IH"(2) [OF Inr refl refl refl False loop] show ?thesis .
      qed
      then obtain k where "k \<le> length msgs" "p' = ?p\<lparr>pb_sent := pb_sent ?p @ packets marshal (pb_qos ?p) topic (take k msgs)\<rparr>"
        "e = None \<longrightarrow> k = length msgs" "\<forall>m \<in> set (take k msgs). \<not> isl (marshal m)" by blast
      with Inr show ?thesis by (intro exI [of _ "Suc k"]) (auto simp: packets_def)
    next
      assume "p' = ?p \<and> e \<noteq> None"
      with Inr show ?thesis by (intro exI [of _ 1]) (auto simp: packets_def)
    qed
  qed
qed (auto simp: packets_def)

lemma Publish_one:
  assumes "Publish defMarshal tok t [m] p = (p', e)"
  shows "(pb_sent p' = pb_sent p @ [packet_of (pb_qos p) t (Payload m) m] \<or> pb_sent p' = pb_sent p \<and> e \<noteq> None) \<and>
    pb_qos p' = pb_qos p"
proof (cases "pb_closed p")
  case True
  with assms show ?thesis by (auto simp: Publish_def)
next
  case False
  with assms publish_loop_sent [of defMarshal tok t "[m]" p p' e] obtain k where
    "k \<le> 1" "p' = p\<lparr>pb_sent := pb_sent p @ packets defMarshal (pb_qos p) t (take k [m])\<rparr>" "e = None \<longrightarrow> k = 1"
    by (auto simp: Publish_def)
  then show ?thesis by (cases k) (auto simp: packets_def defMarshal_def)
qed

interpretation mqtt_publisher: message_publisher "Publish defMarshal tok" pb_sent "\<lambda>p t m. packet_of (pb_qos p) t (Payload m) m"
  by unfold_locales (use Publish_one in blast, use Publish_one in fastforce)

lemma onlinepub_one:
  assumes "onlinepub_Publish up defMarshal tok t [m] p = (p', e)"
  shows "(pb_sent p' = pb_sent p @ [packet_of (pb_qos p) t (Payload m) m] \<or> pb_sent p' = pb_sent p \<and> e \<noteq> None) \<and>
    pb_qos p' = pb_qos p"
  using assms Publish_one [of tok t m p p' e] by (auto simp: onlinepub_Publish_def split: if_splits)

interpretation online_publisher: message_publisher "onlinepub_Publish up defMarshal tok" pb_sent "\<lambda>p t m. packet_of (pb_qos p) t (Payload m) m"
  by unfold_locales (use onlinepub_one in blast, use onlinepub_one in fastforce)

subsection \<open>Properties of publishing\<close>

text \<open>
  A publisher sends its messages in order, each on the topic of its context or else the given one,
  with the quality of service of its context or else its own: without an error all of them, with an
  error exactly those up to the failing one; nothing once it is closed.
\<close>

lemma Publish_in_order:
  assumes "Publish marshal tok topic msgs p = (p', e)"
  shows "\<exists>k \<le> length msgs. pb_sent p' = pb_sent p @ packets marshal (pb_qos p) topic (take k msgs) \<and>
    (e = None \<longrightarrow> k = length msgs) \<and> (pb_closed p \<longrightarrow> k = 0 \<and> e = Some ErrClosed) \<and>
    pb_closed p' = pb_closed p \<and> (\<forall>m \<in> set (take k msgs). \<not> isl (marshal m))"
proof (cases "pb_closed p")
  case True
  with assms show ?thesis by (intro exI [of _ 0]) (auto simp: Publish_def packets_def)
next
  case False
  with publish_loop_sent [of marshal tok topic msgs p p' e] assms show ?thesis by (auto simp: Publish_def)
qed

text \<open>
  The rate limiter passes messages on to its publisher one by one in their order, never twice, and
  without an error it has passed on all of them; a message that is cancelled or fails is reported and
  does not keep the later ones from being sent.
\<close>

lemma ratelimiter_passes_on:
  assumes "ratelimiter_Publish (Publish defMarshal tok) wait topic msgs p = (p', es)"
  shows "\<exists>keep. pb_sent p' = pb_sent p @ map (\<lambda>i. packet_of (pb_qos p) topic (Payload (msgs ! i)) (msgs ! i)) keep \<and>
    sorted_wrt (<) keep \<and> (\<forall>i \<in> set keep. i < length msgs) \<and> length msgs \<le> length keep + length es \<and>
    (es = [] \<longrightarrow> keep = [0..<length msgs])"
  using mqtt_publisher.rate_loop_accepted [OF assms [unfolded ratelimiter_Publish_def]] by simp

text \<open>
  What is published while nothing is in the way: the publisher is open and does not wait for acknowledgements, and the rate
  limiter, if there is one, lets every message pass.
\<close>

lemma publish_loop_sends:
  "pb_ackTimeout p = 0 \<Longrightarrow> publish_loop defMarshal tok topic ms p =
     (p\<lparr>pb_sent := pb_sent p @ map (\<lambda>m. packet_of (pb_qos p) topic (Payload m) m) ms\<rparr>, None)"
  by (induction ms arbitrary: p) (simp_all add: defMarshal_def Let_def)

lemma Publish_sends:
  assumes "\<not> pb_closed p" "pb_ackTimeout p = 0"
  shows "Publish defMarshal tok topic ms p = (p\<lparr>pb_sent := pb_sent p @ map (\<lambda>m. packet_of (pb_qos p) topic (Payload m) m) ms\<rparr>, None)"
  using assms by (simp add: Publish_def publish_loop_sends)

lemma rate_loop_sends:
  assumes "\<not> pb_closed p" "pb_ackTimeout p = 0" "\<And>n. wait n"
  shows "rate_loop (Publish defMarshal tok) wait topic n ms p =
    (p\<lparr>pb_sent := pb_sent p @ map (\<lambda>m. packet_of (pb_qos p) topic (Payload m) m) ms\<rparr>, [])"
  using assms(1,2)
proof (induction ms arbitrary: n p)
  case (Cons m ms)
  from Cons.IH [of "p\<lparr>pb_sent := pb_sent p @ [packet_of (pb_qos p) topic (Payload m) m]\<rparr>"] Cons.prems assms(3)
  show ?case by (simp add: Publish_sends)
qed simp

end
