(* ===== verification/Handlers.thy ===== *)
theory Handlers
  imports Messages Cache
begin

text \<open>
  The message buses of \<^verbatim>\<open>src/routing/events.go\<close> and \<^verbatim>\<open>src/routing/commands.go\<close>: the
  handler functions that rewrite topics between the local broker and the hub, the cache of pending
  command requests they share, and the registration of each bus with the router. The cache is the
  state of the command handlers. The Ditto envelope decoded by \<^verbatim>\<open>json.Unmarshal\<close> is the
  parameter \<open>envelope\<close>: the correlation ID and the timeout of the headers, or \<open>None\<close> for a
  decoding error.
\<close>

subsection \<open>Events and telemetry\<close>

definition TopicsEvent :: string where "TopicsEvent = ''event/#,e/#''"
definition TopicsTelemetry :: string where "TopicsTelemetry = ''telemetry/#,t/#''"
definition TopicEmpty :: string where "TopicEmpty = ''''"

record eventsHandler =
  eh_prefix :: string
  eh_tenantID :: string
  eh_deviceID :: string
  eh_generic :: bool

text \<open>Segment \<open>i\<close> if it is there and not empty, else the default.\<close>

definition segment_or :: "string list \<Rightarrow> nat \<Rightarrow> string \<Rightarrow> string" where
  "segment_or segments i d = (if length segments > i \<and> length (segments ! i) > 0 then segments ! i else d)"

text \<open>The optional topic prefix of a generic hub.\<close>

definition hub_prefix :: "bool \<Rightarrow> string \<Rightarrow> string" where
  "hub_prefix generic pre = (if generic \<and> length pre > 0 then pre @ ''/'' else [])"

definition HandleEvent :: "eventsHandler \<Rightarrow> 's handler" where
  "HandleEvent h msg s =
     (case TopicFromCtx (Context msg) of
        None \<Rightarrow> Inr (s, Inl errNoTopic)
      | Some topic \<Rightarrow>
          let segments = Split topic CHR ''/'';
              msgType = (if hd segments = ''telemetry'' \<or> hd segments = ''t'' then ''telemetry'' else ''event'');
              tenID = segment_or segments 1 (eh_tenantID h);
              devID = segment_or segments 2 (eh_deviceID h);
              start = hub_prefix (eh_generic h) (eh_prefix h) @ msgType @ ''/'' @ tenID @ ''/'';
              tail = with_slashes (drop 3 segments)
          in if eh_generic h
             then case stripGatewayID (eh_deviceID h) devID of
                    Inl e \<Rightarrow> Inr (s, Inl (TopicError e))
                  | Inr stripped \<Rightarrow>
                      Inr (s, Inr [SetContext msg
                        (SetTopicToCtx (Context msg) (start @ eh_deviceID h @ ''/'' @ stripped @ tail))])
             else Inr (s, Inr [SetContext msg (SetTopicToCtx (Context msg) (start @ devID @ tail))]))"

definition NewEventsHandler :: "string \<Rightarrow> string \<Rightarrow> string \<Rightarrow> bool \<Rightarrow> 's handler" where
  "NewEventsHandler pre tenantID deviceID generic =
     HandleEvent \<lparr>eh_prefix = pre, eh_tenantID = tenantID, eh_deviceID = deviceID, eh_generic = generic\<rparr>"

text \<open>What \<^verbatim>\<open>router.AddHandler\<close> is given: name, topic and subscriber, topic and publisher, function.\<close>

record ('sub, 'pub, 's) bus =
  handlerName :: string
  subscribeTopic :: string
  busSubscriber :: 'sub
  publishTopic :: string
  busPublisher :: 'pub
  handlerFunc :: "'s handler"

definition EventsBus ::
  "(string \<Rightarrow> string) \<Rightarrow> (byte list \<Rightarrow> int \<Rightarrow> byte list option) \<Rightarrow> int \<Rightarrow> 'pub \<Rightarrow> 'sub \<Rightarrow> string \<Rightarrow> string \<Rightarrow> bool
   \<Rightarrow> ('sub, 'pub, 's) bus" where
  "EventsBus Getenv setJson now honoPub mosquittoSub tenantID deviceID generic =
     (let h = NewEventsHandler (Getenv ''EVENTS_TOPIC_PREFIX'') tenantID deviceID generic
      in \<lparr>handlerName = ''events_bus'', subscribeTopic = TopicsEvent, busSubscriber = mosquittoSub,
          publishTopic = TopicEmpty, busPublisher = honoPub,
          handlerFunc = (if generic then AddTimestamp setJson now h else h)\<rparr>)"

definition TelemetryBus ::
  "(string \<Rightarrow> string) \<Rightarrow> 'pub \<Rightarrow> 'sub \<Rightarrow> string \<Rightarrow> string \<Rightarrow> bool \<Rightarrow> ('sub, 'pub, 's) bus" where
  "TelemetryBus Getenv honoPub mosquittoSub tenantID deviceID generic =
     \<lparr>handlerName = ''telemetry_bus'', subscribeTopic = TopicsTelemetry, busSubscriber = mosquittoSub,
      publishTopic = TopicEmpty, busPublisher = honoPub,
      handlerFunc = NewEventsHandler (Getenv ''TELEMETRY_TOPIC_PREFIX'') tenantID deviceID generic\<rparr>"

subsection \<open>Command requests\<close>

definition TopicCommandRequest :: string where "TopicCommandRequest = ''command//+/req/#''"
definition TopicCommandResponse :: string where "TopicCommandResponse = ''command//+/res/#,c//+/s/#''"

record cmdRequestHandler =
  rq_tenantID :: string
  rq_deviceID :: string
  rq_generic :: bool

text \<open>The request is remembered for its timeout and five seconds, unless the timeout is zero.\<close>

definition remember :: "instant \<Rightarrow> string \<Rightarrow> string \<Rightarrow> bool cache \<Rightarrow> bool cache outcome" where
  "remember now correlationID timeoutHeader reqCache =
     (if length correlationID > 0
      then and_then (ParseTimeout timeoutHeader) (\<lambda>timeout.
        if timeout \<noteq> 0
        then and_then (Put now correlationID True (wrap64 (timeout + Second * 5)) reqCache) (\<lambda>(c, _). Inr c)
        else Inr reqCache)
      else Inr reqCache)"

text \<open>The request on both spellings of its topic.\<close>

definition request_copies :: "message \<Rightarrow> string \<Rightarrow> bool cache \<Rightarrow> (bool cache \<times> (handler_error + message list)) outcome" where
  "request_copies msg topic reqCache =
     and_then (ParseCmdTopic topic) (\<lambda>(_, deviceID, suf).
       Inr (reqCache, Inr [msg,
         SetContext (NewMessage (UUID msg) (Payload msg))
           (SetTopicToCtx (Context msg) (''c//'' @ deviceID @ ''/q/'' @ suf))]))"

definition HandleRequest ::
  "(byte list \<Rightarrow> (string \<times> string) option) \<Rightarrow> instant \<Rightarrow> cmdRequestHandler \<Rightarrow> bool cache handler" where
  "HandleRequest envelope now h msg reqCache =
     (case TopicFromCtx (Context msg) of
        None \<Rightarrow> Inr (reqCache, Inl errNoTopic)
      | Some topic \<Rightarrow>
          case envelope (Payload msg) of
            None \<Rightarrow> Inr (reqCache, Inl InvalidCloudCommand)
          | Some (correlationID, timeoutHeader) \<Rightarrow>
              and_then (remember now correlationID timeoutHeader reqCache) (\<lambda>reqCache.
                if rq_generic h
                then case fixCommand topic of
                       Inl e \<Rightarrow> Inr (reqCache, Inl (TopicError e))
                     | Inr fixed \<Rightarrow>
                         request_copies (SetContext msg (SetTopicToCtx (Context msg) fixed)) fixed reqCache
                else request_copies msg topic reqCache))"

definition NewCommandRequestHandler ::
  "(byte list \<Rightarrow> (string \<times> string) option) \<Rightarrow> instant \<Rightarrow> string \<Rightarrow> string \<Rightarrow> bool \<Rightarrow> bool cache handler" where
  "NewCommandRequestHandler envelope now tenantID deviceID generic =
     HandleRequest envelope now \<lparr>rq_tenantID = tenantID, rq_deviceID = deviceID, rq_generic = generic\<rparr>"

definition CommandsReqBus ::
  "(byte list \<Rightarrow> (string \<times> string) option) \<Rightarrow> instant \<Rightarrow> 'pub \<Rightarrow> 'sub \<Rightarrow> string \<Rightarrow> string \<Rightarrow> bool
   \<Rightarrow> ('sub, 'pub, bool cache) bus" where
  "CommandsReqBus envelope now mosquittoPub honoSub tenantID deviceID generic =
     \<lparr>handlerName = ''commands_request_bus'',
      subscribeTopic = (if generic then ''command/'' @ tenantID @ ''/'' @ deviceID @ ''/+/req/#'' else TopicCommandRequest),
      busSubscriber = honoSub, publishTopic = TopicEmpty, busPublisher = mosquittoPub,
      handlerFunc = NewCommandRequestHandler envelope now tenantID deviceID generic\<rparr>"

subsection \<open>Command responses\<close>

record cmdResponseHandler =
  rs_prefix :: string
  rs_tenantID :: string
  rs_deviceID :: string
  rs_generic :: bool

text \<open>The hub's topic of a response to device \<open>deviceID\<close>.\<close>

definition response_topic :: "cmdResponseHandler \<Rightarrow> string \<Rightarrow> string \<Rightarrow> topic_error + string" where
  "response_topic h deviceID suf =
     (let start = hub_prefix (rs_generic h) (rs_prefix h) @ ''command/''
      in if rs_generic h
         then case stripGatewayID (rs_deviceID h) deviceID of
                Inl e \<Rightarrow> Inl e
              | Inr stripped \<Rightarrow>
                  Inr (start @ rs_tenantID h @ ''/'' @ rs_deviceID h @ ''/'' @ stripped @ ''/res/'' @ suf)
         else Inr (start @ ''/'' @ deviceID @ ''/res/'' @ suf))"

definition HandleResponse ::
  "(byte list \<Rightarrow> (string \<times> string) option) \<Rightarrow> cmdResponseHandler \<Rightarrow> bool cache handler" where
  "HandleResponse envelope h msg reqCache =
     (case TopicFromCtx (Context msg) of
        None \<Rightarrow> Inr (reqCache, Inl errNoTopic)
      | Some topic \<Rightarrow>
          case envelope (Payload msg) of
            None \<Rightarrow> Inr (reqCache, Inl InvalidCloudCommand)
          | Some (correlationID, _) \<Rightarrow>
              and_then (Remove correlationID reqCache) (\<lambda>(reqCache, pending).
                if pending
                then and_then (ParseCmdTopic topic) (\<lambda>(_, deviceID, suf).
                  case response_topic h deviceID suf of
                    Inl e \<Rightarrow> Inr (reqCache, Inl (TopicError e))
                  | Inr t \<Rightarrow> Inr (reqCache, Inr [SetContext msg (SetTopicToCtx (Context msg) t)]))
                else Inr (reqCache, Inr [])))"

definition NewCommandResponseHandler ::
  "(byte list \<Rightarrow> (string \<times> string) option) \<Rightarrow> string \<Rightarrow> string \<Rightarrow> string \<Rightarrow> bool \<Rightarrow> bool cache handler" where
  "NewCommandResponseHandler envelope pre tenantID deviceID generic =
     HandleResponse envelope \<lparr>rs_prefix = pre, rs_tenantID = tenantID, rs_deviceID = deviceID, rs_generic = generic\<rparr>"

definition CommandsResBus ::
  "(string \<Rightarrow> string) \<Rightarrow> (byte list \<Rightarrow> (string \<times> string) option) \<Rightarrow> 'pub \<Rightarrow> 'sub \<Rightarrow> string \<Rightarrow> string \<Rightarrow> bool
   \<Rightarrow> ('sub, 'pub, bool cache) bus" where
  "CommandsResBus Getenv envelope honoPub mosquittoSub tenantID deviceID generic =
     \<lparr>handlerName = ''commands_response_bus'', subscribeTopic = TopicCommandResponse,
      busSubscriber = mosquittoSub, publishTopic = TopicEmpty, busPublisher = honoPub,
      handlerFunc = NewCommandResponseHandler envelope (Getenv ''COMMAND_RESPONSE_TOPIC_PREFIX'')
        tenantID deviceID generic\<rparr>"

subsection \<open>Lemmas on event topics\<close>

text \<open>The type, tenant and device of an event or telemetry topic, with the defaults for those left out.\<close>

definition event_type :: "string \<Rightarrow> string" where
  "event_type topic =
     (if hd (Split topic CHR ''/'') = ''telemetry'' \<or> hd (Split topic CHR ''/'') = ''t'' then ''telemetry'' else ''event'')"

definition event_tenant :: "eventsHandler \<Rightarrow> string \<Rightarrow> string" where
  "event_tenant h topic = segment_or (Split topic CHR ''/'') 1 (eh_tenantID h)"

definition event_device :: "eventsHandler \<Rightarrow> string \<Rightarrow> string" where
  "event_device h topic = segment_or (Split topic CHR ''/'') 2 (eh_deviceID h)"

definition slash_free :: "eventsHandler \<Rightarrow> bool" where
  "slash_free h \<longleftrightarrow> CHR ''/'' \<notin> set (eh_tenantID h) \<and> CHR ''/'' \<notin> set (eh_deviceID h)"

lemma event_type_cases: "event_type t = ''telemetry'' \<or> event_type t = ''event''"
  by (simp add: event_type_def)

lemma segment_or_slash:
  "CHR ''/'' \<notin> set d \<Longrightarrow> CHR ''/'' \<notin> set (segment_or (Split t CHR ''/'') i d)"
  using Split_segment_no_sep [of "Split t CHR ''/'' ! i" t "CHR ''/''"] by (auto simp: segment_or_def)

lemma event_parts_slash:
  assumes "slash_free h"
  shows "CHR ''/'' \<notin> set (event_type t)" "CHR ''/'' \<notin> set (event_tenant h t)" "CHR ''/'' \<notin> set (event_device h t)"
  using assms segment_or_slash event_type_cases [of t]
  by (auto simp: slash_free_def event_tenant_def event_device_def)

lemma stripGatewayID_slash:
  "stripGatewayID gw dev = Inr d \<Longrightarrow> CHR ''/'' \<notin> set dev \<Longrightarrow> CHR ''/'' \<notin> set d"
  by (auto simp: stripGatewayID_def split: if_splits dest: in_set_dropD)

lemma Split_topic:
  assumes "\<forall>s \<in> set ss. CHR ''/'' \<notin> set s" "CHR ''/'' \<notin> set s"
  shows "Split (s @ with_slashes ss) CHR ''/'' = s # ss"
  using Split_Join [of "s # ss" "CHR ''/''"] assms by (simp add: append_with_slashes)

lemma drop_Split_slash: "\<forall>s \<in> set (drop n (Split t CHR ''/'')). CHR ''/'' \<notin> set s"
  by (meson Split_segment_no_sep in_set_dropD)

lemma HandleEvent_plain:
  assumes "TopicFromCtx (Context msg) = Some t" "\<not> eh_generic h"
  shows "HandleEvent h msg s = Inr (s, Inr [SetContext msg (SetTopicToCtx (Context msg)
    (event_type t @ with_slashes (event_tenant h t # event_device h t # drop 3 (Split t CHR ''/''))))])"
  using assms
  by (simp add: HandleEvent_def Let_def hub_prefix_def event_type_def event_tenant_def event_device_def)

lemma HandleEvent_hub:
  assumes "TopicFromCtx (Context msg) = Some t" "eh_generic h"
  shows "HandleEvent h msg s =
    (case stripGatewayID (eh_deviceID h) (event_device h t) of
       Inl e \<Rightarrow> Inr (s, Inl (TopicError e))
     | Inr d \<Rightarrow> Inr (s, Inr [SetContext msg (SetTopicToCtx (Context msg) (hub_prefix True (eh_prefix h) @
         event_type t @ with_slashes (event_tenant h t # eh_deviceID h # d # drop 3 (Split t CHR ''/''))))]))"
  using assms
  by (simp add: HandleEvent_def Let_def event_type_def event_tenant_def event_device_def split: sum.split)

subsection \<open>Properties of the event handler\<close>

text \<open>
  An event or telemetry message for Hono goes out on the topic
  \<^verbatim>\<open>type/tenant/device/rest\<close>: the type spelled out, the tenant and the device of the
  gateway where the message left them out, and every further segment as it came. The message itself
  is unchanged, no state changes, and handling the result again yields the same topic.
\<close>

lemma HandleEvent_hono:
  assumes "TopicFromCtx (Context msg) = Some t" "\<not> eh_generic h" "slash_free h"
    "eh_tenantID h \<noteq> []" "eh_deviceID h \<noteq> []"
  shows "\<exists>m t'. HandleEvent h msg s = Inr (s, Inr [m]) \<and> TopicFromCtx (Context m) = Some t' \<and>
    Split t' CHR ''/'' = event_type t # event_tenant h t # event_device h t # drop 3 (Split t CHR ''/'') \<and>
    UUID m = UUID msg \<and> Payload m = Payload msg \<and> QosFromCtx (Context m) = QosFromCtx (Context msg) \<and>
    (\<exists>m'. HandleEvent h m s = Inr (s, Inr [m']) \<and> TopicFromCtx (Context m') = Some t')"
proof -
  define t' where "t' = event_type t @ with_slashes (event_tenant h t # event_device h t # drop 3 (Split t CHR ''/''))"
  note parts = event_parts_slash [OF assms(3), of t]
  have split: "Split t' CHR ''/'' = event_type t # event_tenant h t # event_device h t # drop 3 (Split t CHR ''/'')"
    unfolding t'_def using parts drop_Split_slash by (intro Split_topic) auto
  have ne: "event_tenant h t \<noteq> []" "event_device h t \<noteq> []"
    using assms(4,5) by (auto simp: event_tenant_def event_device_def segment_or_def)
  have "event_type t' = event_type t" "event_tenant h t' = event_tenant h t" "event_device h t' = event_device h t"
    using ne event_type_cases [of t]
    by (auto simp: split event_type_def [of t'] event_tenant_def [of h t'] event_device_def [of h t'] segment_or_def)
  moreover have "drop 3 (Split t' CHR ''/'') = drop 3 (Split t CHR ''/'')" unfolding split by simp
  ultimately have again: "event_type t' @ with_slashes (event_tenant h t' # event_device h t' # drop 3 (Split t' CHR ''/'')) = t'"
    by (simp only: t'_def)
  define m where "m = SetContext msg (SetTopicToCtx (Context msg) t')"
  have 1: "HandleEvent h msg s = Inr (s, Inr [m])"
    unfolding m_def t'_def by (rule HandleEvent_plain) (rule assms)+
  have 2: "TopicFromCtx (Context m) = Some t'" by (simp add: m_def)
  then have "HandleEvent h m s = Inr (s, Inr [SetContext m (SetTopicToCtx (Context m) t')])"
    using HandleEvent_plain [OF 2 assms(2), of s] unfolding again by simp
  with 1 2 split show ?thesis by (auto simp: m_def)
qed

text \<open>
  An event or telemetry message for a generic hub is accepted exactly when its device is the
  gateway or starts with the gateway's identifier; it then goes out on
  \<^verbatim>\<open>prefix/type/tenant/gateway/device/rest\<close> with the gateway's identifier and one separator
  taken off the device. A message without a topic is refused. No state changes in any case.
\<close>

lemma HandleEvent_generic:
  assumes "eh_generic h" "slash_free h" "CHR ''/'' \<notin> set (eh_prefix h)"
  shows "case TopicFromCtx (Context msg) of
      None \<Rightarrow> HandleEvent h msg s = Inr (s, Inl errNoTopic)
    | Some t \<Rightarrow>
        if \<not> HasPrefix (event_device h t) (eh_deviceID h)
        then HandleEvent h msg s = Inr (s, Inl (TopicError (InvalidDeviceID (event_device h t) (eh_deviceID h))))
        else \<exists>t'. HandleEvent h msg s = Inr (s, Inr [SetContext msg (SetTopicToCtx (Context msg) t')]) \<and>
          Split t' CHR ''/'' = (if eh_prefix h = [] then [] else [eh_prefix h]) @
            [event_type t, event_tenant h t, eh_deviceID h, drop (length (eh_deviceID h) + 1) (event_device h t)] @
            drop 3 (Split t CHR ''/'')"
proof (cases "TopicFromCtx (Context msg)")
  case None
  then show ?thesis by (simp add: HandleEvent_def)
next
  case (Some t)
  note eq = HandleEvent_hub [OF Some assms(1), of s]
  show ?thesis
  proof (cases "HasPrefix (event_device h t) (eh_deviceID h)")
    case False
    with Some eq show ?thesis by (simp add: stripGatewayID_foreign)
  next
    case True
    let ?d = "drop (length (eh_deviceID h) + 1) (event_device h t)"
    let ?u = "event_type t @ with_slashes (event_tenant h t # eh_deviceID h # ?d # drop 3 (Split t CHR ''/''))"
    have strip: "stripGatewayID (eh_deviceID h) (event_device h t) = Inr ?d"
      using True by (simp add: stripGatewayID_def)
    note parts = event_parts_slash [OF assms(2), of t]
    have "Split ?u CHR ''/'' = event_type t # event_tenant h t # eh_deviceID h # ?d # drop 3 (Split t CHR ''/'')"
      using parts drop_Split_slash stripGatewayID_slash [OF strip] assms(2)
      by (intro Split_topic) (auto simp: slash_free_def)
    then have "Split (hub_prefix True (eh_prefix h) @ ?u) CHR ''/'' = (if eh_prefix h = [] then [] else [eh_prefix h]) @
        event_type t # event_tenant h t # eh_deviceID h # ?d # drop 3 (Split t CHR ''/'')"
      using assms(3) by (simp add: hub_prefix_def Split_append)
    moreover have "HandleEvent h msg s = Inr (s, Inr [SetContext msg (SetTopicToCtx (Context msg) (hub_prefix True (eh_prefix h) @ ?u))])"
      using eq strip by simp
    ultimately show ?thesis
      using Some True by (simp only: option.case not_True_eq_False if_False append_Cons append_Nil) blast
  qed
qed

subsection \<open>Lemmas on pending requests\<close>

text \<open>The entry of a request that arrives at \<open>now\<close> with timeout \<open>d\<close>.\<close>

definition pending_entry :: "instant \<Rightarrow> duration \<Rightarrow> bool entry" where
  "pending_entry now d = (True, d + 5 * Second, add_dur now (d + 5 * Second))"

lemma remember_facts:
  assumes "cache_inv c" "\<not> closed c" "ParseTimeout tmo = Inr d"
  obtains c' where "remember now cid tmo c = Inr c'" "cache_inv c'" "\<not> closed c'"
    "cache_abs c' = (if cid \<noteq> [] \<and> d \<noteq> 0 then (cache_abs c)(cid \<mapsto> pending_entry now d) else cache_abs c)"
proof (cases "cid \<noteq> [] \<and> d \<noteq> 0")
  case False
  with assms that [of c] show ?thesis by (auto simp: remember_def)
next
  case True
  have "0 \<le> d" "d < Hour" using ParseTimeout_range [OF assms(3)] by auto
  then have w: "wrap64 (d + Second * 5) = d + 5 * Second" "0 \<le> d + 5 * Second"
    by (simp_all add: wrap64_id in_int64_def duration_defs)
  obtain c' where "Put now cid True (d + 5 * Second) c = Inr (c', True)" "cache_inv c' \<and> \<not> closed c'"
      "cache_abs c' = (cache_abs c)(cid \<mapsto> (True, d + 5 * Second, add_dur now (d + 5 * Second)))"
    using cache_store.put_law [of c "d + 5 * Second" now cid True] assms w(2) by blast
  with True assms(3) w(1) that [of c'] show ?thesis
    by (simp add: remember_def pending_entry_def)
qed

lemma request_copies_eq:
  assumes "CHR ''/'' \<notin> set dev"
  shows "request_copies msg (''command//'' @ dev @ ''/req/'' @ rest) c =
    Inr (c, Inr [msg, SetContext (NewMessage (UUID msg) (Payload msg))
      (SetTopicToCtx (Context msg) (''c//'' @ dev @ ''/q/'' @ rest))])"
  using parse_after_ok [of "''command//''" 9 "''req''" 3 dev "CHR ''/''" rest] assms
  by (simp add: request_copies_def ParseCmdTopic_def)

text \<open>The topic of a request as the hub sends it, and the device in it as the local broker knows it.\<close>

definition hub_request_topic :: "bool \<Rightarrow> string \<Rightarrow> string \<Rightarrow> string \<Rightarrow> string \<Rightarrow> string" where
  "hub_request_topic generic ten gw dev rest =
     (if generic then ''command/'' @ ten @ ''/'' @ gw @ ''/'' @ dev @ ''/req/'' @ rest
      else ''command//'' @ dev @ ''/req/'' @ rest)"

definition local_device :: "bool \<Rightarrow> string \<Rightarrow> string \<Rightarrow> string" where
  "local_device generic gw dev = (if generic then (if dev = [] then [] else gw @ '':'' @ dev) else dev)"

lemma HandleRequest_eq:
  assumes "TopicFromCtx (Context msg) = Some (hub_request_topic (rq_generic h) ten gw dev rest)"
    and "envelope (Payload msg) = Some (cid, tmo)" "remember now cid tmo c = Inr c'"
    and "CHR ''/'' \<notin> set ten" "CHR ''/'' \<notin> set gw" "CHR ''/'' \<notin> set dev"
  obtains m1 m2 where "HandleRequest envelope now h msg c = Inr (c', Inr [m1, m2])"
    "TopicFromCtx (Context m1) = Some (''command//'' @ local_device (rq_generic h) gw dev @ ''/req/'' @ rest)"
    "TopicFromCtx (Context m2) = Some (''c//'' @ local_device (rq_generic h) gw dev @ ''/q/'' @ rest)"
    "\<forall>m \<in> {m1, m2}. UUID m = UUID msg \<and> Payload m = Payload msg \<and> QosFromCtx (Context m) = QosFromCtx (Context msg)"
    "\<forall>m \<in> {m1, m2}. RetainFromCtx (Context m) = RetainFromCtx (Context msg)"
proof (cases "rq_generic h")
  case True
  let ?dev = "local_device True gw dev"
  let ?t = "''command//'' @ ?dev @ ''/req/'' @ rest"
  have fixed: "fixCommand (hub_request_topic True ten gw dev rest) = Inr ?t"
    using fixCommand_ok [OF assms(4-6), of "''req/'' @ rest"] by (simp add: hub_request_topic_def local_device_def)
  have "CHR ''/'' \<notin> set ?dev" using assms(5,6) by (simp add: local_device_def)
  note copies = request_copies_eq [OF this, of "SetContext msg (SetTopicToCtx (Context msg) ?t)" rest c']
  have "HandleRequest envelope now h msg c = Inr (c', Inr [SetContext msg (SetTopicToCtx (Context msg) ?t),
      SetContext (NewMessage (UUID msg) (Payload msg))
        (SetTopicToCtx (SetTopicToCtx (Context msg) ?t) (''c//'' @ ?dev @ ''/q/'' @ rest))])"
    unfolding HandleRequest_def
    by (simp only: assms(1-3) True fixed copies and_then_Inr option.case prod.case sum.case if_True SetContext_sel)
  then show ?thesis by (rule that) (simp_all add: True)
next
  case False
  then have t: "TopicFromCtx (Context msg) = Some (''command//'' @ dev @ ''/req/'' @ rest)"
    using assms(1) by (simp add: hub_request_topic_def)
  then have "HandleRequest envelope now h msg c = Inr (c', Inr [msg,
      SetContext (NewMessage (UUID msg) (Payload msg)) (SetTopicToCtx (Context msg) (''c//'' @ dev @ ''/q/'' @ rest))])"
    using False assms(2,3) request_copies_eq [OF assms(6), of msg rest c'] by (simp add: HandleRequest_def)
  then show ?thesis by (rule that) (use t False in \<open>simp_all add: local_device_def\<close>)
qed

text \<open>The topics on which a device answers request \<open>rest\<close>, and the hub's topic for the answer.\<close>

definition local_response_topics :: "string \<Rightarrow> string \<Rightarrow> string set" where
  "local_response_topics dev rest = {''command//'' @ dev @ ''/res/'' @ rest, ''c//'' @ dev @ ''/s/'' @ rest}"

definition hub_response_topic :: "bool \<Rightarrow> string \<Rightarrow> string \<Rightarrow> string \<Rightarrow> string \<Rightarrow> string \<Rightarrow> string" where
  "hub_response_topic generic pre ten gw dev rest =
     (if generic then hub_prefix True pre @ ''command/'' @ ten @ ''/'' @ gw @ ''/'' @ dev @ ''/res/'' @ rest
      else ''command//'' @ dev @ ''/res/'' @ rest)"

lemma HandleResponse_pending:
  assumes "TopicFromCtx (Context msg) = Some t" "t \<in> local_response_topics (local_device (rs_generic h) (rs_deviceID h) dev) rest"
    and "envelope (Payload msg) = Some (cid, tmo)" "Remove cid c = Inr (c', True)"
    and "CHR ''/'' \<notin> set (rs_deviceID h)" "CHR ''/'' \<notin> set dev" "rs_generic h \<longrightarrow> dev \<noteq> []"
  shows "HandleResponse envelope h msg c = Inr (c', Inr [SetContext msg (SetTopicToCtx (Context msg)
    (hub_response_topic (rs_generic h) (rs_prefix h) (rs_tenantID h) (rs_deviceID h) dev rest))])"
proof -
  let ?dev = "local_device (rs_generic h) (rs_deviceID h) dev"
  have "CHR ''/'' \<notin> set ?dev" using assms(5,6) by (simp add: local_device_def)
  then have "ParseCmdTopic t \<in> {Inr (''res'', ?dev, rest), Inr (''s'', ?dev, rest)}"
    using parse_after_ok [of "''command//''" 9 "''res''" 3 ?dev "CHR ''/''" rest]
      parse_after_ok [of "''c//''" 3 "''s''" 1 ?dev "CHR ''/''" rest] assms(2)
    by (auto simp: local_response_topics_def ParseCmdTopic_def)
  moreover have "response_topic h ?dev rest =
      Inr (hub_response_topic (rs_generic h) (rs_prefix h) (rs_tenantID h) (rs_deviceID h) dev rest)"
    using assms(7) stripGatewayID_ok [of "rs_deviceID h" "CHR '':''" dev]
    by (simp add: response_topic_def hub_response_topic_def local_device_def hub_prefix_def)
  ultimately show ?thesis
    using assms(1,3,4) by (auto simp: HandleResponse_def)
qed

lemma HandleResponse_unknown:
  assumes "TopicFromCtx (Context msg) = Some t" "envelope (Payload msg) = Some (cid, tmo)" "Remove cid c = Inr (c', False)"
  shows "HandleResponse envelope h msg c = Inr (c', Inr [])"
  using assms by (simp add: HandleResponse_def)

subsection \<open>Properties of the command handlers\<close>

text \<open>A request and a response of a device behind the gateway, for the witnesses. The envelope
  carries a one-byte correlation ID and no timeout.\<close>

definition sample_envelope :: "byte list \<Rightarrow> (string \<times> string) option" where
  "sample_envelope p = (case p of [] \<Rightarrow> None | b # _ \<Rightarrow> Some ([char_of (unat b)], ''''))"

definition sample_request :: message where
  "sample_request = SetContext (NewMessage ''1'' [65]) (SetTopicToCtx Background ''command/t1/gw/dev/req/9/toggle'')"

definition sample_response :: "string \<Rightarrow> message" where
  "sample_response dev = SetContext (NewMessage ''2'' [65]) (SetTopicToCtx Background (''command//'' @ dev @ ''/res/9/200''))"

abbreviation sample_req_handler :: cmdRequestHandler where
  "sample_req_handler \<equiv> \<lparr>rq_tenantID = ''t1'', rq_deviceID = ''gw'', rq_generic = True\<rparr>"

abbreviation sample_res_handler :: cmdResponseHandler where
  "sample_res_handler \<equiv> \<lparr>rs_prefix = ''p'', rs_tenantID = ''t1'', rs_deviceID = ''gw'', rs_generic = True\<rparr>"

lemma sample_facts:
  "TopicFromCtx (Context sample_request) = Some (hub_request_topic True ''t1'' ''gw'' ''dev'' ''9/toggle'')"
  "sample_envelope (Payload sample_request) = Some (''A'', '''')"
  "TopicFromCtx (Context (sample_response dev)) = Some (''command//'' @ dev @ ''/res/9/200'')"
  "sample_envelope (Payload (sample_response dev)) = Some (''A'', '''')"
  "ParseTimeout '''' = Inr (60 * Second)"
  by (simp_all add: sample_request_def sample_response_def sample_envelope_def hub_request_topic_def
      ParseTimeout_def char_of_def bit_0)

lemma new_cache_facts: "cache_inv NewTTLCache" "\<not> closed NewTTLCache"
  by (rule cache_inv_new) (simp add: NewTTLCache_def)

text \<open>
  (C20) A command request from the hub reaches the local broker on both spellings of its topic, with
  the device renamed to \<^verbatim>\<open>gateway:device\<close> when it came from a generic hub and the message
  otherwise unchanged; its correlation ID is then pending for its timeout and five seconds, unless it
  has none or asks for no response. Nothing else becomes pending or is lost.
\<close>

theorem HandleRequest_forwards:
  assumes "cache_inv c" "\<not> closed c" "envelope (Payload msg) = Some (cid, tmo)" "ParseTimeout tmo = Inr d"
    and "TopicFromCtx (Context msg) = Some (hub_request_topic (rq_generic h) ten gw dev rest)"
    and "CHR ''/'' \<notin> set ten" "CHR ''/'' \<notin> set gw" "CHR ''/'' \<notin> set dev"
  shows "\<exists>c' m1 m2. HandleRequest envelope now h msg c = Inr (c', Inr [m1, m2]) \<and>
    TopicFromCtx (Context m1) = Some (''command//'' @ local_device (rq_generic h) gw dev @ ''/req/'' @ rest) \<and>
    TopicFromCtx (Context m2) = Some (''c//'' @ local_device (rq_generic h) gw dev @ ''/q/'' @ rest) \<and>
    (\<forall>m \<in> {m1, m2}. UUID m = UUID msg \<and> Payload m = Payload msg \<and> QosFromCtx (Context m) = QosFromCtx (Context msg)) \<and>
    cache_inv c' \<and>
    cache_abs c' = (if cid \<noteq> [] \<and> d \<noteq> 0 then (cache_abs c)(cid \<mapsto> pending_entry now d) else cache_abs c)"
proof -
  obtain c' where c': "remember now cid tmo c = Inr c'" "cache_inv c'"
      "cache_abs c' = (if cid \<noteq> [] \<and> d \<noteq> 0 then (cache_abs c)(cid \<mapsto> pending_entry now d) else cache_abs c)"
    by (rule remember_facts [OF assms(1,2,4)])
  obtain m1 m2 where m: "HandleRequest envelope now h msg c = Inr (c', Inr [m1, m2])"
    "TopicFromCtx (Context m1) = Some (''command//'' @ local_device (rq_generic h) gw dev @ ''/req/'' @ rest)"
    "TopicFromCtx (Context m2) = Some (''c//'' @ local_device (rq_generic h) gw dev @ ''/q/'' @ rest)"
    "\<forall>m \<in> {m1, m2}. UUID m = UUID msg \<and> Payload m = Payload msg \<and> QosFromCtx (Context m) = QosFromCtx (Context msg)"
    by (rule HandleRequest_eq [of msg h ten gw dev rest envelope cid tmo now c c', OF assms(5,3) c'(1) assms(6-8)])
  show ?thesis
    by (intro exI [of _ c'] exI [of _ m1] exI [of _ m2] conjI) (fact c' m)+
qed

theorem HandleRequest_forwards_witness:
  "\<exists>c' m1 m2. HandleRequest sample_envelope (Instant 0) sample_req_handler sample_request NewTTLCache = Inr (c', Inr [m1, m2])
     \<and> TopicFromCtx (Context m1) = Some ''command//gw:dev/req/9/toggle''
     \<and> TopicFromCtx (Context m2) = Some ''c//gw:dev/q/9/toggle''
     \<and> cache_abs c' ''A'' = Some (pending_entry (Instant 0) (60 * Second))"
proof -
  have g: "rq_generic sample_req_handler = True" by simp
  have "60 * Second \<noteq> 0" by (simp add: duration_defs)
  with HandleRequest_forwards [of NewTTLCache sample_envelope sample_request "''A''" "''''" "60 * Second" sample_req_handler
      "''t1''" "''gw''" "''dev''" "''9/toggle''" "Instant 0", unfolded g, OF new_cache_facts sample_facts(2,5,1)]
  obtain c' m1 m2 where
    "HandleRequest sample_envelope (Instant 0) sample_req_handler sample_request NewTTLCache = Inr (c', Inr [m1, m2])"
    "TopicFromCtx (Context m1) = Some ''command//gw:dev/req/9/toggle''"
    "TopicFromCtx (Context m2) = Some ''c//gw:dev/q/9/toggle''"
    "cache_abs c' = (cache_abs NewTTLCache)(''A'' \<mapsto> pending_entry (Instant 0) (60 * Second))"
    by (simp add: local_device_def) blast
  then show ?thesis by simp
qed

text \<open>
  (C21) The response handler only answers what is pending: whatever the message is, it forwards at
  most one message, and only if the correlation ID of its envelope was pending; it takes that
  identifier and no other out of the cache, and leaves the cache alone when the message has no topic,
  no valid envelope or an unknown identifier.
\<close>

theorem HandleResponse_only_pending:
  assumes "cache_inv c" "\<not> closed c" "HandleResponse envelope h msg c = Inr (c', r)"
  shows "cache_inv c' \<and>
    (case envelope (Payload msg) of
       Some (cid, _) \<Rightarrow>
         (if cache_abs c cid \<noteq> None \<and> TopicFromCtx (Context msg) \<noteq> None
          then cache_abs c' = (cache_abs c)(cid := None) \<and>
            ((\<exists>m. r = Inr [m] \<and> Payload m = Payload msg \<and> UUID m = UUID msg) \<or> (\<exists>e. r = Inl (TopicError e)))
          else cache_abs c' = cache_abs c \<and> r \<in> {Inr [], Inl errNoTopic})
     | None \<Rightarrow> c' = c \<and> r \<in> {Inl InvalidCloudCommand, Inl errNoTopic})"
proof (cases "TopicFromCtx (Context msg)"; cases "envelope (Payload msg)")
  fix t p
  assume t: "TopicFromCtx (Context msg) = Some t" and p: "envelope (Payload msg) = Some p"
  obtain cid tmo where [simp]: "p = (cid, tmo)" by (cases p)
  obtain c1 where c1: "Remove cid c = Inr (c1, cache_abs c cid \<noteq> None)" "cache_inv c1 \<and> \<not> closed c1"
      "cache_abs c1 = (cache_abs c)(cid := None)"
    using cache_store.rem_law [of c cid] assms(1,2) by blast
  show ?thesis
  proof (cases "cache_abs c cid = None")
    case True
    then have "cache_abs c1 = cache_abs c" using c1(3) by (simp add: fun_upd_idem)
    with True t p c1 assms(3) show ?thesis by (simp add: HandleResponse_def)
  next
    case False
    with t p c1(1) assms(3) obtain k dev suf where "ParseCmdTopic t = Inr (k, dev, suf)"
      "(case response_topic h dev suf of Inl e \<Rightarrow> Inr (c1, Inl (TopicError e))
        | Inr u \<Rightarrow> Inr (c1, Inr [SetContext msg (SetTopicToCtx (Context msg) u)])) = (Inr (c', r) :: _ outcome)"
      by (auto simp: HandleResponse_def and_then_eq_Inr)
    then have "c' = c1" "(\<exists>m. r = Inr [m] \<and> Payload m = Payload msg \<and> UUID m = UUID msg) \<or> (\<exists>e. r = Inl (TopicError e))"
      by (cases "response_topic h dev suf"; auto)+
    with False t p c1(2,3) show ?thesis by simp
  qed
qed (use assms in \<open>auto simp: HandleResponse_def split: option.splits\<close>)

theorem HandleResponse_only_pending_witness:
  "\<exists>c'. HandleResponse sample_envelope sample_res_handler (sample_response ''gw:dev'') NewTTLCache = Inr (c', Inr [])
     \<and> cache_inv c' \<and> cache_abs c' = Map.empty"
proof -
  have "HandleResponse sample_envelope sample_res_handler (sample_response ''gw:dev'') NewTTLCache = Inr (NewTTLCache, Inr [])"
    by (rule HandleResponse_unknown [of _ _ sample_envelope, OF sample_facts(3,4)]) (simp add: Remove_def NewTTLCache_def)
  from HandleResponse_only_pending [OF new_cache_facts this] this show ?thesis
    by (simp add: sample_facts(4) cache_abs_new)
qed

text \<open>
  On a generic hub the gateway itself cannot answer: a request for the gateway reaches the local
  broker with an empty device, but the response with that empty device is refused as foreign,
  although its pending entry is used up.
\<close>

lemma gateway_response_refused:
  assumes "cache_inv c" "\<not> closed c" "rs_generic rs" "rs_deviceID rs \<noteq> []"
    and "envelope (Payload res) = Some (cid, tmo)" "cache_abs c cid \<noteq> None"
    and "TopicFromCtx (Context res) = Some t" "t \<in> local_response_topics (local_device True (rs_deviceID rs) []) rest"
  shows "\<exists>c'. HandleResponse envelope rs res c = Inr (c', Inl (TopicError (InvalidDeviceID [] (rs_deviceID rs)))) \<and>
    cache_abs c' cid = None"
proof -
  obtain c1 where c1: "Remove cid c = Inr (c1, True)" "cache_abs c1 = (cache_abs c)(cid := None)"
    using cache_store.rem_law [of c cid] assms(1,2,6) by auto
  have "ParseCmdTopic t \<in> {Inr (''res'', [], rest), Inr (''s'', [], rest)}"
    using parse_after_ok [of "''command//''" 9 "''res''" 3 "[]" "CHR ''/''" rest]
      parse_after_ok [of "''c//''" 3 "''s''" 1 "[]" "CHR ''/''" rest] assms(8)
    by (auto simp: local_response_topics_def local_device_def ParseCmdTopic_def)
  moreover have "\<not> HasPrefix [] (rs_deviceID rs)" using assms(4) by (simp add: HasPrefix_iff)
  then have "response_topic rs [] rest = Inl (InvalidDeviceID [] (rs_deviceID rs))"
    using assms(3) by (simp add: response_topic_def stripGatewayID_foreign)
  ultimately show ?thesis
    using assms(5,7) c1 by (auto simp: HandleResponse_def)
qed

end
