(* ===== verification/Service.thy ===== *)
theory Service
  imports Publisher Connection Handlers
begin

text \<open>
  The local services of \<^verbatim>\<open>src/routing/service.go\<close>: the connection status and the gateway
  parameters published on the local broker, and the listeners of the hub and the cloud connection that
  publish them. The encoders of the JSON library are parameters, and so is the operation
  of the publisher; the lemmas are about the publisher of theory \<open>Publisher\<close>.
\<close>

subsection \<open>Status\<close>

definition TopicGwParamsRequest :: string where "TopicGwParamsRequest = ''edge/thing/request''"
definition TopicGwParamsResponse :: string where "TopicGwParamsResponse = ''edge/thing/response''"
definition TopicConnectionStatus :: string where "TopicConnectionStatus = ''edge/connection/remote/status''"

definition StatusConfigError :: string where "StatusConfigError = ''CONFIG_ERROR''"
definition StatusProvisioningError :: string where "StatusProvisioningError = ''PROVISIONING_ERROR''"
definition StatusProvisioningUpdate :: string where "StatusProvisioningUpdate = ''PROVISIONING_UPDATE''"
definition StatusProvisioningMissing :: string where "StatusProvisioningMissing = ''PROVISIONING_MISSING''"
definition StatusConnectionClosed :: string where "StatusConnectionClosed = ''CONNECTION_CLOSED''"
definition StatusConnectionUnknown :: string where "StatusConnectionUnknown = ''CONNECTION_UNKNOWN''"
definition StatusConnectionError :: string where "StatusConnectionError = ''CONNECTION_ERROR''"
definition StatusConnectionNotAuthenticated :: string where
  "StatusConnectionNotAuthenticated = ''CONNECTION_NOT_AUTHENTICATED''"

record ConnectionStatus =
  cs_Connected :: bool
  cs_Timestamp :: int
  cs_Cause :: string

definition status_of :: "int \<Rightarrow> string \<Rightarrow> ConnectionStatus" where
  "status_of now cause = \<lparr>cs_Connected = (length cause = 0), cs_Timestamp = now, cs_Cause = cause\<rparr>"

text \<open>\<open>enc\<close> is \<^verbatim>\<open>json.Marshal\<close>, \<open>uuid\<close> a fresh identifier, \<open>pub\<close> the publisher's operation.\<close>

definition SendStatus ::
  "(ConnectionStatus \<Rightarrow> byte list option) \<Rightarrow> string \<Rightarrow> int \<Rightarrow> string
   \<Rightarrow> (string \<Rightarrow> message list \<Rightarrow> 's \<Rightarrow> 's \<times> pub_error option) \<Rightarrow> 's \<Rightarrow> 's" where
  "SendStatus enc uuid now cause pub s =
     (case enc (status_of now cause) of
        None \<Rightarrow> s
      | Some payload \<Rightarrow>
          let m = NewMessage uuid payload;
              m = SetContext m (SetRetainToCtx (Context m) True)
          in fst (pub TopicConnectionStatus [m] s))"

definition StatusCause :: "conn_error \<Rightarrow> string \<times> bool" where
  "StatusCause err =
     (if err = IDRejected then (StatusConnectionError, False)
      else if err = BadProtocolVersion then (StatusConnectionError, False)
      else if err = NotAuthorised then (StatusConnectionError, False)
      else if err = BadUsernameOrPassword then (StatusConnectionNotAuthenticated, False)
      else (StatusConnectionError, True))"

subsection \<open>Gateway parameters\<close>

record GwParams =
  gw_DeviceID :: string
  gw_TenantID :: string
  gw_PolicyID :: string

definition NewGwParams :: "string \<Rightarrow> string \<Rightarrow> string \<Rightarrow> GwParams" where
  "NewGwParams deviceID tenantID policyID = \<lparr>gw_DeviceID = deviceID, gw_TenantID = tenantID, gw_PolicyID = policyID\<rparr>"

definition NewGwParamsMessage :: "(GwParams \<Rightarrow> byte list option) \<Rightarrow> string \<Rightarrow> GwParams \<Rightarrow> message outcome" where
  "NewGwParamsMessage enc uuid params =
     (case enc params of None \<Rightarrow> Inl (Explicit ''json.Marshal'') | Some payload \<Rightarrow> Inr (NewMessage uuid payload))"

definition SendGwParams ::
  "(GwParams \<Rightarrow> byte list option) \<Rightarrow> string \<Rightarrow> GwParams \<Rightarrow> bool
   \<Rightarrow> (string \<Rightarrow> message list \<Rightarrow> 's \<Rightarrow> 's \<times> pub_error option) \<Rightarrow> 's \<Rightarrow> 's outcome" where
  "SendGwParams enc uuid params retain pub s =
     and_then (NewGwParamsMessage enc uuid params) (\<lambda>m.
       Inr (fst (pub TopicGwParamsResponse [SetContext m (SetRetainToCtx (Context m) retain)] s)))"

definition ParamsBus ::
  "(GwParams \<Rightarrow> byte list option) \<Rightarrow> string \<Rightarrow> GwParams \<Rightarrow> 'pub \<Rightarrow> 'sub \<Rightarrow> ('sub, 'pub, 's) bus" where
  "ParamsBus enc uuid params mosquittoPub mosquittoSub =
     \<lparr>handlerName = ''params_bus'', subscribeTopic = TopicGwParamsRequest, busSubscriber = mosquittoSub,
      publishTopic = TopicGwParamsResponse, busPublisher = mosquittoPub,
      handlerFunc = (\<lambda>msg s. and_then (NewGwParamsMessage enc uuid params) (\<lambda>m. Inr (s, Inr [m])))\<rparr>"

subsection \<open>Listeners\<close>

text \<open>\<open>isConnected\<close> is what the cloud client answers when it is disconnected.\<close>

definition CloudConnectionHandler_Connected ::
  "bool \<Rightarrow> bool \<Rightarrow> ('tls, 'h, 'l) MQTTConnection \<Rightarrow> ('tls, 'h, 'l) MQTTConnection" where
  "CloudConnectionHandler_Connected isConnected has cloud = (if has then Connect cloud else Disconnect isConnected cloud)"

definition ReconnectHandler_Connected ::
  "(GwParams \<Rightarrow> byte list option) \<Rightarrow> string \<Rightarrow> GwParams
   \<Rightarrow> (string \<Rightarrow> message list \<Rightarrow> 's \<Rightarrow> 's \<times> pub_error option) \<Rightarrow> bool \<Rightarrow> 's \<Rightarrow> 's outcome" where
  "ReconnectHandler_Connected enc uuid params pub has s =
     (if has then SendGwParams enc uuid params False pub s else Inr s)"

definition ErrorsHandler_Connected ::
  "(ConnectionStatus \<Rightarrow> byte list option) \<Rightarrow> string \<Rightarrow> int
   \<Rightarrow> (string \<Rightarrow> message list \<Rightarrow> 's \<Rightarrow> 's \<times> pub_error option) \<Rightarrow> bool \<Rightarrow> conn_error option \<Rightarrow> 's \<Rightarrow> 's" where
  "ErrorsHandler_Connected enc uuid now pub has err s =
     (case err of
        Some e \<Rightarrow>
          if has then s
          else if e = BadUsernameOrPassword then SendStatus enc uuid now StatusConnectionNotAuthenticated pub s
          else SendStatus enc uuid now StatusConnectionError pub s
      | None \<Rightarrow> s)"

definition ConnectionStatusHandler_Connected ::
  "(ConnectionStatus \<Rightarrow> byte list option) \<Rightarrow> string \<Rightarrow> int
   \<Rightarrow> (string \<Rightarrow> message list \<Rightarrow> 's \<Rightarrow> 's \<times> pub_error option) \<Rightarrow> bool \<Rightarrow> 's \<Rightarrow> 's" where
  "ConnectionStatusHandler_Connected enc uuid now pub has s = (if has then SendStatus enc uuid now '''' pub s else s)"

subsection \<open>Lemmas\<close>

text \<open>The packet of a status message: retained, on the status topic.\<close>

definition status_packet :: "Qos \<Rightarrow> byte list \<Rightarrow> packet" where
  "status_packet qos payload =
     \<lparr>pk_topic = TopicConnectionStatus, pk_qos = qos, pk_retain = True, pk_payload = payload\<rparr>"

lemma SendStatus_sent:
  assumes "\<not> pb_closed p" "\<And>st. enc st \<noteq> None" "pb_ackTimeout p \<le> 0"
  shows "pb_sent (SendStatus enc uuid now cause (Publish defMarshal tok) p) =
      pb_sent p @ [status_packet (pb_qos p) (the (enc (status_of now cause)))]"
    and "SendStatus enc uuid now cause (Publish defMarshal tok) p =
      p\<lparr>pb_sent := pb_sent p @ [status_packet (pb_qos p) (the (enc (status_of now cause)))]\<rparr>"
proof -
  obtain b where b: "enc (status_of now cause) = Some b" using assms(2) by blast
  have "TopicFromCtx (SetRetainToCtx Background True) = None" "QosFromCtx (SetRetainToCtx Background True) = None"
    by simp_all
  with assms(1,3) b show "SendStatus enc uuid now cause (Publish defMarshal tok) p =
      p\<lparr>pb_sent := pb_sent p @ [status_packet (pb_qos p) (the (enc (status_of now cause)))]\<rparr>"
    by (simp add: SendStatus_def Publish_def defMarshal_def packet_of_def status_packet_def Let_def)
  then show "pb_sent (SendStatus enc uuid now cause (Publish defMarshal tok) p) =
      pb_sent p @ [status_packet (pb_qos p) (the (enc (status_of now cause)))]" by simp
qed

end
