(* ===== verification/Logger.thy ===== *)
theory Logger
  imports Go_Strings
begin

text \<open>
  The logger, \<^verbatim>\<open>src/logger\<close>: levels and their names, the formatting of a record with fields, the
  filter by level, the exporter and the settings. The fields of a record are maps of the message library
  (\<^verbatim>\<open>watermill.LogFields\<close>); their \<^verbatim>\<open>Add\<close> is the parameter \<open>add\<close>, and the printing of a
  value the parameter \<open>render\<close>.
\<close>

subsection \<open>Levels\<close>

text \<open>\<^verbatim>\<open>level.go\<close>: a level is an integer, and every value is allowed.\<close>

type_synonym LogLevel = int

definition ERROR :: LogLevel where "ERROR = 1"
definition WARN :: LogLevel where "WARN = 2"
definition INFO :: LogLevel where "INFO = 3"
definition DEBUG :: LogLevel where "DEBUG = 4"
definition TRACE :: LogLevel where "TRACE = 5"

lemmas level_defs = ERROR_def WARN_def INFO_def DEBUG_def TRACE_def

definition Enabled :: "LogLevel \<Rightarrow> LogLevel \<Rightarrow> bool" where
  "Enabled l level \<longleftrightarrow> l \<ge> level"

definition level_String :: "LogLevel \<Rightarrow> string" where
  "level_String l =
     (if l = WARN then ''WARN'' else if l = INFO then ''INFO'' else if l = DEBUG then ''DEBUG''
      else if l = TRACE then ''TRACE'' else ''ERROR'')"

definition StringAligned :: "LogLevel \<Rightarrow> string" where
  "StringAligned l =
     (if l = WARN then ''WARN  '' else if l = INFO then ''INFO  '' else if l = DEBUG then ''DEBUG ''
      else if l = TRACE then ''TRACE '' else ''ERROR '')"

text \<open>\<^verbatim>\<open>strings.ToUpper\<close> on strings of ASCII characters.\<close>

definition ToUpper :: "string \<Rightarrow> string" where
  "ToUpper = map (\<lambda>c. if CHR ''a'' \<le> c \<and> c \<le> CHR ''z'' then char_of (of_char c - 32 :: nat) else c)"

definition ParseLogLevel :: "string \<Rightarrow> LogLevel" where
  "ParseLogLevel level =
     (let u = ToUpper level
      in if u = ''WARN'' then WARN else if u = ''INFO'' then INFO else if u = ''DEBUG'' then DEBUG
         else if u = ''TRACE'' then TRACE else ERROR)"

text \<open>
  The JSON of a level: \<open>enc\<close> prints a string, \<open>dec\<close> reads a document and gives its string if it is
  one; \<open>None\<close> is a document that does not parse.
\<close>

definition MarshalJSON :: "(string \<Rightarrow> 'b) \<Rightarrow> LogLevel \<Rightarrow> 'b" where
  "MarshalJSON enc l = enc (level_String l)"

datatype level_error = NotJSON | UnrecognizedLevel

definition UnmarshalJSON :: "('b \<Rightarrow> string option option) \<Rightarrow> 'b \<Rightarrow> level_error + LogLevel" where
  "UnmarshalJSON dec b =
     (case dec b of
        None \<Rightarrow> Inl NotJSON
      | Some None \<Rightarrow> Inl UnrecognizedLevel
      | Some (Some v) \<Rightarrow> Inr (ParseLogLevel v))"

subsection \<open>Settings\<close>

record LogSettings =
  LogFile :: string
  LogLevel :: LogLevel
  LogFileSize :: int
  LogFileCount :: int
  LogFileMaxAge :: int

datatype log_settings_error = FileSizeInvalid | FileCountInvalid | FileMaxAgeInvalid

definition LogSettings_Validate :: "LogSettings \<Rightarrow> log_settings_error + unit" where
  "LogSettings_Validate c =
     (if LogFileSize c \<le> 0 then Inl FileSizeInvalid
      else if LogFileCount c \<le> 0 then Inl FileCountInvalid
      else if LogFileMaxAge c < 0 then Inl FileMaxAgeInvalid
      else Inr ())"

text \<open>Where the log goes: the standard error, which closing leaves open, or a rotated file.\<close>

datatype logger_out = Stderr | Rotated string int int int

definition newLoggerOut :: "LogSettings \<Rightarrow> logger_out" where
  "newLoggerOut settings =
     (if length (LogFile settings) = 0 then Stderr
      else Rotated (LogFile settings) (LogFileSize settings) (LogFileCount settings) (LogFileMaxAge settings))"

text \<open>
  The writer for the standard error hands on what it is given and ignores \<^verbatim>\<open>Close\<close>; the rotated file is closed by its
  library. The output as a list of texts and whether it was closed.
\<close>

record sink =
  sk_written :: "string list"
  sk_closed :: bool

definition nop_Write :: "string \<Rightarrow> sink \<Rightarrow> sink" where
  "nop_Write p w = w\<lparr>sk_written := sk_written w @ [p]\<rparr>"

definition nop_Close :: "sink \<Rightarrow> sink" where
  "nop_Close w = w"

text \<open>The prefix of the lines, \<^verbatim>\<open>%-ns\<close> being padded with blanks on the right to \<open>n\<close> characters.\<close>

definition pad_right :: "nat \<Rightarrow> string \<Rightarrow> string" where
  "pad_right n s = s @ replicate (n - length s) CHR '' ''"

definition log_prefix :: "string \<Rightarrow> nat \<Rightarrow> string" where
  "log_prefix name prefixLen = '' '' @ pad_right (prefixLen + 4) (''['' @ name @ '']'')"

subsection \<open>Exporters\<close>

text \<open>
  A logger of the Go library (\<^verbatim>\<open>log.Logger\<close>) is known by its output and its prefix. \<^verbatim>\<open>Println\<close> separates its
  arguments with blanks; its result here is the output with the line after the time stamp, where the flag
  \<^verbatim>\<open>Lmsgprefix\<close> puts the prefix in front of the message.
\<close>

record go_logger =
  gl_out :: logger_out
  gl_prefix :: string

definition create :: "logger_out \<Rightarrow> string \<Rightarrow> nat \<Rightarrow> go_logger" where
  "create out name prefixLen = \<lparr>gl_out = out, gl_prefix = log_prefix name prefixLen\<rparr>"

definition log_Println :: "go_logger \<Rightarrow> string list \<Rightarrow> logger_out \<times> string" where
  "log_Println l args = (gl_out l, gl_prefix l @ Join args '' '')"

text \<open>An exporter is asked to export a message at a level; \<open>'o\<close> is what it does with it.\<close>

type_synonym 'o Exporter = "LogLevel \<Rightarrow> string \<Rightarrow> 'o"

definition strip_newline :: "string \<Rightarrow> string" where
  "strip_newline msg = (if length msg > 0 \<and> last msg = CHR 0x0A then butlast msg else msg)"

definition Export :: "go_logger \<Rightarrow> LogLevel \<Rightarrow> string \<Rightarrow> logger_out \<times> string" where
  "Export logger level msg = log_Println logger [StringAligned level, strip_newline msg]"

definition newStdExporter :: "go_logger \<Rightarrow> (logger_out \<times> string) Exporter" where
  "newStdExporter logger = Export logger"

text \<open>
  The decorator given to the MQTT library prints whatever it is given at its own level; \<^verbatim>\<open>Sprintln\<close> separates the
  printed values with blanks and ends the line.
\<close>

record 'o LogLevelDecorator =
  ld_exporter :: "'o Exporter"
  ld_level :: LogLevel

definition NewLevelDecoratorWithExporter :: "'o Exporter \<Rightarrow> LogLevel \<Rightarrow> 'o LogLevelDecorator" where
  "NewLevelDecoratorWithExporter exporter level = \<lparr>ld_exporter = exporter, ld_level = level\<rparr>"

definition NewLevelDecorator :: "go_logger \<Rightarrow> LogLevel \<Rightarrow> (logger_out \<times> string) LogLevelDecorator" where
  "NewLevelDecorator logger level = NewLevelDecoratorWithExporter (newStdExporter logger) level"

definition Sprintln :: "('v \<Rightarrow> string) \<Rightarrow> 'v list \<Rightarrow> string" where
  "Sprintln render vs = Join (map render vs) '' '' @ [CHR 0x0A]"

definition decorator_Println :: "('v \<Rightarrow> string) \<Rightarrow> 'o LogLevelDecorator \<Rightarrow> 'v list \<Rightarrow> 'o" where
  "decorator_Println render l vs = ld_exporter l (ld_level l) (Sprintln render vs)"

definition decorator_Printf :: "'o LogLevelDecorator \<Rightarrow> string \<Rightarrow> 'o" where
  "decorator_Printf l formatted = ld_exporter l (ld_level l) formatted"

text \<open>The loggers of the MQTT library by its own levels; those that are not set stay as they are.\<close>

record paho_logs =
  paho_ERROR :: "(logger_out \<times> string) LogLevelDecorator option"
  paho_CRITICAL :: "(logger_out \<times> string) LogLevelDecorator option"
  paho_WARN :: "(logger_out \<times> string) LogLevelDecorator option"
  paho_DEBUG :: "(logger_out \<times> string) LogLevelDecorator option"

definition ConfigMQTT :: "LogLevel \<Rightarrow> go_logger \<Rightarrow> paho_logs \<Rightarrow> paho_logs" where
  "ConfigMQTT level logger p =
     (let p = p\<lparr>paho_ERROR := Some (NewLevelDecorator logger ERROR), paho_CRITICAL := Some (NewLevelDecorator logger ERROR)\<rparr>;
          p = (if level \<ge> WARN then p\<lparr>paho_WARN := Some (NewLevelDecorator logger WARN)\<rparr> else p)
      in if level \<ge> DEBUG then p\<lparr>paho_DEBUG := Some (NewLevelDecorator logger DEBUG)\<rparr> else p)"

subsection \<open>Records\<close>

text \<open>Fields, \<open>None\<close> for the nil map.\<close>

type_synonym 'v log_fields = "(string, 'v) mapping option"

record ('v, 'o) loggerExt =
  lg_exporter :: "'o Exporter"
  lg_level :: LogLevel
  lg_fields :: "'v log_fields"

definition writePair :: "('v \<Rightarrow> string) \<Rightarrow> string \<Rightarrow> 'v \<Rightarrow> string" where
  "writePair render k v =
     (let valueStr = render v
      in k @ ''='' @ (if CHR '' '' \<in> set valueStr then ''\"'' @ valueStr @ ''\"'' else valueStr))"

text \<open>\<open>sh\<close> is the order in which the keys are visited; a key is read from the map it was taken from.\<close>

definition format_record :: "('v \<Rightarrow> string) \<Rightarrow> (string list \<Rightarrow> string list) \<Rightarrow> string \<Rightarrow> (string, 'v) mapping \<Rightarrow> string" where
  "format_record render sh msg m =
     (let ks = sort (map_range sh m)
      in msg @ '' '' @ concat (map (\<lambda>k. writePair render k (the (Mapping.lookup m k)) @ '' '') ks))"

definition record_fields :: "('v log_fields \<Rightarrow> 'v log_fields \<Rightarrow> 'v log_fields) \<Rightarrow> 'v log_fields \<Rightarrow> 'v log_fields \<Rightarrow> 'v log_fields" where
  "record_fields add own fs =
     (case own of None \<Rightarrow> fs | Some _ \<Rightarrow> (case fs of None \<Rightarrow> own | Some _ \<Rightarrow> add own fs))"

definition log_record ::
  "('v log_fields \<Rightarrow> 'v log_fields \<Rightarrow> 'v log_fields) \<Rightarrow> ('v \<Rightarrow> string) \<Rightarrow> (string list \<Rightarrow> string list) \<Rightarrow> ('v, 'o) loggerExt
   \<Rightarrow> LogLevel \<Rightarrow> string \<Rightarrow> 'v log_fields \<Rightarrow> 'o" where
  "log_record add render sh l logLevel msg fs =
     (case record_fields add (lg_fields l) fs of
        None \<Rightarrow> lg_exporter l logLevel msg
      | Some m \<Rightarrow> if Mapping.size m = 0 then lg_exporter l logLevel msg else lg_exporter l logLevel (format_record render sh msg m))"

text \<open>
  The operations of the logger. The result is the list of exports, and \<open>err\<close> is \<open>None\<close> for
  the nil error; the variants with a format take the formatted text.
\<close>

definition with_err ::
  "('v log_fields \<Rightarrow> 'v log_fields \<Rightarrow> 'v log_fields) \<Rightarrow> 'v option \<Rightarrow> 'v log_fields \<Rightarrow> 'v log_fields" where
  "with_err add err fs =
     (case err of None \<Rightarrow> fs | Some e \<Rightarrow> add fs (Some (Mapping.update ''err'' e Mapping.empty)))"

definition IsDebugEnabled :: "('v, 'o) loggerExt \<Rightarrow> bool" where
  "IsDebugEnabled l = Enabled (lg_level l) DEBUG"

definition IsTraceEnabled :: "('v, 'o) loggerExt \<Rightarrow> bool" where
  "IsTraceEnabled l = Enabled (lg_level l) TRACE"

definition log_Error where
  "log_Error add render sh l msg err fs =
     (if Enabled (lg_level l) ERROR then [log_record add render sh l ERROR msg (with_err add err fs)] else [])"

definition log_Warn where
  "log_Warn add render sh l msg err fs =
     (if Enabled (lg_level l) WARN then [log_record add render sh l WARN msg (with_err add err fs)] else [])"

definition log_Info where
  "log_Info add render sh l msg fs =
     (if Enabled (lg_level l) INFO then [log_record add render sh l INFO msg fs] else [])"

definition log_Debug where
  "log_Debug add render sh l msg fs =
     (if IsDebugEnabled l then [log_record add render sh l DEBUG msg fs] else [])"

definition log_Trace where
  "log_Trace add render sh l msg fs =
     (if IsTraceEnabled l then [log_record add render sh l TRACE msg fs] else [])"

definition log_Errorf where
  "log_Errorf add render sh l formatted =
     (if Enabled (lg_level l) ERROR then [log_record add render sh l ERROR formatted None] else [])"

definition log_Warnf where
  "log_Warnf add render sh l formatted =
     (if Enabled (lg_level l) WARN then [log_record add render sh l WARN formatted None] else [])"

definition log_Infof where
  "log_Infof add render sh l formatted =
     (if Enabled (lg_level l) INFO then [log_record add render sh l INFO formatted None] else [])"

definition log_Debugf where
  "log_Debugf add render sh l formatted =
     (if IsDebugEnabled l then [log_record add render sh l DEBUG formatted None] else [])"

definition log_Tracef where
  "log_Tracef add render sh l formatted =
     (if IsTraceEnabled l then [log_record add render sh l TRACE formatted None] else [])"


definition log_With ::
  "('v log_fields \<Rightarrow> 'v log_fields \<Rightarrow> 'v log_fields) \<Rightarrow> ('v, 'o) loggerExt \<Rightarrow> 'v log_fields \<Rightarrow> ('v, 'o) loggerExt" where
  "log_With add l fs = l\<lparr>lg_fields := add (lg_fields l) fs\<rparr>"

definition NewLoggerWithExporter :: "'o Exporter \<Rightarrow> LogLevel \<Rightarrow> ('v, 'o) loggerExt" where
  "NewLoggerWithExporter exporter level = \<lparr>lg_exporter = exporter, lg_level = level, lg_fields = None\<rparr>"

definition NewLogger :: "go_logger \<Rightarrow> LogLevel \<Rightarrow> ('v, logger_out \<times> string) loggerExt" where
  "NewLogger logger level = NewLoggerWithExporter (newStdExporter logger) level"

text \<open>\<^verbatim>\<open>Setup\<close>: the output, the root logger with its prefix, and the loggers of the MQTT library.\<close>

definition Setup ::
  "(string \<Rightarrow> string) \<Rightarrow> paho_logs \<Rightarrow> string \<Rightarrow> LogSettings
   \<Rightarrow> logger_out \<times> ('v, logger_out \<times> string) loggerExt \<times> paho_logs" where
  "Setup Getenv paho name settings =
     (let loggerOut = newLoggerOut settings;
          pahoLogLevel = Getenv ''MQTT_LOG_LEVEL'';
          p = (if length pahoLogLevel > 0
               then ConfigMQTT (ParseLogLevel pahoLogLevel) (create loggerOut ''paho'' (length name)) paho else paho);
          rootLog = create loggerOut name (length name)
      in (loggerOut, NewLogger rootLog (LogLevel settings), p))"

subsection \<open>Lemmas\<close>

text \<open>The documented behaviour of \<^verbatim>\<open>LogFields.Add\<close>: a new map of both, the added fields overriding.\<close>

definition fields_map :: "'v log_fields \<Rightarrow> (string, 'v) mapping" where
  "fields_map fs = (case fs of None \<Rightarrow> Mapping.empty | Some m \<Rightarrow> m)"

definition merged :: "'v log_fields \<Rightarrow> 'v log_fields \<Rightarrow> (string, 'v) mapping" where
  "merged a b = Mapping.combine (\<lambda>_ v. v) (fields_map a) (fields_map b)"

definition adds_fields :: "('v log_fields \<Rightarrow> 'v log_fields \<Rightarrow> 'v log_fields) \<Rightarrow> bool" where
  "adds_fields add \<longleftrightarrow> (\<forall>a b. add a b = Some (merged a b))"

lemma lookup_merged:
  "Mapping.lookup (merged a b) k =
     (case Mapping.lookup (fields_map b) k of Some v \<Rightarrow> Some v | None \<Rightarrow> Mapping.lookup (fields_map a) k)"
  by (simp add: merged_def Mapping.lookup_combine combine_options_def split: option.split)

lemma merged_empty [simp]: "merged None b = fields_map b" "merged a None = fields_map a"
  by (rule mapping_eqI, simp add: lookup_merged fields_map_def split: option.split)+

lemma keys_merged: "Mapping.keys (merged a b) = Mapping.keys (fields_map a) \<union> Mapping.keys (fields_map b)"
  by (auto simp: in_keys_lookup lookup_merged split: option.split)

text \<open>The line of a record, from the map alone: the keys in ascending order, each once.\<close>

definition reference_line :: "('v \<Rightarrow> string) \<Rightarrow> string \<Rightarrow> (string, 'v) mapping \<Rightarrow> string" where
  "reference_line render msg m =
     (if Mapping.keys m = {} then msg
      else msg @ '' '' @ concat (map (\<lambda>k. writePair render k (the (Mapping.lookup m k)) @ '' '') (sorted_list_of_set (Mapping.keys m))))"

lemma sort_map_range:
  assumes "is_shuffle sh" "finite (Mapping.keys m)"
  shows "sort (map_range sh m) = sorted_list_of_set (Mapping.keys m)"
proof -
  have "mset (map_range sh m) = mset (Mapping.ordered_keys m)"
    using assms(1) by (simp add: is_shuffle_def map_range_def)
  moreover have "sorted (Mapping.ordered_keys m)" by (simp add: Mapping.ordered_keys_def)
  ultimately have "sort (map_range sh m) = Mapping.ordered_keys m" by (intro properties_for_sort) simp_all
  then show ?thesis by (simp add: Mapping.ordered_keys_def)
qed

lemma record_fields_merged:
  assumes "adds_fields add"
  shows "fields_map (record_fields add a b) = merged a b"
  using assms by (auto simp: record_fields_def adds_fields_def fields_map_def merged_def [of "Some _" "Some _"] split: option.split)

lemma upper_char:
  fixes c :: char
  defines "up \<equiv> \<lambda>c. if CHR ''a'' \<le> c \<and> c \<le> CHR ''z'' then char_of (of_char c - 32 :: nat) else c"
  shows "up (up c) = up c"
proof (cases "CHR ''a'' \<le> c \<and> c \<le> CHR ''z''")
  case True
  then have n: "97 \<le> (of_char c :: nat)" "(of_char c :: nat) \<le> 122" by (simp_all add: less_eq_char_def)
  then have "(of_char (char_of (of_char c - 32 :: nat)) :: nat) = of_char c - 32" by (simp add: of_char_of)
  with n have "\<not> CHR ''a'' \<le> char_of (of_char c - 32 :: nat)" by (simp add: less_eq_char_def)
  with True show ?thesis by (simp add: up_def)
next
  case False
  then have "up c = c" by (auto simp: up_def)
  then show ?thesis by simp
qed

lemma ToUpper_idem: "ToUpper (ToUpper s) = ToUpper s"
  using upper_char by (simp add: ToUpper_def)

lemma ToUpper_names [simp]:
  "ToUpper ''ERROR'' = ''ERROR''" "ToUpper ''WARN'' = ''WARN''" "ToUpper ''INFO'' = ''INFO''" "ToUpper ''DEBUG'' = ''DEBUG''"
  "ToUpper ''TRACE'' = ''TRACE''"
  by (simp_all add: ToUpper_def less_eq_char_def)

subsection \<open>Properties\<close>

text \<open>
  A log line depends on nothing but the message and the fields: whatever the order in which the map is
  visited, the line is the message followed by the pairs of the logger's own fields and those of the call,
  those of the call first in precedence, by ascending key and each key once; without fields it is the message alone.
\<close>

lemma log_record_reference:
  assumes "adds_fields add" and "is_shuffle sh"
    and "finite (Mapping.keys (fields_map (lg_fields l)))" and "finite (Mapping.keys (fields_map fs))"
  shows "log_record add render sh l level msg fs =
    lg_exporter l level (reference_line render msg (merged (lg_fields l) fs))"
proof (cases "record_fields add (lg_fields l) fs")
  case None
  with record_fields_merged [OF assms(1), of "lg_fields l" fs] have "Mapping.keys (merged (lg_fields l) fs) = {}"
    by (simp add: fields_map_def [of None])
  with None show ?thesis by (simp add: log_record_def reference_line_def)
next
  case (Some m)
  with record_fields_merged [OF assms(1), of "lg_fields l" fs] have m: "merged (lg_fields l) fs = m"
    by (simp add: fields_map_def [of "Some _"])
  with assms(3,4) have fin: "finite (Mapping.keys m)" using keys_merged [of "lg_fields l" fs] by simp
  with Some m sort_map_range [OF assms(2) fin] show ?thesis
    by (simp add: log_record_def reference_line_def format_record_def Mapping.size_def Let_def)
qed

text \<open>
  The names of the levels are read back: a level printed as JSON is decoded to itself, where any value that
  is none of the five levels counts as an error; parsing does not depend on the case of the letters.
\<close>

lemma level_roundtrip:
  assumes "\<And>s. dec (enc s) = Some (Some s)"
  shows "UnmarshalJSON dec (MarshalJSON enc l) = Inr (if ERROR \<le> l \<and> l \<le> TRACE then l else ERROR) \<and>
    ParseLogLevel (ToUpper s) = ParseLogLevel s"
proof
  have "ParseLogLevel (level_String l) = (if ERROR \<le> l \<and> l \<le> TRACE then l else ERROR)"
    by (auto simp: level_String_def ParseLogLevel_def level_defs Let_def)
  with assms show "UnmarshalJSON dec (MarshalJSON enc l) = Inr (if ERROR \<le> l \<and> l \<le> TRACE then l else ERROR)"
    by (simp add: UnmarshalJSON_def MarshalJSON_def)
qed (simp add: ParseLogLevel_def ToUpper_idem)

text \<open>A logger exports at most one line per call, and one exactly if its level reaches that of the call.\<close>

lemma log_lengths:
  "length (log_Error add render sh l msg err fs) = (if ERROR \<le> lg_level l then 1 else 0)"
  "length (log_Warn add render sh l msg err fs) = (if WARN \<le> lg_level l then 1 else 0)"
  "length (log_Info add render sh l msg fs) = (if INFO \<le> lg_level l then 1 else 0)"
  "length (log_Debug add render sh l msg fs) = (if DEBUG \<le> lg_level l then 1 else 0)"
  "length (log_Trace add render sh l msg fs) = (if TRACE \<le> lg_level l then 1 else 0)"
  by (simp_all add: log_Error_def log_Warn_def log_Info_def log_Debug_def log_Trace_def IsDebugEnabled_def IsTraceEnabled_def
      Enabled_def)

text \<open>What is written to the standard error after \<^verbatim>\<open>Close\<close> still arrives.\<close>

lemma nop_Close_ignored: "sk_written (nop_Write p (nop_Close w)) = sk_written w @ [p]" "sk_closed (nop_Close w) = sk_closed w"
  by (simp_all add: nop_Write_def nop_Close_def)

text \<open>The line break that \<^verbatim>\<open>Sprintln\<close> adds is the one the exporter takes away, so the MQTT library logs no empty lines.\<close>

lemma decorator_Println_line:
  "decorator_Println render (NewLevelDecorator logger level) vs =
     (gl_out logger, gl_prefix logger @ StringAligned level @ '' '' @ Join (map render vs) '' '')"
  by (simp add: decorator_Println_def Sprintln_def NewLevelDecorator_def NewLevelDecoratorWithExporter_def newStdExporter_def
      Export_def strip_newline_def log_Println_def)

text \<open>
  The lines of a logger that was set up go to the output of its settings, behind the prefix with its name; and the messages
  of the connector and those of the MQTT library start in the same column.
\<close>

lemma StringAligned_length: "length (StringAligned l) = 6"
  by (simp add: StringAligned_def)

lemma Setup_lines:
  assumes "Setup Getenv paho name settings = (out, l, p)"
  shows "out = newLoggerOut settings \<and> lg_level l = LogLevel settings \<and>
    lg_exporter l level msg = (out, log_prefix name (length name) @ StringAligned level @ '' '' @ strip_newline msg)"
  using assms by (auto simp: Setup_def NewLogger_def NewLoggerWithExporter_def newStdExporter_def create_def Export_def
      log_Println_def Let_def)

lemma Setup_columns:
  assumes "2 \<le> length name"
  shows "length (log_prefix ''paho'' (length name)) = length (log_prefix name (length name))"
  using assms by (simp add: log_prefix_def pad_right_def)

text \<open>
  How much of the MQTT library is logged: its errors whenever the variable is set, its warnings from \<open>WARN\<close> on and its
  debug messages from \<open>DEBUG\<close> on; without the variable nothing is touched.
\<close>

lemma ConfigMQTT_levels:
  "paho_ERROR (ConfigMQTT level lg p) = Some (NewLevelDecorator lg ERROR)"
  "paho_CRITICAL (ConfigMQTT level lg p) = Some (NewLevelDecorator lg ERROR)"
  "paho_WARN (ConfigMQTT level lg p) = (if Enabled level WARN then Some (NewLevelDecorator lg WARN) else paho_WARN p)"
  "paho_DEBUG (ConfigMQTT level lg p) = (if Enabled level DEBUG then Some (NewLevelDecorator lg DEBUG) else paho_DEBUG p)"
  by (simp_all add: ConfigMQTT_def Enabled_def Let_def)

lemma log_formatted:
  "log_Errorf add render sh l formatted = log_Error add render sh l formatted None None"
  "log_Warnf add render sh l formatted = log_Warn add render sh l formatted None None"
  "log_Infof add render sh l formatted = log_Info add render sh l formatted None"
  "log_Debugf add render sh l formatted = log_Debug add render sh l formatted None"
  "log_Tracef add render sh l formatted = log_Trace add render sh l formatted None"
  by (simp_all add: log_Errorf_def log_Error_def log_Warnf_def log_Warn_def log_Infof_def log_Info_def log_Debugf_def log_Debug_def
      log_Tracef_def log_Trace_def with_err_def)

end
