(* ===== verification/Settings.thy ===== *)
theory Settings
  imports Service Logger
begin

text \<open>
  The settings of the connector and the connections made from them: \<^verbatim>\<open>src/config/settings.go\<close>,
  \<^verbatim>\<open>src/config/connections.go\<close> and \<^verbatim>\<open>src/config/tls_config.go\<close>. Parsing of URLs and numbers,
  files, certificates and the TPM are parameters, collected in the record \<open>world\<close>; they answer what
  the library functions of the same names answer.
\<close>

subsection \<open>Settings\<close>

record TLSSettings =
  CACert :: string
  Cert :: string
  Key :: string
  Alpn :: "string list"
  TPMKey :: string
  TPMKeyPub :: string
  TPMHandle :: "64 word"
  TPMDevice :: string

record HubConnectionSettings =
  hs_DeviceID :: string
  hs_DeviceIDPattern :: string
  hs_TenantID :: string
  hs_PolicyID :: string
  hs_Address :: string
  hs_Password :: string
  hs_Username :: string
  hs_ClientID :: string
  hs_AuthID :: string
  hs_Generic :: bool
  hs_UseCertificate :: bool
  hs_AutoProvisioningEnabled :: bool
  hs_TLS :: TLSSettings

record LocalConnectionSettings =
  LocalAddress :: string
  LocalUsername :: string
  LocalPassword :: string
  LocalCACert :: string
  LocalCert :: string
  LocalKey :: string

record Settings =
  st_Hub :: HubConnectionSettings
  st_Local :: LocalConnectionSettings
  st_Log :: LogSettings
  st_ProvisioningFile :: string

text \<open>A TLS configuration, as far as the connector sets it; a certificate is
  its chain of encodings of type \<open>'cert\<close>.\<close>

record ('pool, 'cert) tls_config =
  tc_InsecureSkipVerify :: bool
  tc_RootCAs :: 'pool
  tc_Certificates :: "'cert list list"
  tc_MinVersion :: nat
  tc_MaxVersion :: nat
  tc_NextProtos :: "string list"
  tc_CipherSuites :: "16 word list"

record url =
  u_Scheme :: string
  u_Hostname :: string

text \<open>The answers of the library functions.\<close>

record ('pool, 'cert) world =
  w_Parse :: "string \<Rightarrow> url option"
  w_RequestURI :: "string \<Rightarrow> (url \<times> string) option"
  w_Getenv :: "string \<Rightarrow> string"
  w_ParseInt :: "string \<Rightarrow> int option"
  w_ParseFloat :: "string \<Rightarrow> float64 option"
  w_stat :: "string \<Rightarrow> stat_result"
  w_CAPool :: "string \<Rightarrow> 'pool option"
  w_KeyPair :: "string \<Rightarrow> string \<Rightarrow> 'cert list option"
  w_TPM :: "TLSSettings \<Rightarrow> 'pool \<Rightarrow> ('pool, 'cert) tls_config option"
  w_x509 :: "'cert \<Rightarrow> (string \<times> string) option"
  w_NamespacedID :: "string \<Rightarrow> bool"
  w_newID :: string
  w_CipherSuites :: "(16 word \<times> string) list"

datatype settings_error =
  DeviceIDMissing
| DeviceIDInvalid string
| TenantMissing
| AddressMissing
| LocalAddressMissing
| LogSettingsInvalid log_settings_error
| AddressInvalid
| CACertUnreadable string
| CACertMissing
| PatternAndDeviceID
| PatternWithoutCert
| CALoad string
| KeyPairLoad
| TPMFailed
| PatternUnresolved cert_error
| ConfigInvalid "config_error option"
| ProvisioningUnreadable
| MergeFailed

definition hub_Validate :: "('pool, 'cert) world \<Rightarrow> HubConnectionSettings \<Rightarrow> settings_error + unit" where
  "hub_Validate w c =
     (if length (hs_DeviceID c) = 0 \<and> length (hs_DeviceIDPattern c) = 0 then Inl DeviceIDMissing
      else if length (hs_DeviceID c) > 0 \<and> \<not> w_NamespacedID w (hs_DeviceID c) then Inl (DeviceIDInvalid (hs_DeviceID c))
      else if length (hs_TenantID c) = 0 then Inl TenantMissing
      else if length (hs_Address c) = 0 then Inl AddressMissing
      else Inr ())"

definition AWS :: "('pool, 'cert) world \<Rightarrow> HubConnectionSettings \<Rightarrow> bool" where
  "AWS w c = (case w_Parse w (hs_Address c) of None \<Rightarrow> False | Some u \<Rightarrow> HasSuffix (u_Hostname u) ''amazonaws.com'')"

definition local_Validate :: "LocalConnectionSettings \<Rightarrow> settings_error + unit" where
  "local_Validate c = (if length (LocalAddress c) = 0 then Inl LocalAddressMissing else Inr ())"

definition isConnectionSecure :: "string \<Rightarrow> bool" where
  "isConnectionSecure schema \<longleftrightarrow> schema \<in> set [''wss'', ''ssl'', ''tls'', ''mqtts'', ''mqtt+ssl'', ''tcps'']"

definition NewHubUsername :: "HubConnectionSettings \<Rightarrow> string" where
  "NewHubUsername s = (if length (hs_Username s) > 0 then hs_Username s else NewHonoUserName (hs_AuthID s) (hs_TenantID s))"

text \<open>The interface through which the application and the launcher see the settings.\<close>

definition Provisioning_file :: "Settings \<Rightarrow> string" where
  [simp]: "Provisioning_file s = st_ProvisioningFile s"

definition LocalConnection :: "Settings \<Rightarrow> LocalConnectionSettings" where
  [simp]: "LocalConnection s = st_Local s"

definition HubConnection :: "Settings \<Rightarrow> HubConnectionSettings" where
  [simp]: "HubConnection s = st_Hub s"

definition ValidateDynamic :: "('pool, 'cert) world \<Rightarrow> Settings \<Rightarrow> settings_error + unit" where
  [simp]: "ValidateDynamic w s = hub_Validate w (st_Hub s)"

definition ValidateStatic :: "('pool, 'cert) world \<Rightarrow> Settings \<Rightarrow> settings_error + unit" where
  "ValidateStatic w s =
     (case LogSettings_Validate (st_Log s) of
        Inl e \<Rightarrow> Inl (LogSettingsInvalid e)
      | Inr _ \<Rightarrow>
      case local_Validate (st_Local s) of
        Inl e \<Rightarrow> Inl e
      | Inr _ \<Rightarrow>
          let hub = st_Hub s; tls = hs_TLS hub in
          case w_RequestURI w (hs_Address hub) of
            None \<Rightarrow> Inl AddressInvalid
          | Some (u, _) \<Rightarrow>
              if isConnectionSecure (u_Scheme u) \<and> length (CACert tls) > 0 \<and> \<not> FileExists (w_stat w) (CACert tls)
              then Inl (CACertUnreadable (CACert tls))
              else if isConnectionSecure (u_Scheme u) \<and> length (CACert tls) = 0 then Inl CACertMissing
              else if length (hs_DeviceIDPattern hub) > 0 \<and> length (hs_DeviceID hub) > 0 then Inl PatternAndDeviceID
              else if length (hs_DeviceIDPattern hub) > 0 \<and> length (Cert tls) = 0 then Inl PatternWithoutCert
              else Inr ())"

definition DefaultSettings :: Settings where
  "DefaultSettings =
     \<lparr>st_Hub = \<lparr>hs_DeviceID = '''', hs_DeviceIDPattern = '''', hs_TenantID = '''', hs_PolicyID = '''',
        hs_Address = ''mqtts://mqtt.bosch-iot-hub.com:8883'', hs_Password = '''', hs_Username = '''', hs_ClientID = '''',
        hs_AuthID = '''', hs_Generic = False, hs_UseCertificate = False, hs_AutoProvisioningEnabled = True,
        hs_TLS = \<lparr>CACert = ''iothub.crt'', Cert = '''', Key = '''', Alpn = [], TPMKey = '''', TPMKeyPub = '''',
          TPMHandle = 0, TPMDevice = ''''\<rparr>\<rparr>,
      st_Local = \<lparr>LocalAddress = ''tcp://localhost:1883'', LocalUsername = '''', LocalPassword = '''',
        LocalCACert = '''', LocalCert = '''', LocalKey = ''''\<rparr>,
      st_Log = \<lparr>LogFile = ''log/suite-connector.log'', LogLevel = INFO, LogFileSize = 2, LogFileCount = 5, LogFileMaxAge = 28\<rparr>,
      st_ProvisioningFile = ''provisioning.json''\<rparr>"

text \<open>
  \<^verbatim>\<open>ReadConfig\<close> takes any value and looks at its kind by reflection; \<open>decode\<close> is the JSON decoder, which
  updates the settings with what the document gives, and \<open>None\<close> for a document it refuses.
\<close>

datatype reflect_kind = KStruct | KPtr "reflect_kind option" | KOther

definition validStructPointer :: "reflect_kind \<Rightarrow> bool" where
  "validStructPointer v = (case v of KPtr (Some e) \<Rightarrow> e = KStruct | _ \<Rightarrow> False)"

datatype config_read_error = NoStructPointer | ReadFailed | NoJSON

definition ReadConfig ::
  "(string \<Rightarrow> stat_result) \<Rightarrow> (string \<Rightarrow> byte list option) \<Rightarrow> (byte list \<Rightarrow> 'c \<Rightarrow> 'c option) \<Rightarrow> string \<Rightarrow> reflect_kind \<Rightarrow> 'c
   \<Rightarrow> config_read_error + 'c" where
  "ReadConfig stat readFile decode path kind config =
     (if \<not> validStructPointer kind then Inl NoStructPointer
      else if FileExists stat path
      then case readFile path of
             None \<Rightarrow> Inl ReadFailed
           | Some data \<Rightarrow>
               if length data = 0 then Inr config
               else case decode data config of None \<Rightarrow> Inl NoJSON | Some c \<Rightarrow> Inr c
      else Inr config)"

subsection \<open>TLS\<close>

text \<open>The versions of TLS 1.2 and TLS 1.3.\<close>

definition VersionTLS12 :: nat where "VersionTLS12 = 0x303"
definition VersionTLS13 :: nat where "VersionTLS13 = 0x304"

definition NewCAPool :: "('pool, 'cert) world \<Rightarrow> string \<Rightarrow> settings_error + 'pool" where
  "NewCAPool w caFile = (case w_CAPool w caFile of None \<Rightarrow> Inl (CALoad caFile) | Some p \<Rightarrow> Inr p)"

text \<open>The cipher suites the library implements, by their identifiers and names.\<close>

definition supportedCipherSuites :: "('pool, 'cert) world \<Rightarrow> 16 word list" where
  "supportedCipherSuites w = map fst (w_CipherSuites w)"

definition plain_tls :: "('pool, 'cert) world \<Rightarrow> 'pool \<Rightarrow> 'cert list list \<Rightarrow> ('pool, 'cert) tls_config" where
  "plain_tls w pool certs = \<lparr>tc_InsecureSkipVerify = False, tc_RootCAs = pool, tc_Certificates = certs,
     tc_MinVersion = VersionTLS12, tc_MaxVersion = VersionTLS13, tc_NextProtos = [],
     tc_CipherSuites = supportedCipherSuites w\<rparr>"

definition NewFSTlsConfig ::
  "('pool, 'cert) world \<Rightarrow> 'pool \<Rightarrow> string \<Rightarrow> string \<Rightarrow> settings_error + ('pool, 'cert) tls_config" where
  "NewFSTlsConfig w pool certFile keyFile =
     (case w_KeyPair w certFile keyFile of None \<Rightarrow> Inl KeyPairLoad | Some cert \<Rightarrow> Inr (plain_tls w pool [cert]))"

text \<open>The result says whether closing the configuration has to release the TPM.\<close>

definition newHubTLSConfig0 ::
  "('pool, 'cert) world \<Rightarrow> TLSSettings \<Rightarrow> settings_error + ('pool, 'cert) tls_config \<times> bool" where
  "newHubTLSConfig0 w s =
     and_then (NewCAPool w (CACert s)) (\<lambda>pool.
       if length (TPMDevice s) > 0
       then case w_TPM w s pool of None \<Rightarrow> Inl TPMFailed | Some cfg \<Rightarrow> Inr (cfg, True)
       else if length (Cert s) > 0 \<or> length (Key s) > 0
       then and_then (NewFSTlsConfig w pool (Cert s) (Key s)) (\<lambda>cfg. Inr (cfg, False))
       else Inr (plain_tls w pool [], False))"

definition NewHubTLSConfig ::
  "('pool, 'cert) world \<Rightarrow> TLSSettings \<Rightarrow> settings_error + ('pool, 'cert) tls_config \<times> bool" where
  "NewHubTLSConfig w s =
     and_then (newHubTLSConfig0 w s) (\<lambda>(cfg, clean).
       Inr (if length (Alpn s) > 0 then cfg\<lparr>tc_NextProtos := Alpn s\<rparr> else cfg, clean))"

definition NewLocalTLSConfig ::
  "('pool, 'cert) world \<Rightarrow> LocalConnectionSettings \<Rightarrow> settings_error + ('pool, 'cert) tls_config" where
  "NewLocalTLSConfig w s =
     and_then (NewCAPool w (LocalCACert s)) (\<lambda>pool.
       if length (LocalCert s) > 0 \<or> length (LocalKey s) > 0 then NewFSTlsConfig w pool (LocalCert s) (LocalKey s)
       else Inr (plain_tls w pool []))"

definition SetupLocalTLS ::
  "('pool, 'cert) world \<Rightarrow> ('pool, 'cert) tls_config Configuration \<Rightarrow> LocalConnectionSettings
   \<Rightarrow> settings_error + ('pool, 'cert) tls_config Configuration" where
  "SetupLocalTLS w cfg s =
     (case w_Parse w (LocalAddress s) of
        None \<Rightarrow> Inl AddressInvalid
      | Some u \<Rightarrow>
          if isConnectionSecure (u_Scheme u) then and_then (NewLocalTLSConfig w s) (\<lambda>t. Inr (cfg\<lparr>TLSConfig := Some t\<rparr>))
          else Inr cfg)"

subsection \<open>Connections\<close>

definition env_seconds :: "('pool, 'cert) world \<Rightarrow> string \<Rightarrow> duration \<Rightarrow> duration" where
  "env_seconds w name d = (case w_ParseInt w (w_Getenv w name) of None \<Rightarrow> d | Some n \<Rightarrow> wrap64 (n * Second))"

text \<open>The reconnect parameters of the hub connection, with the environment's changes.\<close>

definition hub_intervals :: "('pool, 'cert) world \<Rightarrow> bool \<Rightarrow> 'tls Configuration \<Rightarrow> 'tls Configuration" where
  "hub_intervals w nopStore cfg =
     cfg\<lparr>ExternalReconnect := True, NoOpStore := nopStore, ConnectRetryInterval := 0,
       MinReconnectInterval := env_seconds w ''HUB_CONNECT_INIT'' Minute,
       MaxReconnectInterval := env_seconds w ''HUB_CONNECT_MAX'' (4 * Minute),
       AuthErrRetries := (case w_ParseInt w (w_Getenv w ''HUB_CONNECT_AUTH_ERR_RETRIES'') of None \<Rightarrow> 5 | Some n \<Rightarrow> n),
       BackoffMultiplier := (case w_ParseFloat w (w_Getenv w ''HUB_CONNECT_MUL'') of None \<Rightarrow> Finite 2 | Some x \<Rightarrow> x)\<rparr>"

definition with_password :: "HubConnectionSettings \<Rightarrow> 'tls Configuration \<Rightarrow> 'tls Configuration" where
  "with_password s cfg = cfg\<lparr>Creds := \<lparr>UserName = NewHubUsername s, Password = hs_Password s\<rparr>\<rparr>"

text \<open>Credentials by password or by the client certificate, which may name the device.\<close>

definition hub_credentials ::
  "('pool, 'cert) world \<Rightarrow> ('pool, 'cert) tls_config \<Rightarrow> HubConnectionSettings \<Rightarrow> 'tls Configuration
   \<Rightarrow> settings_error + HubConnectionSettings \<times> 'tls Configuration" where
  "hub_credentials w t s cfg =
     (case tc_Certificates t of
        [] \<Rightarrow> let s' = s\<lparr>hs_UseCertificate := False\<rparr> in Inr (s', with_password s' cfg)
      | cert # _ \<Rightarrow>
          if length (hs_DeviceIDPattern s) > 0
          then case ReplacePattern (w_x509 w) (hs_DeviceIDPattern s) cert of
                 Inl e \<Rightarrow> Inl (PatternUnresolved e)
               | Inr resolved \<Rightarrow>
                   if \<not> w_NamespacedID w resolved then Inl (DeviceIDInvalid resolved)
                   else Inr (s\<lparr>hs_DeviceID := resolved\<rparr>, cfg)
          else Inr (s, cfg))"

text \<open>
  The settings are updated through their pointer. The second part of an error is the cleaner that was
  run before returning, that of a success the cleaner that is returned; it is \<open>Some True\<close> when it has
  to release the TPM.
\<close>

type_synonym ('pool, 'cert, 'h, 'l) hub_result =
  "settings_error \<times> bool option + (('pool, 'cert) tls_config, 'h, 'l) MQTTConnection \<times> bool option"

definition finish_hub ::
  "('pool, 'cert) world \<Rightarrow> HubConnectionSettings \<Rightarrow> ('pool, 'cert) tls_config Configuration \<Rightarrow> bool option
   \<Rightarrow> HubConnectionSettings \<times> ('pool, 'cert, 'h, 'l) hub_result" where
  "finish_hub w s cfg cleaner =
     (s, case NewMQTTConnectionCredentialsProvider (\<lambda>u. w_Parse w u \<noteq> None) (w_newID w) (Some cfg) (hs_ClientID s) of
           Inl e \<Rightarrow> Inl (ConfigInvalid e, cleaner)
         | Inr c \<Rightarrow> Inr (c, cleaner))"

definition CreateHubConnection ::
  "('pool, 'cert) world \<Rightarrow> HubConnectionSettings \<Rightarrow> bool \<Rightarrow> HubConnectionSettings \<times> ('pool, 'cert, 'h, 'l) hub_result" where
  "CreateHubConnection w settings nopStore =
     (case NewMQTTClientConfig (map_option snd \<circ> w_RequestURI w) (hs_Address settings) of
        None \<Rightarrow> (settings, Inl (AddressInvalid, None))
      | Some cfg \<Rightarrow>
          case w_Parse w (URL cfg) of
            None \<Rightarrow> (settings, Inl (AddressInvalid, None))
          | Some u \<Rightarrow>
              let s = (if length (hs_ClientID settings) = 0 then settings\<lparr>hs_ClientID := w_newID w\<rparr> else settings);
                  cfg = hub_intervals w nopStore cfg
              in if isConnectionSecure (u_Scheme u)
                 then case NewHubTLSConfig w (hs_TLS s) of
                        Inl e \<Rightarrow> (s, Inl (e, None))
                      | Inr (t, clean) \<Rightarrow>
                          (case hub_credentials w t s cfg of
                             Inl e \<Rightarrow> (s, Inl (e, Some clean))
                           | Inr (s', cfg') \<Rightarrow> finish_hub w s' (cfg'\<lparr>TLSConfig := Some t\<rparr>) (Some clean))
                 else let s' = s\<lparr>hs_UseCertificate := False\<rparr> in finish_hub w s' (with_password s' cfg) None)"

definition local_credentials :: "LocalConnectionSettings \<Rightarrow> 'tls Configuration \<Rightarrow> 'tls Configuration" where
  "local_credentials s cfg =
     (if length (LocalUsername s) > 0 then cfg\<lparr>Creds := \<lparr>UserName = LocalUsername s, Password = LocalPassword s\<rparr>\<rparr> else cfg)"

definition open_local ::
  "('pool, 'cert) world \<Rightarrow> LocalConnectionSettings \<Rightarrow> string \<Rightarrow> ('pool, 'cert) tls_config Configuration
   \<Rightarrow> settings_error + (('pool, 'cert) tls_config, 'h, 'l) MQTTConnection" where
  "open_local w s clientID cfg =
     and_then (SetupLocalTLS w (local_credentials s cfg) s) (\<lambda>cfg.
       case NewMQTTConnection (\<lambda>u. w_Parse w u \<noteq> None) (w_newID w) (Some cfg) clientID of
         Inl e \<Rightarrow> Inl (ConfigInvalid e)
       | Inr c \<Rightarrow> Inr c)"

text \<open>The client identifiers of the package, which the environment may set.\<close>

definition config_localClientID :: "(string \<Rightarrow> string) \<Rightarrow> string" where
  "config_localClientID Getenv = (if length (Getenv ''LOCAL_CLIENTID'') > 0 then Getenv ''LOCAL_CLIENTID'' else ''connector'')"

definition config_cloudClientID :: "(string \<Rightarrow> string) \<Rightarrow> string" where
  "config_cloudClientID Getenv = (if length (Getenv ''CLOUD_CLIENTID'') > 0 then Getenv ''CLOUD_CLIENTID'' else ''cloud'')"

text \<open>The will of the local connection says that the state of the hub connection is unknown.\<close>

definition CreateLocalConnection ::
  "('pool, 'cert) world \<Rightarrow> (ConnectionStatus \<Rightarrow> byte list option) \<Rightarrow> string \<Rightarrow> LocalConnectionSettings
   \<Rightarrow> settings_error + (('pool, 'cert) tls_config, 'h, 'l) MQTTConnection" where
  "CreateLocalConnection w enc localClientID s =
     (case NewMQTTClientConfig (map_option snd \<circ> w_RequestURI w) (LocalAddress s) of
        None \<Rightarrow> Inl AddressInvalid
      | Some cfg \<Rightarrow>
          case enc \<lparr>cs_Connected = False, cs_Timestamp = 0, cs_Cause = StatusConnectionUnknown\<rparr> of
            None \<Rightarrow> Inl (ConfigInvalid None)
          | Some status \<Rightarrow>
              open_local w s localClientID (cfg\<lparr>CleanSession := True, WillTopic := TopicConnectionStatus,
                WillQos := QosAtLeastOnce, WillRetain := True, WillMessage := status, ConnectRetryInterval := 0,
                MinReconnectInterval := 5 * Second, MaxReconnectInterval := 5 * Second\<rparr>))"

definition CreateCloudConnection ::
  "('pool, 'cert) world \<Rightarrow> string \<Rightarrow> LocalConnectionSettings \<Rightarrow> bool
   \<Rightarrow> settings_error + (('pool, 'cert) tls_config, 'h, 'l) MQTTConnection" where
  "CreateCloudConnection w cloudClientID s cleanSession =
     (case NewMQTTClientConfig (map_option snd \<circ> w_RequestURI w) (LocalAddress s) of
        None \<Rightarrow> Inl AddressInvalid
      | Some cfg \<Rightarrow>
          open_local w s cloudClientID (cfg\<lparr>CleanSession := cleanSession, MaxReconnectInterval := 5 * Second,
            MinReconnectInterval := 5 * Second, ConnectRetryInterval := 5 * Second\<rparr>))"

subsection \<open>Publishers of the hub connection\<close>

datatype hono_pub = PlainPub publisher | RateLimited publisher duration

definition NewHonoPub :: "('pool, 'cert) world \<Rightarrow> hono_pub outcome" where
  "NewHonoPub w =
     (let honoPub = NewPublisher QosAtLeastOnce in
      case w_ParseInt w (w_Getenv w ''MESSAGE_RATE'') of
        None \<Rightarrow> Inr (PlainPub honoPub)
      | Some rate \<Rightarrow>
          if rate \<le> 0 then Inr (PlainPub honoPub)
          else and_then (NewRateLimiter (Some honoPub) rate Second) (\<lambda>(p, d). Inr (RateLimited p d)))"

text \<open>
  The methods of the publisher, by the type behind the interface: \<open>tok\<close> are the answers of the client and \<open>wait\<close> those of
  the limiter.
\<close>

datatype hono_pub_error = PlainError pub_error | RateErrors "rate_error list"

fun hono_Publish ::
  "(nat \<Rightarrow> token) \<Rightarrow> (nat \<Rightarrow> bool) \<Rightarrow> string \<Rightarrow> message list \<Rightarrow> hono_pub \<Rightarrow> hono_pub \<times> hono_pub_error option" where
  "hono_Publish tok wait topic msgs (PlainPub p) =
     (case Publish defMarshal tok topic msgs p of (p', e) \<Rightarrow> (PlainPub p', map_option PlainError e))"
| "hono_Publish tok wait topic msgs (RateLimited p d) =
     (case ratelimiter_Publish (Publish defMarshal tok) wait topic msgs p of
        (p', es) \<Rightarrow> (RateLimited p' d, if es = [] then None else Some (RateErrors es)))"

fun hono_inner :: "hono_pub \<Rightarrow> publisher" where
  "hono_inner (PlainPub p) = p"
| "hono_inner (RateLimited p d) = p"

abbreviation hono_sent :: "hono_pub \<Rightarrow> packet list" where "hono_sent h \<equiv> pb_sent (hono_inner h)"

definition NewOnlineHonoPub :: "('pool, 'cert) world \<Rightarrow> publisher" where
  "NewOnlineHonoPub w =
     (let ackTimeout = (case w_ParseInt w (w_Getenv w ''HUB_PUBLISH_ACK_TIMEOUT'') of
            None \<Rightarrow> 15 * Second
          | Some t \<Rightarrow> if t > 0 then wrap64 (t * Second) else 15 * Second)
      in NewOnlinePublisher QosAtLeastOnce ackTimeout)"

lemma hono_Publish_sends:
  assumes "\<not> pb_closed (hono_inner h)" "pb_ackTimeout (hono_inner h) = 0" "\<forall>n. wait n"
  shows "hono_sent (fst (hono_Publish tok wait topic ms h)) =
    hono_sent h @ map (\<lambda>m. packet_of (pb_qos (hono_inner h)) topic (Payload m) m) ms"
  using assms by (cases h) (simp_all add: Publish_sends rate_loop_sends ratelimiter_Publish_def)

subsection \<open>Connecting\<close>

text \<open>
  One turn of a connect loop: whether a signal arrives before the connect is done, its result, the
  backoff's interval (\<open>None\<close> for stop), and whether a signal arrives during the wait.
\<close>

record connect_turn =
  ct_signal :: bool
  ct_result :: "conn_error option"
  ct_interval :: "duration option"
  ct_signal_waiting :: bool

datatype connect_end = Connected | Canceled | Refused conn_error

text \<open>
  The loop of \<^verbatim>\<open>HonoConnect\<close> from \<open>n\<close> refusals on, with the causes it has published; \<open>None\<close>
  when it still runs after the given turns.
\<close>

fun hono_loop :: "int \<Rightarrow> connect_turn list \<Rightarrow> int \<Rightarrow> (string list \<times> connect_end) option" where
  "hono_loop limit [] n = None"
| "hono_loop limit (t # ts) n =
     (if ct_signal t then Some ([], Canceled)
      else case ct_result t of
        None \<Rightarrow> Some ([], Connected)
      | Some err \<Rightarrow>
          let (cause, retry) = StatusCause err;
              n' = (if \<not> retry \<and> auth_error err then n + 1 else n)
          in if \<not> retry \<and> (\<not> auth_error err \<or> n' = limit) then Some ([cause], Refused err)
             else case ct_interval t of
               None \<Rightarrow> Some ([cause], Canceled)
             | Some _ \<Rightarrow>
                 if ct_signal_waiting t then Some ([cause], Canceled)
                 else map_option (\<lambda>(causes, r). (cause # causes, r)) (hono_loop limit ts n'))"

definition HonoConnect :: "('tls, 'h, 'l) MQTTConnection \<Rightarrow> connect_turn list \<Rightarrow> (string list \<times> connect_end) option" where
  "HonoConnect honoClient ts = hono_loop (mc_AuthErrRetries honoClient) ts 0"

fun LocalConnect :: "connect_turn list \<Rightarrow> connect_end option" where
  "LocalConnect [] = None"
| "LocalConnect (t # ts) =
     (if ct_signal t then Some Canceled
      else case ct_result t of
        None \<Rightarrow> Some Connected
      | Some _ \<Rightarrow>
          case ct_interval t of
            None \<Rightarrow> Some Canceled
          | Some _ \<Rightarrow> if ct_signal_waiting t then Some Canceled else LocalConnect ts)"

subsection \<open>Lemmas on connections\<close>

lemma NewMQTTConnection_ok:
  assumes "NewMQTTConnectionCredentialsProvider parses newID (Some cfg) cid = Inr c" "newID \<noteq> []"
  shows "Validate parses cfg = Inr ()" "mc_config c = (if cid = [] then cfg\<lparr>CleanSession := True\<rparr> else cfg)"
    "mc_clientID c = (if cid = [] then newID else cid)" "mc_clientID c \<noteq> []"
  using assms by (auto simp: NewMQTTConnectionCredentialsProvider_def Let_def split: sum.splits if_splits)

lemma Validate_frame:
  "Validate parses (cfg\<lparr>CleanSession := b\<rparr>) = Validate parses cfg"
  by (simp add: Validate_def)

lemma hub_intervals_sel:
  "ExternalReconnect (hub_intervals w n cfg)" "TLSConfig (hub_intervals w n cfg) = TLSConfig cfg" "URL (hub_intervals w n cfg) = URL cfg"
  "Creds (hub_intervals w n cfg) = Creds cfg"
  by (simp_all add: hub_intervals_def)

lemma NewMQTTClientConfig_sel:
  assumes "NewMQTTClientConfig uri a = Some cfg"
  shows "TLSConfig cfg = None" "Creds cfg = \<lparr>UserName = '''', Password = ''''\<rparr>" "uri a = Some (URL cfg)"
  using assms by (auto simp: NewMQTTClientConfig_def split: option.splits)

lemma hub_credentials_sel:
  assumes "hub_credentials w t s cfg = Inr (s', cfg')"
  shows "cfg' = (if tc_Certificates t = [] then with_password s' cfg else cfg)" "hs_ClientID s' = hs_ClientID s"
    "tc_Certificates t = [] \<longrightarrow> NewHubUsername s' = NewHubUsername s"
  using assms by (auto simp: hub_credentials_def Let_def NewHubUsername_def split: list.splits if_splits sum.splits)

lemma NewHubTLSConfig_hardened:
  assumes "NewHubTLSConfig w s = Inr (t, clean)" "TPMDevice s = []"
  shows "\<not> tc_InsecureSkipVerify t \<and> VersionTLS12 \<le> tc_MinVersion t"
  using assms
  by (auto simp: NewHubTLSConfig_def newHubTLSConfig0_def NewFSTlsConfig_def plain_tls_def and_then_eq_Inr
      split: if_splits option.splits)

text \<open>The errors of the turns that were not cut off by a signal.\<close>

definition turn_errors :: "connect_turn list \<Rightarrow> conn_error list" where
  "turn_errors ts = concat (map (\<lambda>t. if ct_signal t then [] else case ct_result t of None \<Rightarrow> [] | Some e \<Rightarrow> [e]) ts)"

lemma turn_errors_simps [simp]:
  "turn_errors [] = []"
  "turn_errors (t # ts) = (if ct_signal t then [] else case ct_result t of None \<Rightarrow> [] | Some e \<Rightarrow> [e]) @ turn_errors ts"
  by (simp_all add: turn_errors_def)

lemma StatusCause_retry: "snd (StatusCause e) \<longleftrightarrow> e = OtherError"
  by (cases e) (simp_all add: StatusCause_def)

lemma auth_error_cases: "auth_error e \<longleftrightarrow> e = BadUsernameOrPassword \<or> e = NotAuthorised"
  by (simp add: auth_error_def)

text \<open>
  The body of the loop for a failed connect, with its continuation.
\<close>

lemma hono_loop_step:
  assumes "\<not> ct_signal t" "ct_result t = Some err"
  shows "hono_loop limit (t # ts) n =
    (let n' = (if auth_error err then n + 1 else n); cause = fst (StatusCause err) in
     if err \<in> {IDRejected, BadProtocolVersion} \<or> auth_error err \<and> n' = limit then Some ([cause], Refused err)
     else if ct_interval t = None \<or> ct_signal_waiting t then Some ([cause], Canceled)
     else map_option (\<lambda>(causes, r). (cause # causes, r)) (hono_loop limit ts n'))"
  using assms by (cases err; cases "ct_interval t") (simp_all add: StatusCause_def auth_error_def Let_def)

definition refusals :: "conn_error list \<Rightarrow> int" where
  "refusals es = int (length (filter auth_error es))"

lemma refusals_simps [simp]:
  "refusals [] = 0" "refusals (e # es) = (if auth_error e then 1 else 0) + refusals es" "0 \<le> refusals es"
  by (simp_all add: refusals_def)

text \<open>
  What the loop promises after \<open>k\<close> turns: the published causes are those of the failed connects, the
  refusals stay within the limit, and the end fits the last turn.
\<close>

definition connect_spec :: "int \<Rightarrow> int \<Rightarrow> connect_turn list \<Rightarrow> string list \<Rightarrow> connect_end \<Rightarrow> nat \<Rightarrow> bool" where
  "connect_spec limit n ts causes r k \<longleftrightarrow>
     (let es = turn_errors (take k ts) in
      causes = map (\<lambda>e. fst (StatusCause e)) es \<and> n + refusals es \<le> limit \<and>
      (case r of
         Connected \<Rightarrow> k > 0 \<and> \<not> ct_signal (ts ! (k - 1)) \<and> ct_result (ts ! (k - 1)) = None
       | Canceled \<Rightarrow> n + refusals es < limit
       | Refused e \<Rightarrow> es \<noteq> [] \<and> last es = e \<and>
           (if auth_error e then n + refusals es = limit else e \<in> {IDRejected, BadProtocolVersion})))"

lemma hono_loop_result:
  assumes "hono_loop limit ts n = Some (causes, r)" "n < limit"
  shows "\<exists>k \<le> length ts. connect_spec limit n ts causes r k"
  using assms
proof (induction ts arbitrary: n causes)
  case (Cons t ts)
  consider "ct_signal t" | "\<not> ct_signal t" "ct_result t = None" | err where "\<not> ct_signal t" "ct_result t = Some err"
    by (cases "ct_result t") auto
  then show ?case
  proof cases
    case (3 err)
    define n' where "n' = (if auth_error err then n + 1 else n)"
    define cause where "cause = fst (StatusCause err)"
    define giveup where "giveup \<longleftrightarrow> err \<in> {IDRejected, BadProtocolVersion} \<or> auth_error err \<and> n' = limit"
    define stop where "stop \<longleftrightarrow> ct_interval t = None \<or> ct_signal_waiting t"
    have step: "hono_loop limit (t # ts) n = (if giveup then Some ([cause], Refused err)
        else if stop then Some ([cause], Canceled)
        else map_option (\<lambda>(causes, r). (cause # causes, r)) (hono_loop limit ts n'))"
      using hono_loop_step [OF 3, of limit ts n] by (simp add: Let_def n'_def cause_def giveup_def stop_def)
    have le: "n' \<le> limit" using Cons.prems(2) by (auto simp: n'_def)
    have lt: "n' < limit" if "\<not> giveup" using that Cons.prems(2) le by (auto simp: n'_def giveup_def split: if_splits)
    show ?thesis
    proof (cases "giveup \<or> stop")
      case True
      with step Cons.prems(1) have "causes = [cause]" "r = (if giveup then Refused err else Canceled)" by (auto split: if_splits)
      with 3 le lt have "connect_spec limit n (t # ts) causes r 1"
        by (auto simp: connect_spec_def Let_def n'_def cause_def giveup_def auth_error_def split: if_splits)
      then show ?thesis by (intro exI [of _ 1]) simp
    next
      case False
      with step Cons.prems(1) obtain cs where cs: "hono_loop limit ts n' = Some (cs, r)" "causes = cause # cs" by auto
      with Cons.IH [OF cs(1)] lt False obtain k where k: "k \<le> length ts" "connect_spec limit n' ts cs r k" by blast
      with 3 cs(2) have "connect_spec limit n (t # ts) causes r (Suc k)"
        by (auto simp: connect_spec_def Let_def n'_def cause_def nth_Cons' split: if_splits connect_end.splits)
      with k(1) show ?thesis by (intro exI [of _ "Suc k"]) simp
    qed
  qed (use Cons.prems in \<open>auto simp: connect_spec_def Let_def intro!: exI [of _ 1]\<close>)
qed simp

lemma hono_loop_ends:
  assumes "n < limit" "limit \<le> n + refusals (turn_errors ts)"
  shows "hono_loop limit ts n \<noteq> None"
  using assms
proof (induction ts arbitrary: n)
  case (Cons t ts)
  consider "ct_signal t" | "\<not> ct_signal t" "ct_result t = None" | err where "\<not> ct_signal t" "ct_result t = Some err"
    by (cases "ct_result t") auto
  then show ?case
  proof cases
    case (3 err)
    with hono_loop_step [OF 3, of limit ts n] Cons.prems Cons.IH [of "if auth_error err then n + 1 else n"] show ?thesis
      by (auto simp: Let_def split: if_splits)
  qed auto
qed simp

lemma finish_hub_sound:
  assumes "finish_hub w s cfg cl = (s', r)" "hs_ClientID s \<noteq> []" "w_newID w \<noteq> []"
  shows "s' = s" "case r of
      Inr (c, cl') \<Rightarrow> cl' = cl \<and> mc_config c = cfg \<and> mc_clientID c = hs_ClientID s \<and> Validate (\<lambda>u. w_Parse w u \<noteq> None) cfg = Inr ()
    | Inl (e, cl') \<Rightarrow> cl' = cl"
proof -
  show "s' = s" using assms(1) by (simp add: finish_hub_def)
  show "case r of
      Inr (c, cl') \<Rightarrow> cl' = cl \<and> mc_config c = cfg \<and> mc_clientID c = hs_ClientID s \<and> Validate (\<lambda>u. w_Parse w u \<noteq> None) cfg = Inr ()
    | Inl (e, cl') \<Rightarrow> cl' = cl"
  proof (cases "NewMQTTConnectionCredentialsProvider (\<lambda>u. w_Parse w u \<noteq> None) (w_newID w) (Some cfg) (hs_ClientID s)
      :: config_error option + (('a, 'b) tls_config, 'c, 'd) MQTTConnection")
    case (Inl e)
    with assms(1) show ?thesis by (auto simp: finish_hub_def)
  next
    case (Inr c)
    with assms(1) NewMQTTConnection_ok [OF Inr assms(3)] assms(2) show ?thesis by (auto simp: finish_hub_def)
  qed
qed

subsection \<open>Properties of settings and connections\<close>

text \<open>What \<open>CreateHubConnection\<close> does once the address has been parsed.\<close>

lemma secure_outcome:
  assumes "(case tlsConfig of
      Inl e \<Rightarrow> (s1, Inl (e, None))
    | Inr (t, clean) \<Rightarrow>
        (case hub_credentials w t s1 (hub_intervals w nopStore cfg) of
           Inl e \<Rightarrow> (s1, Inl (e, Some clean))
         | Inr (s2, cfg') \<Rightarrow> finish_hub w s2 (cfg'\<lparr>TLSConfig := Some t\<rparr>) (Some clean))) = (s', r)"
    and "hs_ClientID s1 \<noteq> []" "Creds cfg = \<lparr>UserName = [], Password = []\<rparr>"
  obtains e where "tlsConfig = Inl e" "r = Inl (e, None)"
  | t clean e where "tlsConfig = Inr (t, clean)" "r = Inl (e, Some clean)"
  | t clean s2 cfg2 where "tlsConfig = Inr (t, clean)" "hs_ClientID s2 \<noteq> []" "TLSConfig cfg2 = Some t" "ExternalReconnect cfg2"
    "UserName (Creds cfg2) = (if tc_Certificates t = [] then NewHubUsername s2 else [])" "finish_hub w s2 cfg2 (Some clean) = (s', r)"
proof (cases tlsConfig)
  case (Inl e)
  with assms(1) that(1) show thesis by simp
next
  case (Inr tc)
  obtain t clean where tc: "tc = (t, clean)" by (cases tc)
  show thesis
  proof (cases "hub_credentials w t s1 (hub_intervals w nopStore cfg)")
    case cred: (Inl e)
    with assms(1) Inr tc show thesis by (intro that(2) [of t clean e]) simp_all
  next
    case cred: (Inr sc)
    obtain s2 cfg2 where sc: "sc = (s2, cfg2)" by (cases sc)
    with assms(1) Inr tc cred have "finish_hub w s2 (cfg2\<lparr>TLSConfig := Some t\<rparr>) (Some clean) = (s', r)" by simp
    moreover note cs = hub_credentials_sel [OF cred [unfolded sc]]
    ultimately show thesis using assms(2,3) Inr tc
      by (intro that(3) [of t clean s2 "cfg2\<lparr>TLSConfig := Some t\<rparr>"]) (simp_all add: with_password_def hub_intervals_sel)
  qed
qed

lemma CreateHubConnection_cases:
  assumes "CreateHubConnection w s nopStore = (s', r)" "w_newID w \<noteq> []"
    and "w_RequestURI w (hs_Address s) = Some (v, u)" "w_Parse w u = Some p"
  obtains (plain) s1 cfg where "\<not> isConnectionSecure (u_Scheme p)" "hs_ClientID s1 \<noteq> []" "TLSConfig cfg = None" "ExternalReconnect cfg"
    "UserName (Creds cfg) = NewHubUsername s1" "finish_hub w s1 cfg None = (s', r)"
  | (tls_failed) e where "isConnectionSecure (u_Scheme p)" "NewHubTLSConfig w (hs_TLS s) = Inl e" "r = Inl (e, None)"
  | (credentials_failed) t clean e where "isConnectionSecure (u_Scheme p)" "NewHubTLSConfig w (hs_TLS s) = Inr (t, clean)" "r = Inl (e, Some clean)"
  | (tls) t clean s1 cfg where "isConnectionSecure (u_Scheme p)" "NewHubTLSConfig w (hs_TLS s) = Inr (t, clean)" "hs_ClientID s1 \<noteq> []"
    "TLSConfig cfg = Some t" "ExternalReconnect cfg" "UserName (Creds cfg) = (if tc_Certificates t = [] then NewHubUsername s1 else [])"
    "finish_hub w s1 cfg (Some clean) = (s', r)"
proof -
  define s1 where "s1 = (if length (hs_ClientID s) = 0 then s\<lparr>hs_ClientID := w_newID w\<rparr> else s)"
  obtain cfg where cfg: "NewMQTTClientConfig (map_option snd \<circ> w_RequestURI w) (hs_Address s) = Some (cfg :: ('a, 'b) tls_config Configuration)"
    using assms(3) by (simp add: NewMQTTClientConfig_def)
  note sel = NewMQTTClientConfig_sel [OF cfg]
  have u: "URL cfg = u" using sel(3) assms(3) by simp
  have id: "hs_ClientID s1 \<noteq> []" "hs_TLS s1 = hs_TLS s" using assms(2) by (auto simp: s1_def)
  let ?cfg = "hub_intervals w nopStore cfg" and ?s1 = "s1\<lparr>hs_UseCertificate := False\<rparr>"
  have create: "(if isConnectionSecure (u_Scheme p)
      then case NewHubTLSConfig w (hs_TLS s) of
             Inl e \<Rightarrow> (s1, Inl (e, None))
           | Inr (t, clean) \<Rightarrow>
               (case hub_credentials w t s1 ?cfg of
                  Inl e \<Rightarrow> (s1, Inl (e, Some clean))
                | Inr (s', cfg') \<Rightarrow> finish_hub w s' (cfg'\<lparr>TLSConfig := Some t\<rparr>) (Some clean))
      else finish_hub w ?s1 (with_password ?s1 ?cfg) None) = (s', r)"
    using assms(1) unfolding CreateHubConnection_def cfg option.case u assms(4) Let_def s1_def [symmetric] id(2) .
  show thesis
  proof (cases "isConnectionSecure (u_Scheme p)")
    case False
    with create id(1) sel show thesis
      by (intro plain [of ?s1 "with_password ?s1 ?cfg"]) (simp_all add: with_password_def hub_intervals_sel)
  next
    case True
    note secure = create [unfolded if_P [OF True]]
    show thesis
      by (rule secure_outcome [OF secure id(1) sel(2)]) (use True tls_failed credentials_failed tls in blast)+
  qed
qed


text \<open>A world in which every address parses, no variable is set and one key pair exists, for the witnesses.\<close>

definition sample_world :: "(unit, unit) world" where
  "sample_world = \<lparr>w_Parse = (\<lambda>a. Some \<lparr>u_Scheme = takeWhile (\<lambda>c. c \<noteq> CHR '':'') a, u_Hostname = ''h''\<rparr>),
     w_RequestURI = (\<lambda>a. Some (\<lparr>u_Scheme = takeWhile (\<lambda>c. c \<noteq> CHR '':'') a, u_Hostname = ''h''\<rparr>, a)),
     w_Getenv = (\<lambda>_. ''''), w_ParseInt = Atoi, w_ParseFloat = (\<lambda>_. None), w_stat = (\<lambda>_. StatFile),
     w_CAPool = (\<lambda>_. Some ()), w_KeyPair = (\<lambda>_ _. Some [()]), w_TPM = (\<lambda>_ _. None), w_x509 = (\<lambda>_. None),
     w_NamespacedID = (\<lambda>_. True), w_newID = ''n'', w_CipherSuites = [(0x1301, ''TLS_AES_128_GCM_SHA256'')]\<rparr>"




text \<open>The static validation accepts a device ID pattern only with a certificate and without a device ID.\<close>

lemma ValidateStatic_pattern:
  assumes "ValidateStatic w s = Inr ()" "hs_DeviceIDPattern (st_Hub s) \<noteq> []"
  shows "hs_DeviceID (st_Hub s) = []" "Cert (hs_TLS (st_Hub s)) \<noteq> []"
  using assms by (auto simp: ValidateStatic_def Let_def split: sum.splits option.splits if_splits)

end
