(* ===== verification/Provisioning.thy ===== *)
theory Provisioning
  imports Settings
begin

text \<open>
  The provisioning file, \<^verbatim>\<open>src/config/parse_provisioning.go\<close>: the hub settings it overrides, and
  \<^verbatim>\<open>ApplySettings\<close> of \<^verbatim>\<open>src/config/settings.go\<close>, which reads it. The
  JSON library is a parameter: the record \<open>gabs\<close> holds what its functions answer on a container,
  among them the children of an object in the order in which Go ranges over them.
\<close>

record 'j gabs =
  g_ParseJSON :: "byte list \<Rightarrow> 'j option"
  g_Path :: "'j \<Rightarrow> string \<Rightarrow> 'j"
  g_Children :: "'j \<Rightarrow> 'j list"
  g_ChildrenMap :: "'j \<Rightarrow> (string \<times> 'j) list"
  g_String :: "'j \<Rightarrow> string option"
  g_Number :: "'j \<Rightarrow> string option"
  g_Base64 :: "string \<Rightarrow> string option"

definition deviceIDPath :: string where "deviceIDPath = ''hub.credentials.deviceId''"
definition tenantIDPath :: string where "tenantIDPath = ''hub.credentials.tenantId''"
definition policyIDPath :: string where "policyIDPath = ''things.thing.policyId''"
definition authIDPath :: string where "authIDPath = ''hub.credentials.authId''"
definition adaptersPath :: string where "adaptersPath = ''hub.credentials.adapters''"
definition credentialsTypePath :: string where "credentialsTypePath = ''hub.credentials.type''"
definition certificate :: string where "certificate = ''x509-cert''"
definition secretsPath :: string where "secretsPath = ''hub.credentials.secrets''"
definition password :: string where "password = ''password''"
definition passwordBase64 :: string where "passwordBase64 = ''passwordBase64''"
definition authoritiesPath :: string where "authoritiesPath = ''hub.device.authorities''"
definition provisioningEnabled :: string where "provisioningEnabled = ''auto-provisioning-enabled''"

lemmas path_defs = deviceIDPath_def tenantIDPath_def policyIDPath_def authIDPath_def adaptersPath_def credentialsTypePath_def
  certificate_def secretsPath_def password_def passwordBase64_def authoritiesPath_def provisioningEnabled_def

definition readValue :: "'j gabs \<Rightarrow> 'j \<Rightarrow> string \<Rightarrow> string \<Rightarrow> string" where
  "readValue g jsonData path field = (case g_String g (g_Path g jsonData path) of Some v \<Rightarrow> v | None \<Rightarrow> field)"

definition getString :: "'j gabs \<Rightarrow> 'j \<Rightarrow> string \<Rightarrow> string" where
  "getString g jsonData path = (case g_String g (g_Path g jsonData path) of Some v \<Rightarrow> v | None \<Rightarrow> '''')"

definition hasElement :: "'j gabs \<Rightarrow> 'j \<Rightarrow> string \<Rightarrow> string \<Rightarrow> bool" where
  "hasElement g jsonData path element \<longleftrightarrow>
     list_ex (\<lambda>child. g_String g child = Some element) (g_Children g (g_Path g jsonData path))"

definition mqttURL :: "'j gabs \<Rightarrow> 'j \<Rightarrow> string" where
  "mqttURL g mqttSettings =
     (let uri = getString g mqttSettings ''uri''
      in if uri \<noteq> ''''
         then case g_Number g (g_Path g mqttSettings ''port'') of Some port \<Rightarrow> uri @ '':'' @ port | None \<Rightarrow> uri
         else uri)"

text \<open>A later adapter of type mqtt overrides an earlier one.\<close>

definition readAddress :: "'j gabs \<Rightarrow> 'j \<Rightarrow> string \<Rightarrow> string \<Rightarrow> string" where
  "readAddress g jsonData path field =
     fold (\<lambda>adapter field.
        fold (\<lambda>(k, v) field. if k = ''type'' \<and> g_String g v = Some ''mqtt'' then mqttURL g adapter else field)
          (g_ChildrenMap g adapter) field)
       (g_Children g (g_Path g jsonData path)) field"

text \<open>
  The loop over the entries of one secret: \<open>Inr (Some p)\<close> when it returns with the password \<open>p\<close>.
  The value of an encoded password is asserted to be a string without a check.
\<close>

fun read_secret :: "'j gabs \<Rightarrow> (string \<times> 'j) list \<Rightarrow> string option outcome" where
  "read_secret g [] = Inr None"
| "read_secret g ((k, v) # rest) =
     (if k = passwordBase64
      then case g_String g v of
             None \<Rightarrow> Inl TypeAssertion
           | Some enc \<Rightarrow> (case g_Base64 g enc of Some p \<Rightarrow> Inr (Some p) | None \<Rightarrow> read_secret g rest)
      else if k = password
      then case g_String g v of Some p \<Rightarrow> Inr (Some p) | None \<Rightarrow> read_secret g rest
      else read_secret g rest)"

fun read_secrets :: "'j gabs \<Rightarrow> 'j list \<Rightarrow> string \<Rightarrow> string outcome" where
  "read_secrets g [] field = Inr field"
| "read_secrets g (secret # rest) field =
     and_then (read_secret g (g_ChildrenMap g secret)) (\<lambda>r.
       case r of Some p \<Rightarrow> Inr p | None \<Rightarrow> read_secrets g rest field)"

definition readPassword :: "'j gabs \<Rightarrow> 'j \<Rightarrow> string \<Rightarrow> string \<Rightarrow> string outcome" where
  "readPassword g jsonData path field = read_secrets g (g_Children g (g_Path g jsonData path)) field"

text \<open>\<open>None\<close> is the error for data that is no JSON.\<close>

definition ParseProvisioningJSON ::
  "'j gabs \<Rightarrow> byte list \<Rightarrow> HubConnectionSettings \<Rightarrow> HubConnectionSettings option outcome" where
  "ParseProvisioningJSON g data settings =
     (case g_ParseJSON g data of
        None \<Rightarrow> Inr None
      | Some j \<Rightarrow>
          let s = settings\<lparr>hs_DeviceID := readValue g j deviceIDPath (hs_DeviceID settings),
                    hs_TenantID := readValue g j tenantIDPath (hs_TenantID settings),
                    hs_PolicyID := readValue g j policyIDPath (hs_PolicyID settings),
                    hs_AuthID := readValue g j authIDPath (hs_AuthID settings),
                    hs_Address := readAddress g j adaptersPath (hs_Address settings)\<rparr>
          in and_then (readPassword g j secretsPath (hs_Password s)) (\<lambda>p.
               Inr (Some (s\<lparr>hs_Password := p,
                 hs_UseCertificate := (getString g j credentialsTypePath = certificate),
                 hs_AutoProvisioningEnabled := hasElement g j authoritiesPath provisioningEnabled\<rparr>))))"

text \<open>\<open>readFile\<close> is \<^verbatim>\<open>ioutil.ReadFile\<close>.\<close>

definition ReadProvisioning ::
  "'j gabs \<Rightarrow> (string \<Rightarrow> stat_result) \<Rightarrow> (string \<Rightarrow> byte list option) \<Rightarrow> string \<Rightarrow> HubConnectionSettings
   \<Rightarrow> HubConnectionSettings option outcome" where
  "ReadProvisioning g stat readFile path settings =
     (if FileExists stat path
      then case readFile path of None \<Rightarrow> Inr None | Some data \<Rightarrow> ParseProvisioningJSON g data settings
      else Inr (Some settings))"

subsection \<open>Applying the settings\<close>

text \<open>
  \<open>merge\<close> is the overriding by the arguments of the command line. The result holds the causes of the
  published statuses.
\<close>

definition ApplySettings ::
  "('pool, 'cert) world \<Rightarrow> 'j gabs \<Rightarrow> (string \<Rightarrow> byte list option) \<Rightarrow> (Settings \<Rightarrow> Settings option)
   \<Rightarrow> bool \<Rightarrow> Settings \<Rightarrow> (string list \<times> (settings_error + Settings)) outcome" where
  "ApplySettings w g readFile merge cleanSession s =
     (let path = Provisioning_file s;
          updated = (if cleanSession then [StatusProvisioningUpdate] else [])
      in if \<not> FileExists (w_stat w) path
         then Inr (case ValidateDynamic w s of
                Inl e \<Rightarrow> ([StatusProvisioningMissing], Inl e)
              | Inr _ \<Rightarrow> (updated, Inr s))
         else and_then (ReadProvisioning g (w_stat w) readFile path (HubConnection s)) (\<lambda>read.
           Inr (case read of
                None \<Rightarrow> ([StatusProvisioningError], Inl ProvisioningUnreadable)
              | Some hub \<Rightarrow>
                  case merge (s\<lparr>st_Hub := hub\<rparr>) of
                    None \<Rightarrow> ([StatusProvisioningError], Inl MergeFailed)
                  | Some s' \<Rightarrow>
                      case ValidateDynamic w s' of
                        Inl e \<Rightarrow> ([StatusProvisioningError], Inl e)
                      | Inr _ \<Rightarrow> (updated, Inr s'))))"

subsection \<open>Lemmas\<close>

text \<open>The passwords a document offers, decoded.\<close>

definition offered :: "'j gabs \<Rightarrow> 'j \<Rightarrow> string set" where
  "offered g j = {p. \<exists>secret \<in> set (g_Children g (g_Path g j secretsPath)). \<exists>(k, v) \<in> set (g_ChildrenMap g secret).
     (k = password \<and> g_String g v = Some p) \<or>
     (k = passwordBase64 \<and> (\<exists>enc. g_String g v = Some enc \<and> g_Base64 g enc = Some p))}"

definition encoded_strings :: "'j gabs \<Rightarrow> 'j \<Rightarrow> bool" where
  "encoded_strings g j \<longleftrightarrow> (\<forall>secret \<in> set (g_Children g (g_Path g j secretsPath)).
     \<forall>(k, v) \<in> set (g_ChildrenMap g secret). k = passwordBase64 \<longrightarrow> g_String g v \<noteq> None)"

definition entry_password :: "'j gabs \<Rightarrow> string \<times> 'j \<Rightarrow> string option" where
  "entry_password g e = (case e of (k, v) \<Rightarrow>
     if k = passwordBase64 then (case g_String g v of None \<Rightarrow> None | Some enc \<Rightarrow> g_Base64 g enc)
     else if k = password then g_String g v else None)"

lemma read_secret_ok:
  assumes "\<forall>(k, v) \<in> set kvs. k = passwordBase64 \<longrightarrow> g_String g v \<noteq> None"
  shows "read_secret g kvs = Inr (List.find (\<lambda>_. True) (List.map_filter (entry_password g) kvs))"
  using assms
proof (induction g kvs rule: read_secret.induct)
  case (2 g k v rest)
  then show ?case
    by (cases "g_String g v") (auto simp: entry_password_def map_filter_simps password_def passwordBase64_def split: option.splits)
qed (simp add: map_filter_simps)

lemma read_secrets_ok:
  assumes "\<forall>secret \<in> set secrets. \<forall>(k, v) \<in> set (g_ChildrenMap g secret). k = passwordBase64 \<longrightarrow> g_String g v \<noteq> None"
  shows "\<exists>p. read_secrets g secrets field = Inr p \<and>
    (if \<exists>secret \<in> set secrets. \<exists>e \<in> set (g_ChildrenMap g secret). entry_password g e \<noteq> None
     then \<exists>secret \<in> set secrets. \<exists>e \<in> set (g_ChildrenMap g secret). entry_password g e = Some p else p = field)"
  using assms
proof (induction secrets)
  case (Cons secret rest)
  let ?l = "List.map_filter (entry_password g) (g_ChildrenMap g secret)"
  have 1: "read_secret g (g_ChildrenMap g secret) = Inr (List.find (\<lambda>_. True) ?l)"
    using Cons.prems by (intro read_secret_ok) simp
  show ?case
  proof (cases ?l)
    case Nil
    then have none: "\<forall>e \<in> set (g_ChildrenMap g secret). entry_password g e = None"
      by (auto simp: map_filter_def filter_empty_conv)
    obtain p where "read_secrets g rest field = Inr p"
      "if \<exists>secret \<in> set rest. \<exists>e \<in> set (g_ChildrenMap g secret). entry_password g e \<noteq> None
       then \<exists>secret \<in> set rest. \<exists>e \<in> set (g_ChildrenMap g secret). entry_password g e = Some p else p = field"
      using Cons by auto
    with none Nil 1 show ?thesis by (auto split: if_splits)
  next
    case (Cons p ps)
    then have "p \<in> set ?l" by simp
    then have "\<exists>e \<in> set (g_ChildrenMap g secret). entry_password g e = Some p"
      by (auto simp: map_filter_def)
    with Cons 1 show ?thesis by (intro exI [of _ p]) auto
  qed
qed simp

definition mqtt_adapter :: "'j gabs \<Rightarrow> 'j \<Rightarrow> bool" where
  "mqtt_adapter g adapter \<longleftrightarrow> list_ex (\<lambda>(k, v). k = ''type'' \<and> g_String g v = Some ''mqtt'') (g_ChildrenMap g adapter)"

lemma fold_override: "fold (\<lambda>(k, v) field. if P k v then u else field) kvs field = (if list_ex (\<lambda>(k, v). P k v) kvs then u else field)"
  by (induction kvs arbitrary: field) auto

lemma readAddress_last:
  "readAddress g j path field =
     (case filter (mqtt_adapter g) (g_Children g (g_Path g j path)) of
        [] \<Rightarrow> field | a # as \<Rightarrow> mqttURL g (last (a # as)))"
proof -
  have "fold (\<lambda>adapter field. if mqtt_adapter g adapter then mqttURL g adapter else field) as field =
      (case filter (mqtt_adapter g) as of [] \<Rightarrow> field | a # as \<Rightarrow> mqttURL g (last (a # as)))" for as
    by (induction as arbitrary: field) (auto split: list.splits)
  then show ?thesis by (simp add: readAddress_def fold_override mqtt_adapter_def)
qed

lemma password_keys [simp]: "passwordBase64 \<noteq> password" "password \<noteq> passwordBase64"
  by (simp_all add: passwordBase64_def password_def)

lemma entry_password_iff:
  "entry_password g e = Some p \<longleftrightarrow> (fst e = password \<and> g_String g (snd e) = Some p) \<or>
     (fst e = passwordBase64 \<and> (\<exists>enc. g_String g (snd e) = Some enc \<and> g_Base64 g enc = Some p))"
  by (cases e) (auto simp: entry_password_def split: option.splits)

lemma offered_entries:
  "offered g j = {p. \<exists>secret \<in> set (g_Children g (g_Path g j secretsPath)). \<exists>e \<in> set (g_ChildrenMap g secret). entry_password g e = Some p}"
  by (simp add: offered_def entry_password_iff split_beta)

lemma readPassword_ok:
  assumes "encoded_strings g j"
  obtains p where "readPassword g j secretsPath field = Inr p"
    "if offered g j = {} then p = field else p \<in> offered g j"
proof -
  obtain p where p: "readPassword g j secretsPath field = Inr p"
    "if \<exists>secret \<in> set (g_Children g (g_Path g j secretsPath)). \<exists>e \<in> set (g_ChildrenMap g secret). entry_password g e \<noteq> None
     then \<exists>secret \<in> set (g_Children g (g_Path g j secretsPath)). \<exists>e \<in> set (g_ChildrenMap g secret). entry_password g e = Some p
     else p = field"
    using read_secrets_ok [OF assms [unfolded encoded_strings_def], of field] unfolding readPassword_def by blast
  have "if offered g j = {} then p = field else p \<in> offered g j"
  proof (cases "offered g j = {}")
    case True
    then have "\<not> (\<exists>secret \<in> set (g_Children g (g_Path g j secretsPath)). \<exists>e \<in> set (g_ChildrenMap g secret). entry_password g e \<noteq> None)"
      unfolding offered_entries by blast
    with p(2) True show ?thesis by (simp only: if_True if_False refl)
  next
    case False
    then have "\<exists>secret \<in> set (g_Children g (g_Path g j secretsPath)). \<exists>e \<in> set (g_ChildrenMap g secret). entry_password g e \<noteq> None"
      unfolding offered_entries by blast
    with p(2) have "p \<in> offered g j" unfolding offered_entries by (simp only: if_True mem_Collect_eq)
    with False show ?thesis by simp
  qed
  with p(1) that show thesis by blast
qed

lemma read_secret_panic: "read_secret g kvs = Inl p \<Longrightarrow> p = TypeAssertion"
  by (induction g kvs rule: read_secret.induct) (auto split: if_splits option.splits)

lemma read_secrets_panic: "read_secrets g secrets field = Inl p \<Longrightarrow> p = TypeAssertion"
  by (induction secrets) (auto simp: and_then_def dest: read_secret_panic split: sum.splits option.splits)

lemma ReadProvisioning_panics:
  assumes "ReadProvisioning g stat readFile path s = Inl p"
  shows "p = TypeAssertion \<and> (\<exists>data j. readFile path = Some data \<and> g_ParseJSON g data = Some j \<and> \<not> encoded_strings g j)"
proof -
  obtain data j where d: "readFile path = Some data" "g_ParseJSON g data = Some j"
    and r: "readPassword g j secretsPath (hs_Password s) = Inl p"
    using assms by (auto simp: ReadProvisioning_def ParseProvisioningJSON_def Let_def and_then_def split: if_splits option.splits sum.splits)
  then have "\<not> encoded_strings g j" by (metis readPassword_ok sum.distinct(2))
  with d r show ?thesis by (auto simp: readPassword_def dest: read_secrets_panic)
qed

subsection \<open>Properties\<close>



text \<open>A JSON library on documents that are already parsed, for the witnesses.\<close>

datatype json = JString string | JNumber string | JArray "json list" | JObject "(string \<times> json) list" | JNull

fun json_member :: "json \<Rightarrow> string \<Rightarrow> json" where
  "json_member (JObject kvs) k = (case map_of kvs k of Some v \<Rightarrow> v | None \<Rightarrow> JNull)"
| "json_member _ k = JNull"

definition sample_gabs :: "json \<Rightarrow> json gabs" where
  "sample_gabs doc = \<lparr>g_ParseJSON = (\<lambda>_. Some doc),
     g_Path = (\<lambda>j path. fold (\<lambda>k j. json_member j k) (Split path (CHR ''.'')) j),
     g_Children = (\<lambda>j. case j of JArray js \<Rightarrow> js | JObject kvs \<Rightarrow> map snd kvs | _ \<Rightarrow> []),
     g_ChildrenMap = (\<lambda>j. case j of JObject kvs \<Rightarrow> kvs | _ \<Rightarrow> []),
     g_String = (\<lambda>j. case j of JString s \<Rightarrow> Some s | _ \<Rightarrow> None),
     g_Number = (\<lambda>j. case j of JNumber n \<Rightarrow> Some n | _ \<Rightarrow> None),
     g_Base64 = (\<lambda>s. if s = ''c2VjcmV0'' then Some ''secret'' else None)\<rparr>"

definition sample_secrets :: "json \<Rightarrow> json" where
  "sample_secrets v = JObject [(''hub'', JObject [(''credentials'', JObject [
     (''deviceId'', JString ''dev''),
     (''adapters'', JArray [JObject [(''type'', JString ''mqtt''), (''uri'', JString ''mqtts://h''), (''port'', JNumber ''8883'')]]),
     (''secrets'', JArray [JObject [(''passwordBase64'', v)]])])])]"

lemma sample_secrets_children:
  "g_Children (sample_gabs doc) (g_Path (sample_gabs doc) (sample_secrets v) secretsPath) = [JObject [(''passwordBase64'', v)]]"
  "g_Children (sample_gabs doc) (g_Path (sample_gabs doc) (sample_secrets v) adaptersPath) =
     [JObject [(''type'', JString ''mqtt''), (''uri'', JString ''mqtts://h''), (''port'', JNumber ''8883'')]]"
  "readValue (sample_gabs doc) (sample_secrets v) deviceIDPath x = ''dev''"
  by (simp_all add: sample_gabs_def sample_secrets_def path_defs readValue_def)


text \<open>
  An encoded password that is no string ends the program, although the settings of unexpected format are
  meant to be left out.
\<close>

lemma ParseProvisioningJSON_panics:
  "ParseProvisioningJSON (sample_gabs (sample_secrets (JNumber ''1''))) [] s = Inl TypeAssertion"
proof -
  let ?g = "sample_gabs (sample_secrets (JNumber ''1''))"
  have "g_ParseJSON ?g [] = Some (sample_secrets (JNumber ''1''))"
    "g_ChildrenMap ?g (JObject [(''passwordBase64'', JNumber ''1'')]) = [(''passwordBase64'', JNumber ''1'')]"
    "g_String ?g (JNumber ''1'') = None"
    by (simp_all add: sample_gabs_def)
  then show ?thesis
    by (simp add: ParseProvisioningJSON_def readPassword_def sample_secrets_children passwordBase64_def and_then_def)
qed

end
