(* ===== verification/Event_Loop.thy ===== *)
theory Event_Loop
  imports Settings
begin

text \<open>
  The application, \<^verbatim>\<open>src/cmd/connector/app/eventloop.go\<close>: the event loop that gathers the changes of
  the provisioning file and restarts the launcher for them, and \<^verbatim>\<open>Run\<close>, which sets everything up around
  it. The launcher itself is the theory \<open>Launcher\<close>; here a launcher is a number, and whether its
  \<^verbatim>\<open>Run\<close> succeeds is a parameter.
\<close>

subsection \<open>Events of the file watcher\<close>

text \<open>An operation is the set of its flags.\<close>

datatype fs_op = FsCreate | FsWrite | FsRemove | FsRename | FsChmod

record fs_event =
  fe_Name :: string
  fe_Op :: "fs_op list"

definition fsOp :: "fs_op list" where "fsOp = [FsCreate, FsWrite, FsChmod, FsRemove, FsRename]"

text \<open>\<^verbatim>\<open>filepath.Base\<close>: the last element of a path.\<close>

definition Base :: "string \<Rightarrow> string" where
  "Base path =
     (if path = [] then ''.''
      else let stripped = dropWhile (\<lambda>c. c = CHR ''/'') (rev path);
               b = rev (takeWhile (\<lambda>c. c \<noteq> CHR ''/'') stripped)
           in if b = [] then ''/'' else b)"

subsection \<open>The watcher of the provisioning file\<close>

text \<open>
  \<^verbatim>\<open>filepath.Clean\<close> and \<^verbatim>\<open>filepath.Dir\<close>: empty and dot elements are dropped, and an element is dropped with the
  double dot that follows it; above the root there is the root.
\<close>

fun clean_elements :: "bool \<Rightarrow> string list \<Rightarrow> string list \<Rightarrow> string list" where
  "clean_elements rooted out [] = rev out"
| "clean_elements rooted out (e # es) =
     (if e = '''' \<or> e = ''.'' then clean_elements rooted out es
      else if e = ''..''
      then case out of
             [] \<Rightarrow> clean_elements rooted (if rooted then [] else [''..'']) es
           | o1 # out' \<Rightarrow> clean_elements rooted (if o1 = ''..'' then ''..'' # out else out') es
      else clean_elements rooted (e # out) es)"

definition Clean :: "string \<Rightarrow> string" where
  "Clean path =
     (let rooted = HasPrefix path ''/'';
          p = (if rooted then ''/'' else '''') @ Join (clean_elements rooted [] (Split path (CHR ''/''))) ''/''
      in if p = [] then ''.'' else p)"

definition Dir :: "string \<Rightarrow> string" where
  "Dir path = Clean (rev (dropWhile (\<lambda>c. c \<noteq> CHR ''/'') (rev path)))"

datatype watcher_error = WatchPath path_error | WatchCreate | WatchAdd

text \<open>
  \<^verbatim>\<open>SetupProvisioningWatcher\<close> of \<^verbatim>\<open>src/util/file_watcher.go\<close>: the directory that is watched. \<open>newOk\<close> and \<open>addOk\<close> say
  whether the watcher library makes a watcher and watches a directory.
\<close>

definition SetupProvisioningWatcher ::
  "(string \<Rightarrow> stat_result) \<Rightarrow> bool \<Rightarrow> (string \<Rightarrow> bool) \<Rightarrow> string \<Rightarrow> watcher_error + string" where
  "SetupProvisioningWatcher stat newOk addOk path =
     (case ValidPath stat path of
        Inl e \<Rightarrow> Inl (WatchPath e)
      | Inr _ \<Rightarrow>
          if \<not> newOk then Inl WatchCreate
          else if \<not> addOk (Dir path) then Inl WatchAdd
          else Inr (Dir path))"

subsection \<open>The event loop\<close>

text \<open>What the select of the loop receives.\<close>

datatype loop_input = LSignal | LDone | LWatch fs_event | LTick

text \<open>
  The loop on the inputs, with the gathered events, the latest first; the flag of the result says that
  the loop has been left.
\<close>

fun event_loop :: "(fs_event \<Rightarrow> 's \<Rightarrow> 's) \<Rightarrow> string \<Rightarrow> loop_input list \<Rightarrow> fs_event list \<Rightarrow> 's \<Rightarrow> 's \<times> bool" where
  "event_loop launch name [] events s = (s, False)"
| "event_loop launch name (LSignal # ins) events s = (s, True)"
| "event_loop launch name (LDone # ins) events s = (s, True)"
| "event_loop launch name (LWatch e # ins) events s =
     event_loop launch name ins (if Base (fe_Name e) = name then e # events else events) s"
| "event_loop launch name (LTick # ins) events s =
     (case events of
        [] \<Rightarrow> event_loop launch name ins events s
      | e # _ \<Rightarrow> event_loop launch name ins [] (launch e s))"

definition EventLoop :: "(fs_event \<Rightarrow> 's \<Rightarrow> 's) \<Rightarrow> string \<Rightarrow> loop_input list \<Rightarrow> 's \<Rightarrow> 's \<times> bool" where
  "EventLoop launch fileName ins s = event_loop launch (Base fileName) ins [] s"

subsection \<open>Running the application\<close>

text \<open>What the application does that is seen from outside, and the launchers it runs.\<close>

datatype app_act =
  StatusSent string
| RouterStarted
| Ran nat bool bool
| Stopped nat
| LocalDisconnected
| RouterClosed
| WatcherClosed
| StatusPubClosed

record app_state =
  ap_launcher :: "nat option"
  ap_next :: nat
  ap_trace :: "app_act list"

definition does :: "app_act list \<Rightarrow> app_state \<Rightarrow> app_state" where
  "does acts a = a\<lparr>ap_trace := ap_trace a @ acts\<rparr>"

definition stopLauncher :: "app_state \<Rightarrow> app_state" where
  "stopLauncher a = (case ap_launcher a of None \<Rightarrow> a | Some l \<Rightarrow> does [Stopped l] a)"

text \<open>A new launcher is made and run; one that fails is dropped.\<close>

definition run_launcher :: "(nat \<Rightarrow> bool) \<Rightarrow> bool \<Rightarrow> app_state \<Rightarrow> app_state" where
  "run_launcher succeeds clean a =
     (let l = ap_next a
      in does [Ran l clean (succeeds l)]
           (a\<lparr>ap_next := l + 1, ap_launcher := (if succeeds l then Some l else None)\<rparr>))"

text \<open>The launcher the tests of the application run in place of that of the connector.\<close>

definition mockLauncher_Run :: "bool \<Rightarrow> Settings \<Rightarrow> settings_error option" where
  "mockLauncher_Run cleanSession global = None"

definition mockLauncher_Stop :: "app_state \<Rightarrow> app_state" where
  "mockLauncher_Stop a = a"

definition launch :: "(nat \<Rightarrow> bool) \<Rightarrow> fs_event \<Rightarrow> app_state \<Rightarrow> app_state" where
  "launch succeeds e a =
     (if filter (\<lambda>f. f \<in> set fsOp) (fe_Op e) = [] then a else run_launcher succeeds True (stopLauncher a))"

datatype app_error = LocalConfig settings_error | LocalRefused connect_end | WatcherFailed watcher_error

text \<open>
  \<^verbatim>\<open>Run\<close> of the application with the turns of the local connect, the answers of the watcher
  library and the inputs of the loop. The result is \<open>None\<close> as long as it has not returned, and the deferred
  calls are run in reverse order when it does.
\<close>

definition app_Run ::
  "('pool, 'cert) world \<Rightarrow> (ConnectionStatus \<Rightarrow> byte list option) \<Rightarrow> string \<Rightarrow> connect_turn list
   \<Rightarrow> bool \<Rightarrow> (string \<Rightarrow> bool) \<Rightarrow> (nat \<Rightarrow> bool) \<Rightarrow> loop_input list \<Rightarrow> Settings \<Rightarrow> app_act list \<times> (app_error + unit) option" where
  "app_Run w enc localClientID turns newOk addOk succeeds ins s =
     (case CreateLocalConnection w enc localClientID (LocalConnection s)
             :: settings_error + (('pool, 'cert) tls_config, nat, nat) MQTTConnection of
        Inl e \<Rightarrow> ([], Some (Inl (LocalConfig e)))
      | Inr localClient \<Rightarrow>
          (case LocalConnect turns of
             None \<Rightarrow> ([], None)
           | Some Connected \<Rightarrow>
               (case SetupProvisioningWatcher (w_stat w) newOk addOk (Provisioning_file s) of
                  Inl e \<Rightarrow> ([StatusSent StatusConfigError, LocalDisconnected, StatusPubClosed], Some (Inl (WatcherFailed e)))
                | Inr _ \<Rightarrow>
                    let a = run_launcher succeeds False \<lparr>ap_launcher = None, ap_next = 0, ap_trace = [RouterStarted]\<rparr>
                    in (case EventLoop (launch succeeds) (Provisioning_file s) ins a of
                          (a, False) \<Rightarrow> (ap_trace a, None)
                        | (a, True) \<Rightarrow>
                            (ap_trace (does [LocalDisconnected, RouterClosed, WatcherClosed, StatusPubClosed] (stopLauncher a)),
                             Some (Inr ()))))
           | Some r \<Rightarrow> ([], Some (Inl (LocalRefused r)))))"

subsection \<open>Lemmas\<close>

text \<open>
  The specification of the event loop: it keeps the latest matching event only and launches it at the
  next tick.
\<close>

fun launched :: "string \<Rightarrow> fs_event option \<Rightarrow> loop_input list \<Rightarrow> fs_event list" where
  "launched name p [] = []"
| "launched name p (LSignal # ins) = []"
| "launched name p (LDone # ins) = []"
| "launched name p (LWatch e # ins) = launched name (if Base (fe_Name e) = name then Some e else p) ins"
| "launched name p (LTick # ins) = (case p of None \<Rightarrow> launched name None ins | Some e \<Rightarrow> e # launched name None ins)"

abbreviation latest :: "fs_event list \<Rightarrow> fs_event option" where
  "latest events \<equiv> (case events of [] \<Rightarrow> None | e # _ \<Rightarrow> Some e)"

definition leaves :: "loop_input \<Rightarrow> bool" where
  "leaves i \<longleftrightarrow> i = LSignal \<or> i = LDone"

lemma leaves_simps [simp]: "leaves LSignal" "leaves LDone" "\<not> leaves (LWatch e)" "\<not> leaves LTick"
  by (simp_all add: leaves_def)

lemma event_loop_spec:
  "event_loop f name ins events s = (fold f (launched name (latest events) ins) s, list_ex leaves ins)"
  by (induction f name ins events s rule: event_loop.induct) (auto split: list.splits)

lemma launched_le: "length (launched name p ins) \<le> length (filter (\<lambda>i. i = LTick) ins)"
  by (induction name p ins rule: launched.induct) (auto split: option.splits)

lemma launched_match:
  assumes "pred_option (\<lambda>e. Base (fe_Name e) = name) p"
  shows "list_all (\<lambda>e. Base (fe_Name e) = name) (launched name p ins)"
  using assms
proof (induction name p ins rule: launched.induct)
  case (5 name p ins)
  then show ?case by (cases p) simp_all
qed simp_all

lemma launched_quiet:
  assumes "\<forall>i \<in> set mid. \<exists>e. i = LWatch e \<and> Base (fe_Name e) \<noteq> name"
  shows "launched name p (mid @ ins) = launched name p ins"
  using assms by (induction mid) auto

lemma launched_append:
  assumes "\<forall>i \<in> set pre. \<not> leaves i"
  shows "\<exists>q. \<forall>ins. launched name p (pre @ ins) = launched name p pre @ launched name q ins"
  using assms
proof (induction name p pre rule: launched.induct)
  case (5 name p ins)
  then show ?case by (cases p) auto
qed auto

text \<open>Launchers alternate: at most one runs, and it is stopped before the next is run.\<close>

fun one_at_a_time :: "nat option \<Rightarrow> app_act list \<Rightarrow> bool" where
  "one_at_a_time l [] = True"
| "one_at_a_time l (Ran n clean ok # as) = (l = None \<and> one_at_a_time (if ok then Some n else None) as)"
| "one_at_a_time l (Stopped n # as) = (l = Some n \<and> one_at_a_time None as)"
| "one_at_a_time l (a # as) = one_at_a_time l as"

text \<open>The launcher that runs after a trace.\<close>

fun running_after :: "nat option \<Rightarrow> app_act list \<Rightarrow> nat option" where
  "running_after l [] = l"
| "running_after l (Ran n clean ok # as) = running_after (if ok then Some n else None) as"
| "running_after l (Stopped n # as) = running_after None as"
| "running_after l (a # as) = running_after l as"

lemma running_after_append [simp]: "running_after l (as @ bs) = running_after (running_after l as) bs"
  by (induction l as rule: running_after.induct) auto

lemma one_at_a_time_append [simp]:
  "one_at_a_time l (as @ bs) \<longleftrightarrow> one_at_a_time l as \<and> one_at_a_time (running_after l as) bs"
  by (induction l as rule: one_at_a_time.induct) auto

abbreviation runs :: "app_act list \<Rightarrow> (nat \<times> bool) list" where
  "runs \<equiv> List.map_filter (\<lambda>a. case a of Ran n clean ok \<Rightarrow> Some (n, clean) | _ \<Rightarrow> None)"

definition app_inv :: "nat \<Rightarrow> app_state \<Rightarrow> bool" where
  "app_inv k a \<longleftrightarrow> one_at_a_time None (ap_trace a) \<and> running_after None (ap_trace a) = ap_launcher a \<and>
     ap_next a = k \<and> runs (ap_trace a) = map (\<lambda>n. (n, n > 0)) [0..<k]"

definition effective :: "fs_event \<Rightarrow> bool" where "effective e \<longleftrightarrow> fe_Op e \<noteq> []"

lemma fsOp_all: "filter (\<lambda>f. f \<in> set fsOp) fs = [] \<longleftrightarrow> fs = []"
proof -
  have "f \<in> set fsOp" for f by (cases f) (simp_all add: fsOp_def)
  then show ?thesis by simp
qed

lemma runs_append: "runs (as @ bs) = runs as @ runs bs"
  by (simp add: map_filter_def)

text \<open>With mock launchers one runs after the start and after every event that is launched.\<close>

lemma mock_always_runs:
  assumes "succeeds = (\<lambda>_. mockLauncher_Run clean s = None)"
  shows "ap_launcher (run_launcher succeeds clean a) = Some (ap_next a)"
    "ap_launcher a \<noteq> None \<Longrightarrow> ap_launcher (launch succeeds e (mockLauncher_Stop a)) \<noteq> None"
  using assms by (simp_all add: run_launcher_def launch_def does_def mockLauncher_Run_def mockLauncher_Stop_def Let_def)

lemma launch_inv:
  assumes "app_inv k a" "k > 0"
  shows "app_inv (if effective e then Suc k else k) (launch succeeds e a)"
  using assms
  by (auto simp: app_inv_def launch_def fsOp_all effective_def run_launcher_def stopLauncher_def does_def Let_def
      runs_append map_filter_simps split: option.splits)

lemma fold_launch_inv:
  assumes "app_inv k a" "k > 0"
  shows "app_inv (k + length (filter effective es)) (fold (launch succeeds) es a)"
  using assms
proof (induction es arbitrary: a k)
  case (Cons e es)
  from launch_inv [OF Cons.prems, of e succeeds] Cons.IH [of _ "launch succeeds e a"] Cons.prems(2) show ?case
    by (cases "effective e") fastforce+
qed simp

subsection \<open>Properties\<close>

text \<open>
  (C40) The event loop debounces: when it comes to a tick it launches once, with the latest event on the
  provisioning file since the tick before, and then forgets it, so that what it launches later depends on the
  later inputs only. Events on other files do not count, there are at most as many launches as ticks, and
  whatever comes after a signal or the end of the context is not looked at.
\<close>

theorem EventLoop_debounces:
  assumes "Base (fe_Name e) = Base fileName" and "\<forall>i \<in> set pre. \<not> leaves i"
    and "\<forall>i \<in> set mid. \<exists>e'. i = LWatch e' \<and> Base (fe_Name e') \<noteq> Base fileName"
  shows "\<exists>s'. EventLoop f fileName pre s = (s', False) \<and>
      EventLoop f fileName (pre @ LWatch e # mid @ LTick # post) s = EventLoop f fileName post (f e s') \<and>
      EventLoop f fileName (pre @ LWatch e # mid @ LSignal # post) s = (s', True) \<and>
      (\<exists>es. s' = fold f es s \<and> length es \<le> length (filter (\<lambda>i. i = LTick) pre) \<and>
         list_all (\<lambda>e. Base (fe_Name e) = Base fileName) es)"
proof -
  let ?n = "Base fileName" and ?es = "launched (Base fileName) None pre"
  obtain q where q: "launched ?n None (pre @ ins) = ?es @ launched ?n q ins" for ins
    using launched_append [OF assms(2)] by blast
  have pre: "\<not> list_ex leaves pre" "\<not> list_ex leaves mid"
    using assms(2,3) by (auto simp: list_ex_iff)
  have "length ?es \<le> length (filter (\<lambda>i. i = LTick) pre)" "list_all (\<lambda>e. Base (fe_Name e) = ?n) ?es"
    by (rule launched_le) (simp add: launched_match)
  moreover have "launched ?n None (pre @ LWatch e # mid @ LTick # post) = ?es @ e # launched ?n None post"
    "launched ?n None (pre @ LWatch e # mid @ LSignal # post) = ?es"
    by (simp_all add: q assms(1) launched_quiet [OF assms(3)])
  ultimately show ?thesis
    using pre by (intro exI [of _ "fold f ?es s"]) (auto simp: EventLoop_def event_loop_spec)
qed

theorem EventLoop_debounces_witness:
  "EventLoop (\<lambda>e es. es @ [e]) ''/etc/provisioning.json''
     [LWatch \<lparr>fe_Name = ''/etc/provisioning.json'', fe_Op = [FsCreate]\<rparr>,
      LWatch \<lparr>fe_Name = ''/etc/provisioning.json'', fe_Op = [FsWrite]\<rparr>,
      LWatch \<lparr>fe_Name = ''/etc/hosts'', fe_Op = [FsWrite]\<rparr>, LTick, LSignal] [] =
   ([\<lparr>fe_Name = ''/etc/provisioning.json'', fe_Op = [FsWrite]\<rparr>], True)"
  using EventLoop_debounces [of "\<lparr>fe_Name = ''/etc/provisioning.json'', fe_Op = [FsWrite]\<rparr>" "''/etc/provisioning.json''"
      "[LWatch \<lparr>fe_Name = ''/etc/provisioning.json'', fe_Op = [FsCreate]\<rparr>]"
      "[LWatch \<lparr>fe_Name = ''/etc/hosts'', fe_Op = [FsWrite]\<rparr>]" "\<lambda>e es. es @ [e]" "[]" "[LSignal]"]
  by (simp add: Base_def EventLoop_def)

text \<open>
  (C15) The application runs one launcher at a time: a launcher is run only when none runs and stopped only
  when it is the one that runs. The first is run without a clean session and every restart with one, and
  there is a restart for every launched event with an operation. When the application has returned without
  an error no launcher is left running and the local connection, the router, the watcher and the
  publisher of the status are released, in this order; with an error no launcher was run.
\<close>

theorem app_Run_one_launcher:
  "case app_Run w enc localClientID turns newOk addOk succeeds ins s of (trace, r) \<Rightarrow>
     one_at_a_time None trace \<and>
     (let n = Suc (length (filter effective (launched (Base (st_ProvisioningFile s)) None ins)));
          restarts = map (\<lambda>n. (n, n > 0)) [0..<n]
      in case r of
           None \<Rightarrow> runs trace = [] \<or> runs trace = restarts
         | Some (Inl e) \<Rightarrow> runs trace = []
         | Some (Inr _) \<Rightarrow>
             runs trace = restarts \<and> running_after None trace = None \<and>
             drop (length trace - 4) trace = [LocalDisconnected, RouterClosed, WatcherClosed, StatusPubClosed])"
proof (cases "CreateLocalConnection w enc localClientID (st_Local s)
    :: settings_error + (('a, 'b) tls_config, nat, nat) MQTTConnection")
  case (Inl e)
  then show ?thesis by (simp add: app_Run_def map_filter_simps)
next
  case created: (Inr c)
  let ?start = "run_launcher succeeds False \<lparr>ap_launcher = None, ap_next = 0, ap_trace = [RouterStarted]\<rparr>"
  let ?es = "launched (Base (st_ProvisioningFile s)) None ins"
  have "app_inv 1 ?start"
    by (simp add: app_inv_def run_launcher_def does_def Let_def map_filter_simps)
  from fold_launch_inv [OF this, where es = ?es and succeeds = succeeds]
  obtain a where inv: "app_inv (Suc (length (filter effective ?es))) a"
    and loop: "EventLoop (launch succeeds) (st_ProvisioningFile s) ins ?start = (a, list_ex leaves ins)"
    by (simp add: EventLoop_def event_loop_spec)
  show ?thesis
  proof (cases "LocalConnect turns = Some Connected \<and> (\<exists>dir. SetupProvisioningWatcher (w_stat w) newOk addOk (st_ProvisioningFile s) = Inr dir)")
    case True
    with created loop inv show ?thesis
      by (cases "list_ex leaves ins"; cases "ap_launcher a")
        (auto simp: app_Run_def app_inv_def stopLauncher_def does_def runs_append map_filter_simps)
  next
    case False
    with created show ?thesis
      by (cases "LocalConnect turns"; cases "the (LocalConnect turns)";
          cases "SetupProvisioningWatcher (w_stat w) newOk addOk (st_ProvisioningFile s)")
        (auto simp: app_Run_def map_filter_simps)
  qed
qed

text \<open>The directory of a path, as the watcher is given it.\<close>

lemma Dir_examples: "Dir ''provisioning.json'' = ''.''" "Dir ''/etc/kanto//p.json'' = ''/etc/kanto''" "Dir ''/p.json'' = ''/''" "Dir ''a/../p.json'' = ''.''"
  by (simp_all add: Dir_def Clean_def HasPrefix_def Let_def)

end
