(* ===== verification/Launcher.thy ===== *)
theory Launcher
  imports Provisioning Event_Loop Subscriber Subscription_Manager Transitions
begin

text \<open>
  The launcher, \<^verbatim>\<open>src/cmd/connector/launcher.go\<close>: \<^verbatim>\<open>Run\<close> applies the settings, makes the two
  connections and the buses between them; the goroutine it starts connects to the hub, serves until it is
  signalled and shuts down; \<^verbatim>\<open>Stop\<close> signals it and waits. The first part is the function \<open>launcher_Run\<close>,
  the second a transition system.
\<close>

subsection \<open>Starting\<close>

text \<open>The connection listeners of a launcher, and the publishers and subscribers of its buses by client.\<close>

datatype listener = StatusHandler | ReconnectHandler | ConnHandler | ErrorsHandler
datatype bus_pub = HubPub hono_pub | LocalPub publisher | CloudPub publisher
datatype bus_sub = HubSub subscriber | CloudSub subscriber

type_synonym ('pool, 'cert) client = "(('pool, 'cert) tls_config, nat, listener) MQTTConnection"

record ('pool, 'cert) started =
  la_cloud :: "('pool, 'cert) client"
  la_hono :: "('pool, 'cert) client"
  la_cleanup :: "bool option"
  la_manager :: "(('pool, 'cert) tls_config, nat, listener) subscriptionManager"
  la_params :: GwParams
  la_buses :: "(bus_sub, bus_pub, bool cache) bus list"
  la_reqCache :: "bool cache"

definition NewHonoSub :: subscriber where
  "NewHonoSub = NewBufferedSubscriber 256 False"

text \<open>
  What the buses take from the libraries: the time stamp inserted into a payload, the envelope of a
  command, the encoding of the gateway parameters, the time and a fresh identifier.
\<close>

record codecs =
  co_setJson :: "byte list \<Rightarrow> int \<Rightarrow> byte list option"
  co_envelope :: "byte list \<Rightarrow> (string \<times> string) option"
  co_params :: "GwParams \<Rightarrow> byte list option"
  co_millis :: int
  co_now :: instant
  co_uuid :: string

definition launcher_buses ::
  "('pool, 'cert) world \<Rightarrow> codecs \<Rightarrow> bool \<Rightarrow> HubConnectionSettings \<Rightarrow> hono_pub
   \<Rightarrow> (bus_sub, bus_pub, bool cache) bus list" where
  "launcher_buses w co generic s honoPub =
     (let params = NewGwParams (hs_DeviceID s) (hs_TenantID s) (hs_PolicyID s);
          mosquittoSub = CloudSub (NewSubscriber QosAtLeastOnce False)
      in [ParamsBus (co_params co) (co_uuid co) params (LocalPub (NewPublisher QosAtMostOnce))
            (CloudSub (NewSubscriber QosAtMostOnce False)),
          EventsBus (w_Getenv w) (co_setJson co) (co_millis co) (HubPub honoPub) mosquittoSub (hs_TenantID s) (hs_DeviceID s) generic,
          TelemetryBus (w_Getenv w) (HubPub honoPub) mosquittoSub (hs_TenantID s) (hs_DeviceID s) generic,
          CommandsResBus (w_Getenv w) (co_envelope co) (HubPub honoPub) mosquittoSub (hs_TenantID s) (hs_DeviceID s) generic,
          CommandsReqBus (co_envelope co) (co_now co) (CloudPub (NewPublisher QosAtLeastOnce)) (HubSub NewHonoSub)
            (hs_TenantID s) (hs_DeviceID s) generic])"

text \<open>
  \<open>i\<close> is the fresh name of the hub client among the connections of the subscription manager. The result
  holds the causes of the published statuses.
\<close>

definition launcher_Run ::
  "('pool, 'cert) world \<Rightarrow> codecs \<Rightarrow> 'j gabs \<Rightarrow> (string \<Rightarrow> byte list option) \<Rightarrow> (Settings \<Rightarrow> Settings option)
   \<Rightarrow> (string list \<Rightarrow> string list) \<Rightarrow> string \<Rightarrow> nat \<Rightarrow> (('pool, 'cert) tls_config, nat, listener) subscriptionManager
   \<Rightarrow> bool \<Rightarrow> Settings \<Rightarrow> (string list \<times> (settings_error + ('pool, 'cert) started)) outcome" where
  "launcher_Run w co g readFile merge sh cloudID i m cleanSession global =
     and_then (ApplySettings w g readFile merge cleanSession global) (\<lambda>(causes, applied).
       case applied of
         Inl e \<Rightarrow> Inr (causes, Inl e)
       | Inr settings \<Rightarrow>
           let generic = AWS w (st_Hub settings) \<or> hs_Generic (st_Hub settings) in
           case CreateCloudConnection w cloudID (st_Local settings) False of
             Inl e \<Rightarrow> Inr (causes, Inl e)
           | Inr cloudClient \<Rightarrow>
               (case CreateHubConnection w (st_Hub settings) False of
                  (s, Inl (e, _)) \<Rightarrow> Inr (causes @ [StatusConnectionError], Inl e)
                | (s, Inr (honoClient, cleanup)) \<Rightarrow>
                    let m1 = m\<lparr>conns := (conns m)(i := honoClient)\<rparr>;
                        m2 = (if generic then m1 else ForwardTo sh i m1)
                    in and_then (NewHonoPub w) (\<lambda>honoPub.
                         Inr (causes, Inr \<lparr>la_cloud = cloudClient, la_hono = conns m2 i, la_cleanup = cleanup,
                           la_manager = m2, la_params = NewGwParams (hs_DeviceID s) (hs_TenantID s) (hs_PolicyID s),
                           la_buses = launcher_buses w co generic s honoPub, la_reqCache = NewTTLCache\<rparr>))))"

subsection \<open>Serving and stopping\<close>

datatype stage = AwaitRunning | Connecting | Serving | Finishing | Exited
datatype stop_stage = NotCalled | Waiting | Returned

datatype effect =
  RouterStopped
| SentClosed
| CacheClosed
| CleanedUp bool

text \<open>The buffered channels are the numbers of values in them.\<close>

record ('pool, 'cert) launch_sys =
  ls_stage :: stage
  ls_signals :: nat
  ls_done :: nat
  ls_stop :: stop_stage
  ls_cleanup :: "bool option"
  ls_cloud :: "('pool, 'cert) client"
  ls_hono :: "('pool, 'cert) client"
  ls_effects :: "effect list"

definition newLauncher :: "('pool, 'cert) started \<Rightarrow> ('pool, 'cert) launch_sys" where
  "newLauncher l = \<lparr>ls_stage = AwaitRunning, ls_signals = 0, ls_done = 0, ls_stop = NotCalled, ls_cleanup = la_cleanup l,
     ls_cloud = la_cloud l, ls_hono = la_hono l, ls_effects = []\<rparr>"

text \<open>The capacity of the two channels.\<close>

definition chan_cap :: nat where "chan_cap = 2"

definition add_listeners :: "('pool, 'cert) launch_sys \<Rightarrow> ('pool, 'cert) launch_sys" where
  "add_listeners s = s\<lparr>ls_cloud := AddConnectionListener ReconnectHandler (AddConnectionListener StatusHandler (ls_cloud s)),
     ls_hono := AddConnectionListener ErrorsHandler (AddConnectionListener ConnHandler (ls_hono s))\<rparr>"

definition remove_listeners :: "('pool, 'cert) launch_sys \<Rightarrow> ('pool, 'cert) launch_sys" where
  "remove_listeners s = s\<lparr>ls_hono := RemoveConnectionListener ConnHandler (RemoveConnectionListener ErrorsHandler (ls_hono s)),
     ls_cloud := RemoveConnectionListener StatusHandler (RemoveConnectionListener ReconnectHandler (ls_cloud s))\<rparr>"

text \<open>The first deferred function, which runs last, up to its send.\<close>

definition close_down :: "('pool, 'cert) launch_sys \<Rightarrow> ('pool, 'cert) launch_sys" where
  "close_down s = s\<lparr>ls_stage := Finishing,
     ls_effects := ls_effects s @ [SentClosed, CacheClosed] @ (case ls_cleanup s of None \<Rightarrow> [] | Some b \<Rightarrow> [CleanedUp b])\<rparr>"

definition stop_router :: "('pool, 'cert) launch_sys \<Rightarrow> ('pool, 'cert) launch_sys" where
  "stop_router s = s\<lparr>ls_effects := ls_effects s @ [RouterStopped]\<rparr>"

text \<open>The return after \<^verbatim>\<open>HonoConnect\<close> has failed, with its deferred calls.\<close>

definition connect_failed :: "('pool, 'cert) launch_sys \<Rightarrow> ('pool, 'cert) launch_sys" where
  "connect_failed s = close_down (remove_listeners (stop_router s))"

text \<open>The shutdown after the signal; the flags say whether the clients are connected then.\<close>

definition shut_down :: "bool \<Rightarrow> bool \<Rightarrow> ('pool, 'cert) launch_sys \<Rightarrow> ('pool, 'cert) launch_sys" where
  "shut_down cloudUp honoUp s =
     (let s1 = remove_listeners s;
          s2 = stop_router (s1\<lparr>ls_cloud := Disconnect cloudUp (ls_cloud s1)\<rparr>);
          s3 = s2\<lparr>ls_hono := Disconnect honoUp (ls_hono s2)\<rparr>
      in close_down (remove_listeners s3))"

text \<open>
  The steps: the router runs and the hub is dialled; another turn of the connect loop; its end, by itself
  or by a signal; a change of the hub connection told to the listeners; the signal that ends the service;
  the send of the goroutine; the two halves of \<^verbatim>\<open>Stop\<close>. \<open>None\<close> when a step is not possible.
\<close>

datatype launch_act =
  RouterRunning
| HonoTurn
| HonoEnd connect_end
| HonoSignalled
| HubEvent bool bool
| SignalTaken bool bool
| DoneSent
| StopSignals
| StopReturns

fun launch_step :: "launch_act \<Rightarrow> ('pool, 'cert) launch_sys \<Rightarrow> ('pool, 'cert) launch_sys option" where
  "launch_step RouterRunning s =
     (if ls_stage s = AwaitRunning
      then let s = add_listeners s in Some (s\<lparr>ls_stage := Connecting, ls_hono := Connect (ls_hono s)\<rparr>) else None)"
| "launch_step HonoTurn s =
     (if ls_stage s = Connecting then Some (s\<lparr>ls_hono := Connect (ls_hono s)\<rparr>) else None)"
| "launch_step (HonoEnd r) s =
     (if ls_stage s = Connecting
      then Some (if r = Connected then s\<lparr>ls_stage := Serving\<rparr> else connect_failed s) else None)"
| "launch_step HonoSignalled s =
     (if ls_stage s = Connecting \<and> ls_signals s > 0 then Some (connect_failed (s\<lparr>ls_signals := ls_signals s - 1\<rparr>)) else None)"
| "launch_step (HubEvent up cloudUp) s =
     Some (if ConnHandler \<in> set (listeners (ls_hono s))
           then s\<lparr>ls_cloud := CloudConnectionHandler_Connected cloudUp up (ls_cloud s)\<rparr> else s)"
| "launch_step (SignalTaken cloudUp honoUp) s =
     (if ls_stage s = Serving \<and> ls_signals s > 0
      then Some (shut_down cloudUp honoUp (s\<lparr>ls_signals := ls_signals s - 1\<rparr>)) else None)"
| "launch_step DoneSent s =
     (if ls_stage s = Finishing \<and> ls_done s < chan_cap then Some (s\<lparr>ls_stage := Exited, ls_done := ls_done s + 1\<rparr>) else None)"
| "launch_step StopSignals s =
     (if ls_stop s = NotCalled \<and> ls_signals s < chan_cap
      then Some (s\<lparr>ls_stop := Waiting, ls_signals := ls_signals s + 1\<rparr>) else None)"
| "launch_step StopReturns s =
     (if ls_stop s = Waiting \<and> ls_done s > 0 then Some (s\<lparr>ls_stop := Returned, ls_done := ls_done s - 1\<rparr>) else None)"

inductive launch_reachable :: "('pool, 'cert) launch_sys \<Rightarrow> ('pool, 'cert) launch_sys \<Rightarrow> bool" for s0 where
  start: "launch_reachable s0 s0"
| step: "launch_reachable s0 s \<Longrightarrow> launch_step a s = Some s' \<Longrightarrow> launch_reachable s0 s'"

subsection \<open>Lemmas on stopping\<close>

definition early :: "stage \<Rightarrow> bool" where
  "early st \<longleftrightarrow> st = AwaitRunning \<or> st = Connecting \<or> st = Serving"

definition closing_effects :: "bool option \<Rightarrow> effect list" where
  "closing_effects cleanup = [RouterStopped, SentClosed, CacheClosed] @ (case cleanup of None \<Rightarrow> [] | Some b \<Rightarrow> [CleanedUp b])"

lemma early_simps [simp]: "early AwaitRunning" "early Connecting" "early Serving" "\<not> early Finishing" "\<not> early Exited"
  by (simp_all add: early_def)

text \<open>The channels: one signal at most, none left over while the goroutine waits for one, and one answer.\<close>

definition channels_ok :: "('pool, 'cert) launch_sys \<Rightarrow> bool" where
  "channels_ok s \<longleftrightarrow>
     ls_signals s \<le> (if ls_stop s = NotCalled then 0 else 1) \<and>
     (if early (ls_stage s) \<and> ls_stop s \<noteq> NotCalled then ls_signals s = 1 \<and> ls_stop s = Waiting else True) \<and>
     ls_done s = (if ls_stage s = Exited \<and> ls_stop s \<noteq> Returned then 1 else 0) \<and>
     (if ls_stop s = Returned then ls_stage s = Exited else True)"

text \<open>The effects and the listeners by stage.\<close>

definition released_ok :: "bool option \<Rightarrow> ('pool, 'cert) launch_sys \<Rightarrow> bool" where
  "released_ok cleanup s \<longleftrightarrow>
     ls_cleanup s = cleanup \<and> ls_effects s = (if early (ls_stage s) then [] else closing_effects cleanup) \<and>
     (if ls_stage s = Connecting \<or> ls_stage s = Serving
      then listeners (ls_cloud s) = [StatusHandler, ReconnectHandler] \<and> listeners (ls_hono s) = [ConnHandler, ErrorsHandler]
      else listeners (ls_cloud s) = [] \<and> listeners (ls_hono s) = [])"

lemma client_sel [simp]:
  "listeners (Connect c) = listeners c" "listeners (Disconnect up c) = listeners c"
  "listeners (CloudConnectionHandler_Connected cloudUp up c) = listeners c"
  "running (Connect c)" "\<not> running (Disconnect up c)" "running (RemoveConnectionListener l c) = running c"
  "listeners (RemoveConnectionListener l c) = remove_listener l (listeners c)"
  "listeners (AddConnectionListener l c) = (if l \<in> set (listeners c) then listeners c else listeners c @ [l])"
  by (simp_all add: Connect_def Disconnect_def CloudConnectionHandler_Connected_def RemoveConnectionListener_def
      AddConnectionListener_def fireConnectionEvent_def call_def Let_def)

lemma stages [simp]:
  "ls_stage (connect_failed s) = Finishing" "ls_stage (shut_down a b s) = Finishing"
  "ls_signals (connect_failed s) = ls_signals s" "ls_signals (shut_down a b s) = ls_signals s"
  "ls_stop (connect_failed s) = ls_stop s" "ls_stop (shut_down a b s) = ls_stop s"
  "ls_done (connect_failed s) = ls_done s" "ls_done (shut_down a b s) = ls_done s"
  by (simp_all add: connect_failed_def shut_down_def close_down_def remove_listeners_def stop_router_def Let_def)

lemma channels_step:
  assumes "channels_ok s" "launch_step a s = Some s'"
  shows "channels_ok s'"
  using assms
  by (cases a) (auto simp: channels_ok_def add_listeners_def chan_cap_def Let_def split: if_splits)

lemma connect_failed_released:
  assumes "released_ok cleanup s" "ls_stage s = Connecting"
  shows "released_ok cleanup (connect_failed s)"
  using assms by (simp add: released_ok_def connect_failed_def close_down_def stop_router_def remove_listeners_def closing_effects_def)

lemma shut_down_released:
  assumes "released_ok cleanup s" "ls_stage s = Serving"
  shows "released_ok cleanup (shut_down a b s)"
  using assms
  by (simp add: released_ok_def shut_down_def close_down_def stop_router_def remove_listeners_def closing_effects_def Let_def)

lemma released_signals: "released_ok cleanup s \<Longrightarrow> released_ok cleanup (s\<lparr>ls_signals := n\<rparr>)"
  by (simp add: released_ok_def)

lemma released_step:
  assumes "released_ok cleanup s" "launch_step a s = Some s'"
  shows "released_ok cleanup s'"
proof (cases a)
  case RouterRunning
  with assms show ?thesis by (auto simp: released_ok_def add_listeners_def Let_def split: if_splits)
next
  case (HonoEnd r)
  with assms connect_failed_released [OF assms(1)] show ?thesis
    by (cases "r = Connected") (auto simp: released_ok_def [of _ "s\<lparr>ls_stage := Serving\<rparr>"] released_ok_def [of _ s] split: if_splits)
next
  case HonoSignalled
  with assms released_signals show ?thesis by (auto intro!: connect_failed_released split: if_splits)
next
  case (SignalTaken b c)
  with assms released_signals show ?thesis by (auto intro!: shut_down_released split: if_splits)
qed (use assms in \<open>auto simp: released_ok_def split: if_splits\<close>)

abbreviation launch_run :: "launch_act list \<Rightarrow> ('pool, 'cert) launch_sys \<Rightarrow> ('pool, 'cert) launch_sys option" where
  "launch_run \<equiv> run_steps (\<lambda>_. False) launch_step"

lemma launch_run_reachable: "launch_reachable s0 s \<Longrightarrow> launch_run as s = Some s' \<Longrightarrow> launch_reachable s0 s'"
  by (induction as arbitrary: s) (auto intro: launch_reachable.step split: option.splits)

lemma reachable_run: "launch_reachable s0 s \<longleftrightarrow> (\<exists>as. launch_run as s0 = Some s)"
proof
  assume "launch_reachable s0 s"
  then show "\<exists>as. launch_run as s0 = Some s"
  proof (induction rule: launch_reachable.induct)
    case (step s a s')
    then obtain as where "launch_run as s0 = Some s" by blast
    moreover have "launch_run [a] s = Some s'" using step.hyps(2) by simp
    ultimately show ?case by (blast intro: run_steps_two)
  qed (metis run_steps.simps(1))
qed (use launch_run_reachable launch_reachable.start in blast)

interpretation channels: stepping "\<lambda>_. False" launch_step channels_ok
  by unfold_locales (rule channels_step)

interpretation released: stepping "\<lambda>_. False" launch_step "released_ok cleanup" for cleanup
  by unfold_locales (rule released_step)

lemma channels_reachable:
  assumes "launch_reachable (newLauncher l) s"
  shows "channels_ok s"
proof -
  have "channels_ok (newLauncher l)" by (simp add: newLauncher_def channels_ok_def)
  with channels.run_inv assms show ?thesis unfolding reachable_run by blast
qed

lemma released_reachable:
  assumes "launch_reachable (newLauncher l) s" "listeners (la_cloud l) = []" "listeners (la_hono l) = []"
  shows "released_ok (la_cleanup l) s"
proof -
  have "released_ok (la_cleanup l) (newLauncher l)" using assms(2,3) by (simp add: newLauncher_def released_ok_def)
  with released.run_inv assms(1) show ?thesis unfolding reachable_run by blast
qed

text \<open>The steps of the launcher and of its caller, as opposed to those of the network.\<close>

fun own :: "launch_act \<Rightarrow> bool" where
  "own HonoTurn = False"
| "own (HubEvent up cloudUp) = False"
| "own _ = True"

fun stage_rank :: "stage \<Rightarrow> nat" where
  "stage_rank AwaitRunning = 4"
| "stage_rank Connecting = 3"
| "stage_rank Serving = 2"
| "stage_rank Finishing = 1"
| "stage_rank Exited = 0"

definition rank :: "('pool, 'cert) launch_sys \<Rightarrow> nat" where
  "rank s = stage_rank (ls_stage s) + (if ls_stop s = Returned then 0 else 1)"

lemma step_rank:
  assumes "launch_step a s = Some s'" "ls_stop s \<noteq> NotCalled"
  shows "rank s' + (if own a then 1 else 0) \<le> rank s" "ls_stop s' \<noteq> NotCalled"
  using assms by (cases a; auto simp: rank_def add_listeners_def Let_def split: if_splits)+

lemma stop_not_stuck:
  assumes "channels_ok s" "ls_stop s = Waiting"
  shows "\<exists>a s'. own a \<and> launch_step a s = Some s'"
proof (cases "ls_stage s")
  case AwaitRunning
  then have "own RouterRunning \<and> launch_step RouterRunning s \<noteq> None" by (simp add: Let_def)
  then show ?thesis by blast
next
  case Connecting
  with assms have "own HonoSignalled \<and> launch_step HonoSignalled s \<noteq> None" by (simp add: channels_ok_def)
  then show ?thesis by blast
next
  case Serving
  with assms have "own (SignalTaken False False) \<and> launch_step (SignalTaken False False) s \<noteq> None" by (simp add: channels_ok_def)
  then show ?thesis by blast
next
  case Finishing
  with assms have "own DoneSent \<and> launch_step DoneSent s \<noteq> None" by (simp add: channels_ok_def chan_cap_def)
  then show ?thesis by blast
next
  case Exited
  with assms have "own StopReturns \<and> launch_step StopReturns s \<noteq> None" by (simp add: channels_ok_def)
  then show ?thesis by blast
qed

interpretation stopping: bounded_progress "\<lambda>_. False" launch_step "\<lambda>s. channels_ok s \<and> ls_stop s \<noteq> NotCalled" own rank
  "\<lambda>s. ls_stop s = Returned"
proof (unfold_locales, goal_cases)
  case (1 s a s')
  then show ?case using channels_step step_rank(2) by blast
next
  case (2 s a s')
  then show ?case using step_rank(1) [of a s s'] by simp
next
  case (3 s)
  then have "ls_stop s = Waiting" by (cases "ls_stop s") simp_all
  with 3 show ?case using stop_not_stuck [of s] by simp
next
  case (4 s a s')
  then show ?case using step_rank(1) [of a s s'] by simp
qed

lemma finished_step:
  assumes "launch_step a s = Some s'" "released_ok cleanup s" "\<not> early (ls_stage s)"
  shows "ls_cloud s' = ls_cloud s" "ls_hono s' = ls_hono s" "\<not> early (ls_stage s')"
  using assms by (cases a; auto simp: released_ok_def split: if_splits)+

lemma finished_stays:
  assumes "launch_reachable s s'" "released_ok cleanup s" "\<not> early (ls_stage s)"
  shows "ls_cloud s' = ls_cloud s \<and> ls_hono s' = ls_hono s \<and> \<not> early (ls_stage s') \<and> released_ok cleanup s'"
  using assms
proof (induction rule: launch_reachable.induct)
  case (step t a s')
  then show ?case using finished_step [of a t s' cleanup] released_step [of cleanup t a s'] by simp
qed simp

subsection \<open>Properties\<close>

text \<open>
  (C9) Stop returns. Once it has signalled, whatever happens on the network and in whatever order the steps
  are taken, at most five steps of the launcher and its caller remain, one of them is always possible until
  Stop has returned, and when it has, the goroutine is done.
\<close>

theorem launcher_Stop_returns:
  assumes "launch_reachable (newLauncher l) s" and "ls_stop s = Waiting" and "launch_run as s = Some s'"
  shows "length (filter own as) \<le> 5 \<and>
    (if ls_stop s' = Returned then ls_stage s' = Exited else \<exists>a s''. own a \<and> launch_step a s' = Some s'')"
proof -
  have inv: "channels_ok s \<and> ls_stop s \<noteq> NotCalled" using channels_reachable [OF assms(1)] assms(2) by simp
  have "rank s \<le> 5" by (cases "ls_stage s") (simp_all add: rank_def)
  moreover have "channels_ok s'" using channels.run_inv [OF assms(3)] inv by blast
  then have "ls_stop s' = Returned \<Longrightarrow> ls_stage s' = Exited" by (simp add: channels_ok_def)
  ultimately show ?thesis using stopping.inevitable [OF assms(3) inv] by auto
qed

definition sample_client :: "(unit, unit) client" where
  "sample_client = \<lparr>mc_config = \<lparr>URL = ''tcp://h'', CleanSession = False, NoOpStore = False, ConnectTimeout = 0,
       KeepAliveTimeout = 0, ConnectRetryInterval = 0, ExternalReconnect = True, AuthErrRetries = 2,
       BackoffMultiplier = Finite 2, MaxReconnectInterval = Minute, MinReconnectInterval = Second,
       Creds = \<lparr>UserName = '''', Password = ''''\<rparr>, WillTopic = '''', WillMessage = [], WillQos = 0, WillRetain = False,
       TLSConfig = None\<rparr>,
     mc_clientID = ''id'', connectionOpen = False, calls = [], topics = Mapping.empty, subs = (\<lambda>_. nil_sub), nextSub = 0,
     listeners = [], defaultHandler = None, running = False, reconnecting = False, fired = []\<rparr>"

definition sample_launch :: "(unit, unit) started" where
  "sample_launch = \<lparr>la_cloud = sample_client, la_hono = sample_client, la_cleanup = Some True,
     la_manager = NewSubscriptionManager (\<lambda>_. sample_client), la_params = NewGwParams ''d'' ''t'' ''p'',
     la_buses = [], la_reqCache = NewTTLCache\<rparr>"

abbreviation sample_stop :: "launch_act list" where
  "sample_stop \<equiv> [HonoEnd Connected, HubEvent True False, SignalTaken True True, DoneSent, StopReturns]"

theorem launcher_Stop_returns_witness:
  "case launch_run [RouterRunning, StopSignals] (newLauncher sample_launch) of
     None \<Rightarrow> False
   | Some s \<Rightarrow> ls_stop s = Waiting \<and> (case launch_run sample_stop s of None \<Rightarrow> False | Some s' \<Rightarrow> ls_stage s' = Exited)"
proof -
  obtain s where s: "launch_run [RouterRunning, StopSignals] (newLauncher sample_launch) = Some s" "ls_stop s = Waiting"
    "ls_signals s = 1" "ls_stage s = Connecting" "ls_done s = 0"
    by (simp add: newLauncher_def sample_launch_def add_listeners_def chan_cap_def Let_def)
  obtain s' where s': "launch_run sample_stop s = Some s'" "ls_stop s' = Returned"
    using s(2-5) by (cases "ConnHandler \<in> set (listeners (ls_hono s))") (simp_all add: chan_cap_def)
  have "launch_reachable (newLauncher sample_launch) s"
    using s(1) launch_run_reachable launch_reachable.start by blast
  from launcher_Stop_returns [OF this s(2) s'(1)] s s' show ?thesis by simp
qed



text \<open>
  Not so if the signal comes while the launcher connects: there is a run, possible for every launcher,
  in which Stop returns while the hub client has been told to connect, the connection
  has come up and has started the cloud client, and neither of the two is ever disconnected.
\<close>

lemma Stop_while_connecting:
  "\<exists>s. launch_run [RouterRunning, HubEvent True False, StopSignals, HonoSignalled, DoneSent, StopReturns]
        (newLauncher (l\<lparr>la_cloud := (la_cloud l)\<lparr>listeners := []\<rparr>, la_hono := (la_hono l)\<lparr>listeners := []\<rparr>\<rparr>)) = Some s \<and>
     ls_stop s = Returned \<and> calls (ls_hono s) = calls (la_hono l) @ [ClientConnect] \<and>
     calls (ls_cloud s) = calls (la_cloud l) @ [ClientConnect] \<and> running (ls_hono s) \<and> running (ls_cloud s)"
  by (simp add: newLauncher_def add_listeners_def connect_failed_def close_down_def remove_listeners_def stop_router_def
      chan_cap_def CloudConnectionHandler_Connected_def Connect_def call_def AddConnectionListener_def
      RemoveConnectionListener_def Let_def)

subsection \<open>Lemmas on starting\<close>

definition fresh_client :: "('tls, 'h, 'l) MQTTConnection \<Rightarrow> bool" where
  "fresh_client c \<longleftrightarrow> listeners c = [] \<and> topics c = Mapping.empty \<and> calls c = [] \<and> subs c = (\<lambda>_. nil_sub) \<and> nextSub c = 0"

lemma NewMQTTConnection_fresh:
  "NewMQTTConnectionCredentialsProvider parses newID cfg cid = Inr c \<Longrightarrow> fresh_client c"
  by (auto simp: NewMQTTConnectionCredentialsProvider_def fresh_client_def Let_def split: option.splits sum.splits if_splits)

lemma CreateCloudConnection_fresh: "CreateCloudConnection w cid s clean = Inr c \<Longrightarrow> fresh_client c"
  by (auto simp: CreateCloudConnection_def open_local_def and_then_def split: option.splits sum.splits
      dest: NewMQTTConnection_fresh)

lemma finish_hub_fresh: "finish_hub w s cfg cleaner = (s', Inr (c, cl)) \<Longrightarrow> fresh_client c \<and> s' = s"
  by (auto simp: finish_hub_def split: sum.splits dest: NewMQTTConnection_fresh)

text \<open>What making the hub connection changes of the device ID.\<close>

definition device_ok :: "('pool, 'cert) world \<Rightarrow> HubConnectionSettings \<Rightarrow> HubConnectionSettings \<Rightarrow> bool" where
  "device_ok w s s' \<longleftrightarrow> hs_TenantID s' = hs_TenantID s \<and> hs_PolicyID s' = hs_PolicyID s \<and>
     (hs_DeviceID s' = hs_DeviceID s \<or> hs_DeviceIDPattern s \<noteq> [] \<and> w_NamespacedID w (hs_DeviceID s'))"

lemma hub_credentials_device:
  assumes "hub_credentials w t s cfg = Inr (s', cfg')"
  shows "device_ok w s s'"
  using assms by (auto simp: hub_credentials_def device_ok_def Let_def split: list.splits if_splits sum.splits)

lemma CreateHubConnection_device:
  assumes "CreateHubConnection w s nop = (s', Inr (c, cl))"
  shows "fresh_client c \<and> device_ok w s s'"
proof -
  define s1 where "s1 = (if length (hs_ClientID s) = 0 then s\<lparr>hs_ClientID := w_newID w\<rparr> else s)"
  have s1: "device_ok w s1 x \<Longrightarrow> device_ok w s x" for x by (simp add: s1_def device_ok_def split: if_splits)
  have "fresh_client c \<and> (s' = s1\<lparr>hs_UseCertificate := False\<rparr> \<or> device_ok w s1 s')"
    using assms unfolding CreateHubConnection_def Let_def s1_def [symmetric]
    by (auto split: option.splits if_splits sum.splits dest!: hub_credentials_device finish_hub_fresh)
  then have "fresh_client c \<and> device_ok w s1 s'" by (auto simp: device_ok_def)
  with s1 show ?thesis by blast
qed

lemma NewHonoPub_total: "\<exists>p. NewHonoPub w = Inr p"
  by (auto simp: NewHonoPub_def NewRateLimiter_def rate_interval_def Let_def and_then_def split: option.splits)

lemma fresh_conn_inv: "fresh_client c \<Longrightarrow> conn_inv c \<and> held c = {}"
  by (auto simp: fresh_client_def conn_inv_def held_def)

lemma forward_listeners: "listeners (forward t c) = listeners c"
  by (simp add: forward_def subscribe_def Let_def)

lemma fold_forward_listeners: "listeners (fold forward ts c) = listeners c"
  by (induction ts arbitrary: c) (simp_all add: forward_listeners)

lemma ForwardTo_listeners: "listeners (conns (ForwardTo sh i m) i) = listeners (conns m i)"
  by (simp add: ForwardTo_def on_conn_def copyTopics_def fold_forward_listeners)

lemma launcher_Run_cases:
  assumes "launcher_Run w co g readFile merge sh cloudID i m clean global = Inr (causes, Inr l)"
  obtains settings s honoClient honoPub where
    "ApplySettings w g readFile merge clean global = Inr (causes, Inr settings)"
    "CreateCloudConnection w cloudID (st_Local settings) False = Inr (la_cloud l)"
    "CreateHubConnection w (st_Hub settings) False = (s, Inr (honoClient, la_cleanup l))"
    "la_manager l = (let m1 = m\<lparr>conns := (conns m)(i := honoClient)\<rparr>
       in if AWS w (st_Hub settings) \<or> hs_Generic (st_Hub settings) then m1 else ForwardTo sh i m1)"
    "la_hono l = conns (la_manager l) i"
    "la_buses l = launcher_buses w co (AWS w (st_Hub settings) \<or> hs_Generic (st_Hub settings)) s honoPub"
    "la_params l = NewGwParams (hs_DeviceID s) (hs_TenantID s) (hs_PolicyID s)" "la_reqCache l = NewTTLCache"
  using assms unfolding launcher_Run_def Let_def and_then_def
  by (auto split: sum.splits prod.splits)

lemma ApplySettings_valid:
  "ApplySettings w g readFile merge clean s = Inr (causes, Inr s') \<Longrightarrow> hub_Validate w (st_Hub s') = Inr ()"
  by (auto simp: ApplySettings_def Let_def and_then_def split: if_splits sum.splits option.splits)

lemma launched_device:
  assumes "hub_Validate w s = Inr ()" "device_ok w s s'"
  shows "hs_TenantID s' \<noteq> []" "w_NamespacedID w (hs_DeviceID s') \<or> hs_DeviceID s' = [] \<and> hs_DeviceIDPattern s \<noteq> []"
  using assms by (auto simp: hub_Validate_def device_ok_def split: if_splits)

text \<open>The manager after the hub client has been made, and possibly made the target.\<close>

lemma launched_manager:
  assumes "sm_inv m" "fresh_client c" "sm_conn m \<noteq> Some i" "is_shuffle sh"
    and "m1 = m\<lparr>conns := (conns m)(i := c)\<rparr>" and "m2 = (if generic then m1 else ForwardTo sh i m1)"
  shows "sm_inv m2 \<and> sm_cnt m2 = sm_cnt m \<and> listeners (conns m2 i) = [] \<and>
    (if generic then sm_conn m2 = sm_conn m \<and> held (conns m2 i) = {}
     else sm_conn m2 = Some i \<and> held (conns m2 i) = Mapping.keys (sm_topics m))"
proof -
  have c: "conn_inv c" "held c = {}" "listeners c = []"
    using assms(2) fresh_conn_inv by (auto simp: fresh_client_def)
  then have m1: "sm_inv m1" "sm_cnt m1 = sm_cnt m" "held (conns m1 i) = {}" "sm_topics m1 = sm_topics m"
    using assms(1,3) by (auto simp: assms(5) sm_inv_def sm_cnt_def fun_eq_iff)
  show ?thesis
  proof (cases generic)
    case True
    with m1 c show ?thesis by (simp add: assms(5,6))
  next
    case False
    have f: "sm_inv (ForwardTo sh i m1)" "sm_cnt (ForwardTo sh i m1) = sm_cnt m1"
      using ForwardTo_law [OF m1(1) _ assms(4), of i] m1(3) by simp_all
    have "sm_conn (ForwardTo sh i m1) = Some i" "sm_topics (ForwardTo sh i m1) = sm_topics m1"
      by (simp_all add: ForwardTo_def copyTopics_def on_conn_def)
    moreover have "listeners (conns (ForwardTo sh i m1) i) = []"
      using c by (simp add: ForwardTo_listeners assms(5))
    ultimately show ?thesis using f m1 False by (auto simp: assms(6) sm_inv_def)
  qed
qed


definition bare_world :: "(unit, unit) world" where
  "bare_world = sample_world\<lparr>w_stat := (\<lambda>_. StatNotExist)\<rparr>"

definition sample_codecs :: codecs where
  "sample_codecs = \<lparr>co_setJson = (\<lambda>b _. Some b), co_envelope = (\<lambda>_. None), co_params = (\<lambda>_. Some []), co_millis = 0,
     co_now = Instant 0, co_uuid = ''u''\<rparr>"

definition tcp_settings :: "string \<Rightarrow> string \<Rightarrow> Settings" where
  "tcp_settings deviceID devicePattern = DefaultSettings\<lparr>st_Hub := (st_Hub DefaultSettings)\<lparr>hs_Address := ''tcp://h:1883'',
     hs_TenantID := ''t'', hs_ClientID := ''c'', hs_DeviceID := deviceID, hs_DeviceIDPattern := devicePattern,
     hs_TLS := (hs_TLS (st_Hub DefaultSettings))\<lparr>Cert := ''device.crt''\<rparr>\<rparr>\<rparr>"

lemma tcp_connections:
  "\<exists>c. CreateCloudConnection bare_world ''cloud'' (st_Local (tcp_settings d p)) False = Inr c"
  "\<exists>s c cl. CreateHubConnection bare_world (st_Hub (tcp_settings d p)) False = (s, Inr (c, cl)) \<and> hs_DeviceID s = d"
  by (simp_all add: CreateCloudConnection_def CreateHubConnection_def bare_world_def sample_world_def tcp_settings_def
      DefaultSettings_def NewMQTTClientConfig_def open_local_def SetupLocalTLS_def isConnectionSecure_def local_credentials_def
      and_then_def NewMQTTConnectionCredentialsProvider_def Validate_def hub_intervals_def env_seconds_def Atoi_def
      with_password_def finish_hub_def duration_defs Let_def)

lemma tcp_not_generic: "\<not> AWS bare_world (st_Hub (tcp_settings d p))" "\<not> hs_Generic (st_Hub (tcp_settings d p))"
  by (simp_all add: AWS_def bare_world_def sample_world_def tcp_settings_def DefaultSettings_def HasSuffix_def)

lemma tcp_launch:
  assumes "d \<noteq> [] \<or> p \<noteq> []"
  shows "\<exists>l. launcher_Run bare_world sample_codecs g readFile merge sh ''cloud'' i m False (tcp_settings d p) = Inr ([], Inr l) \<and>
    gw_DeviceID (la_params l) = d \<and> sm_conn (la_manager l) = Some i"
proof -
  have a: "ApplySettings bare_world g readFile merge False (tcp_settings d p) = Inr ([], Inr (tcp_settings d p))"
    using assms by (auto simp: ApplySettings_def FileExists_def ValidPath_def bare_world_def sample_world_def hub_Validate_def
        tcp_settings_def DefaultSettings_def Let_def)
  obtain c s h cl where "CreateCloudConnection bare_world ''cloud'' (st_Local (tcp_settings d p)) False = Inr (c :: (unit, unit) client)"
    "CreateHubConnection bare_world (st_Hub (tcp_settings d p)) False = (s, Inr (h :: (unit, unit) client, cl))" "hs_DeviceID s = d"
    using tcp_connections by blast
  moreover obtain hp where "NewHonoPub bare_world = Inr hp" using NewHonoPub_total by blast
  ultimately show ?thesis
    using a by (simp add: launcher_Run_def and_then_def NewGwParams_def tcp_not_generic ForwardTo_def copyTopics_def Let_def)
qed


text \<open>
  A device ID pattern is resolved by a secure connection only. With an address of another scheme the static
  validation accepts it and the launcher starts with an empty device ID.
\<close>

lemma pattern_without_tls:
  "ValidateStatic bare_world (tcp_settings '''' ''{{subject-cn}}'') = Inr () \<and>
   (\<exists>l. launcher_Run bare_world sample_codecs g readFile merge sh ''cloud'' i m False (tcp_settings '''' ''{{subject-cn}}'') =
      Inr ([], Inr l) \<and> gw_DeviceID (la_params l) = [])"
proof
  show "ValidateStatic bare_world (tcp_settings '''' ''{{subject-cn}}'') = Inr ()"
    by (simp add: ValidateStatic_def LogSettings_Validate_def local_Validate_def tcp_settings_def DefaultSettings_def bare_world_def
        sample_world_def isConnectionSecure_def)
  have "''{{subject-cn}}'' \<noteq> []" by simp
  with tcp_launch [of "''''" "''{{subject-cn}}''" g readFile merge sh i m]
  show "\<exists>l. launcher_Run bare_world sample_codecs g readFile merge sh ''cloud'' i m False (tcp_settings '''' ''{{subject-cn}}'') =
      Inr ([], Inr l) \<and> gw_DeviceID (la_params l) = []" by blast
qed

end
