(* ===== verification/Device_Subscriptions.thy ===== *)
theory Device_Subscriptions
  imports Log_Handler Launcher
begin

text \<open>
  The path of a command subscription of a device: the local broker logs it, the log handler (\<open>Log_Handler\<close>) counts it in the
  subscription manager, which subscribes it on the hub client of the launcher (\<open>Launcher\<close>) that runs. The log handler and the
  manager live as long as the application, while launchers come and go and their hub clients connect, lose the connection
  and are disconnected. The command bus of a launcher has a subscription of its own on the same client.
\<close>

subsection \<open>The life of a hub client\<close>

text \<open>What happens on a hub client apart from the calls of the manager; \<open>f\<close> is the handler of the command bus.\<close>

inductive hub_event :: "('pool, 'cert) client \<Rightarrow> ('pool, 'cert) client \<Rightarrow> bool" where
  connect: "hub_event c (Connect c)"
| open_or_closed: "hub_event c (c\<lparr>connectionOpen := b\<rparr>)"
| restore: "is_shuffle sh \<Longrightarrow> hub_event c (onConnected sh c)"
| lost: "onConnectionLost ts err c = Some c' \<Longrightarrow> hub_event c c'"
| disconnect: "hub_event c (Disconnect b c)"
| listen: "hub_event c (AddConnectionListener l c)"
| unlisten: "hub_event c (RemoveConnectionListener l c)"
| bus: "Subscribe u f TopicCommandRequest NewHonoSub c = Inr (Inr (c', how)) \<Longrightarrow> hub_event c c'"
| bus_stopped: "hub_event c (stopper NewHonoSub (Some TopicCommandRequest) c)"

text \<open>A client with the same subscriptions.\<close>

definition same_subs :: "('tls, 'h, 'l) MQTTConnection \<Rightarrow> ('tls, 'h, 'l) MQTTConnection \<Rightarrow> bool" where
  "same_subs c c' \<longleftrightarrow> topics c' = topics c \<and> subs c' = subs c \<and> nextSub c' = nextSub c"

lemma same_subs_kept: "same_subs c c' \<Longrightarrow> conn_inv c \<Longrightarrow> conn_inv c' \<and> held c' = held c"
  by (simp add: same_subs_def conn_inv_def held_def)

lemma same_subs_simps [simp]:
  "same_subs c (call x c') = same_subs c c'" "same_subs c (fireConnectionEvent b e c') = same_subs c c'" "same_subs c c"
  "same_subs c (c'\<lparr>reconnecting := b\<rparr>) = same_subs c c'" "same_subs c (c'\<lparr>running := b\<rparr>) = same_subs c c'"
  "same_subs c (c'\<lparr>connectionOpen := b\<rparr>) = same_subs c c'" "same_subs c (c'\<lparr>listeners := ls\<rparr>) = same_subs c c'"
  by (simp_all add: same_subs_def call_def fireConnectionEvent_def)

lemma reconnect_loop_subs: "reconnect_loop ts n c = Some (c', e) \<Longrightarrow> same_subs c0 c \<Longrightarrow> same_subs c0 c'"
  by (induction ts n c rule: reconnect_loop.induct) (auto simp: Let_def split: if_splits option.splits)

lemma onConnectionLost_subs: "onConnectionLost ts err c = Some c' \<Longrightarrow> same_subs c c'"
  by (auto simp: onConnectionLost_def externalReconnect_def Let_def elim!: reconnect_loop_subs split: if_splits option.splits)

lemma restore_subs: "conn_inv c \<Longrightarrow> is_shuffle sh \<Longrightarrow> same_subs c (onConnected sh c)"
proof -
  have "same_subs c (fold (\<lambda>sid. call (g sid)) sids c')" if "same_subs c c'" for g sids c'
    using that by (induction sids arbitrary: c') simp_all
  from this [OF same_subs_simps(3)] show "conn_inv c \<Longrightarrow> is_shuffle sh \<Longrightarrow> same_subs c (onConnected sh c)" by (simp only: onConnected_eq same_subs_simps)
qed

lemma hub_event_subs:
  assumes "hub_event c c'" "conn_inv c"
  shows "same_subs c c' \<or> c' = stopper NewHonoSub (Some TopicCommandRequest) c \<or>
    (\<exists>u f how. Subscribe u f TopicCommandRequest NewHonoSub c = Inr (Inr (c', how)))"
  using assms
  by cases (auto simp: restore_subs onConnectionLost_subs Connect_def Disconnect_def AddConnectionListener_def RemoveConnectionListener_def Let_def)

lemma parse_command_request: "parseSubs TopicCommandRequest = [TopicCommandRequest]"
  by (simp add: parseSubs_def TopicCommandRequest_def)

lemma command_request_filtered: "filterTopic TopicCommandRequest"
  by (simp add: filterTopic_def TopicCommandRequest_def Contains_def HasPrefix_def)

lemma bus_subscribed:
  assumes "Subscribe u f TopicCommandRequest NewHonoSub c = Inr (Inr (c', how))"
  obtains "subscribe u (Some f) (sb_qos NewHonoSub) [TopicCommandRequest] c = Inr (c', TopicCommandRequest)" "how = Some TopicCommandRequest"
proof -
  have "length TopicCommandRequest \<noteq> 0" "\<not> sb_closed NewHonoSub"
    by (simp_all add: TopicCommandRequest_def NewHonoSub_def NewBufferedSubscriber_def)
  with assms obtain sid where "subscribe u (Some f) (sb_qos NewHonoSub) [TopicCommandRequest] c = Inr (c', sid)" "how = Some sid"
    by (auto simp: Subscribe_def parse_command_request and_then_def Let_def split: sum.splits)
  moreover from this(1) have "sid = TopicCommandRequest" by (simp add: subscribe_def Let_def)
  ultimately show thesis using that by simp
qed

text \<open>The topics held for the devices stay what they are, as the topic of the command bus is none of them.\<close>

lemma hub_event_kept:
  assumes "hub_event c c'" "conn_inv c" "TopicCommandRequest \<notin> held c"
  shows "conn_inv c' \<and> held c' = held c"
proof -
  consider "same_subs c c'" | "c' = stopper NewHonoSub (Some TopicCommandRequest) c"
    | u f how where "Subscribe u f TopicCommandRequest NewHonoSub c = Inr (Inr (c', how))"
    using hub_event_subs [OF assms(1,2)] by blast
  then show ?thesis
  proof cases
    case 1
    then show ?thesis using assms(2) by (rule same_subs_kept)
  next
    case 2
    with assms(2,3) show ?thesis by (auto simp: stopper_def unsubscribe_inv held_unsubscribe)
  next
    case (3 u f how)
    from bus_subscribed [OF this] have s: "subscribe u (Some f) (sb_qos NewHonoSub) [TopicCommandRequest] c = Inr (c', TopicCommandRequest)" .
    then have "conn_inv c'" using conn_step_inv [OF conn_step.subscribe assms(2)] by blast
    moreover have "held c' = held c"
      using assms(2,3) conn_inv_fresh [OF assms(2)] by (auto simp: held_def subscribe_sel [OF s] lookup_mapping_if split: if_splits)
    ultimately show ?thesis ..
  qed
qed

subsection \<open>The life of the log handler\<close>

text \<open>
  The states of the log handler of an application, from the start on the manager \<open>m\<close>: the broker logs, a launcher starts with
  a new hub client, something happens on a hub client. \<open>g\<close> is the JSON library.
\<close>

inductive service_run ::
  "'j gabs \<Rightarrow> (string \<Rightarrow> string) \<Rightarrow> (('pool, 'cert) tls_config, nat, listener) subscriptionManager
   \<Rightarrow> (('pool, 'cert) tls_config, nat, listener) subscriptionManager LogHandler \<Rightarrow> bool" for g env m where
  start: "CreateServiceRouter m = [b] \<Longrightarrow> service_run g env m (lb_handler b)"
| logged: "service_run g env m h \<Longrightarrow> service_run g env m (ProcessLogs env sm_Add sm_Remove msg h)"
| launched: "service_run g env m h \<Longrightarrow> launcher_Run w co g readFile merge sh cloudID i (Manager h) clean global = Inr (causes, Inr l)
    \<Longrightarrow> sm_conn (Manager h) \<noteq> Some i \<Longrightarrow> is_shuffle sh \<Longrightarrow> service_run g env m (h\<lparr>Manager := la_manager l\<rparr>)"
| client: "service_run g env m h \<Longrightarrow> sm_conn (Manager h) = Some i \<Longrightarrow> hub_event (conns (Manager h) i) c
    \<Longrightarrow> service_run g env m (h\<lparr>Manager := on_conn i (\<lambda>_. c) (Manager h)\<rparr>)"

lemma launcher_Run_manager:
  assumes "launcher_Run w co g readFile merge sh cloudID i m clean global = Inr (causes, Inr l)"
    and "sm_inv m" "sm_conn m \<noteq> Some i" "is_shuffle sh"
  shows "sm_inv (la_manager l)" "sm_cnt (la_manager l) = sm_cnt m" "sm_conn (la_manager l) \<in> {Some i, sm_conn m}"
proof -
  obtain settings :: Settings and s honoClient where
    hub: "CreateHubConnection w (st_Hub settings) False = (s, Inr (honoClient, la_cleanup l))"
    and man: "la_manager l = (let m1 = m\<lparr>conns := (conns m)(i := honoClient)\<rparr>
       in if AWS w (st_Hub settings) \<or> hs_Generic (st_Hub settings) then m1 else ForwardTo sh i m1)"
    by (rule launcher_Run_cases [OF assms(1)]) (rule that; assumption)
  have "fresh_client honoClient" using CreateHubConnection_device [OF hub] by blast
  from launched_manager [OF assms(2) this assms(3,4) refl man [unfolded Let_def]]
  show "sm_inv (la_manager l)" "sm_cnt (la_manager l) = sm_cnt m" "sm_conn (la_manager l) \<in> {Some i, sm_conn m}"
    by (auto split: if_splits)
qed

text \<open>
  A launcher for a generic hub leaves the manager where it is: after a launcher for Hono the subscriptions of the devices are
  still forwarded to the hub client of that launcher, which has been disconnected.
\<close>

lemma generic_keeps_forwarding:
  assumes "launcher_Run w co g readFile merge sh cloudID i m clean global = Inr (causes, Inr l)"
    and "ApplySettings w g readFile merge clean global = Inr (causes, Inr settings)" "hs_Generic (st_Hub settings)"
  shows "sm_conn (la_manager l) = sm_conn m"
proof -
  obtain honoClient :: "('a, 'b) client" where "la_manager l = m\<lparr>conns := (conns m)(i := honoClient)\<rparr>"
    by (rule launcher_Run_cases [OF assms(1)]) (use assms(2,3) in \<open>simp add: Let_def\<close>)
  then show ?thesis by simp
qed

lemma log_inv_manager:
  "log_inv env sm_inv sm_cnt h \<Longrightarrow> sm_inv m \<Longrightarrow> sm_cnt m = sm_cnt (Manager h) \<Longrightarrow> log_inv env sm_inv sm_cnt (h\<lparr>Manager := m\<rparr>)"
  by (simp add: log_inv_def)

text \<open>No listed topic is that of the command bus, because it has a wildcard for the device.\<close>

lemma listed_not_bus: "log_inv env minv cnt h \<Longrightarrow> s \<in> set (SubcriptionList h) \<Longrightarrow> it_TopicID s \<noteq> TopicCommandRequest"
  using command_request_filtered by (auto simp: log_inv_def item_ok_def)

lemma held_not_bus:
  assumes "log_inv env sm_inv sm_cnt h" "sm_conn (Manager h) = Some i"
  shows "TopicCommandRequest \<notin> held (conns (Manager h) i)"
  unfolding log_inv_held [OF assms] using listed_not_bus [OF assms(1)] by fastforce

lemma service_run_inv:
  assumes "service_run g env m h" "sm_inv m" "sm_cnt m = (\<lambda>_. 0)"
  shows "log_inv env sm_inv sm_cnt h"
  using assms(1)
proof induction
  case (start b)
  then show ?case using new_log_inv [OF assms(2,3)] by (auto simp: CreateServiceRouter_def CreateLogHandler_def)
next
  case (logged h msg)
  show ?case using logged.IH by (rule manager.ProcessLogs_inv)
next
  case (launched h w co readFile merge sh cloudID i clean global causes l)
  have "sm_inv (Manager h)" using launched.IH by (simp add: log_inv_def)
  with launcher_Run_manager [OF launched.hyps(2) _ launched.hyps(3,4)] launched.IH show ?case by (intro log_inv_manager) blast+
next
  case (client h i c)
  have sm: "sm_inv (Manager h)" using client.IH by (simp add: log_inv_def)
  then have "conn_inv c \<and> held c = held (conns (Manager h) i)"
    using client.hyps held_not_bus [OF client.IH client.hyps(2)] by (intro hub_event_kept) (simp_all add: sm_inv_def)
  with sm client.hyps(2) have "sm_inv (on_conn i (\<lambda>_. c) (Manager h))" by (simp add: sm_inv_def)
  with client.IH show ?case by (rule log_inv_manager) (simp add: sm_cnt_def fun_eq_iff)
qed

subsection \<open>The subscription of the command bus\<close>

definition bus_entry :: "('tls, 'h, 'l) MQTTConnection \<Rightarrow> 'h subscriptioninfo option" where
  "bus_entry c = map_option (subs c) (Mapping.lookup (topics c) TopicCommandRequest)"

lemma bus_entry_kept:
  assumes "conn_inv c" "t \<noteq> TopicCommandRequest"
  shows "bus_entry (forward t c) = bus_entry c" "bus_entry (unsubscribe t True c) = bus_entry c"
proof -
  show "bus_entry (forward t c) = bus_entry c"
    using assms conn_inv_fresh [OF assms(1)] by (cases "Mapping.lookup (topics c) TopicCommandRequest")
      (auto simp: bus_entry_def forward_sel lookup_mapping_if)
  have "Mapping.lookup (topics c) TopicCommandRequest = Some b \<Longrightarrow> Mapping.lookup (topics c) t = Some a \<Longrightarrow> b \<noteq> a" for a b
    using assms by (auto simp: conn_inv_def)
  then show "bus_entry (unsubscribe t True c) = bus_entry c"
    using assms(2) by (cases "Mapping.lookup (topics c) TopicCommandRequest")
      (auto simp: bus_entry_def unsubscribe_def lookup_mapping_if split: option.split)
qed

lemma manager_bus_kept:
  assumes "sm_inv m" "t \<noteq> TopicCommandRequest"
  shows "bus_entry (conns (fst (sm_Add t m)) i) = bus_entry (conns m i)" "bus_entry (conns (fst (sm_Remove t m)) i) = bus_entry (conns m i)"
proof -
  have "conn_inv (conns m i)" for i using assms(1) by (simp add: sm_inv_def)
  with assms(2) show "bus_entry (conns (fst (sm_Add t m)) i) = bus_entry (conns m i)" "bus_entry (conns (fst (sm_Remove t m)) i) = bus_entry (conns m i)"
    by (auto simp: sm_Add_def sm_add0_def sm_Remove_def sm_remove0_def bus_entry_kept Let_def split: option.split)
qed

lemma manager_all_bus_kept:
  assumes "sm_inv m" "TopicCommandRequest \<notin> set ts"
  shows "bus_entry (conns (fold (\<lambda>t m. fst (sm_Remove t m)) ts m) i) = bus_entry (conns m i)"
  using assms
proof (induction ts arbitrary: m)
  case (Cons t ts)
  then have "sm_inv (fst (sm_Remove t m))" using sm_Remove_law [of m t] by (cases "sm_Remove t m") simp
  with Cons manager_bus_kept(2) [of m t i] show ?case by (simp add: neq_commute)
qed simp

lemma removeAll_loop_removed: "removeAll_loop cid l = (l', gone) \<Longrightarrow> set gone \<subseteq> set l"
  by (induction l arbitrary: l' gone) (auto split: if_splits prod.splits)

lemma log_bus_kept:
  assumes "log_inv env sm_inv sm_cnt h"
  shows "bus_entry (conns (Manager (ProcessLogs env sm_Add sm_Remove msg h)) i) = bus_entry (conns (Manager h) i)"
proof -
  have sm: "sm_inv (Manager h)" using assms by (simp add: log_inv_def)
  have "bus_entry (conns (Manager (addSubscription sm_Add lm h)) i) = bus_entry (conns (Manager h) i)" for lm
    using sm command_request_filtered by (auto simp: addSubscription_def Let_def intro!: manager_bus_kept)
  moreover have "bus_entry (conns (Manager (removeSubscription sm_Remove lm h)) i) = bus_entry (conns (Manager h) i)" for lm
  proof -
    obtain l found where l: "remove_first (\<lambda>i. it_ClientID i = lm_ClientID lm \<and> it_TopicReal i = lm_Text lm) (SubcriptionList h) = (l, found)"
      by fastforce
    show ?thesis
    proof (cases found)
      case True
      then obtain a s b where "SubcriptionList h = a @ s # b" "it_TopicReal s = lm_Text lm" using remove_first_cases [OF l] by blast
      then have "s \<in> set (SubcriptionList h)" "it_TopicReal s = lm_Text lm" by simp_all
      with assms listed_not_bus [OF assms] have "NormalizeTopic (lm_Text lm) \<noteq> TopicCommandRequest" by (fastforce simp: log_inv_def item_ok_def)
      with True l sm show ?thesis by (simp add: removeSubscription_def manager_bus_kept)
    qed (use l in \<open>simp add: removeSubscription_def\<close>)
  qed
  moreover have "bus_entry (conns (Manager (removeAllSubscriptions sm_Remove cid h)) i) = bus_entry (conns (Manager h) i)" for cid
  proof -
    obtain l gone where l: "removeAll_loop cid (SubcriptionList h) = (l, gone)" by fastforce
    then have "TopicCommandRequest \<notin> set (map it_TopicID gone)" using removeAll_loop_removed [OF l] listed_not_bus [OF assms] by fastforce
    with l sm show ?thesis by (simp add: removeAllSubscriptions_def manager_all_bus_kept)
  qed
  ultimately show ?thesis by (simp add: ProcessLogs_def split: option.split logMessageType.split)
qed

subsection \<open>Properties\<close>

text \<open>A connect sends a subscribe packet for every topic that is held.\<close>

lemma onConnected_held:
  assumes "conn_inv c" "is_shuffle sh"
  shows "\<exists>sent. calls (onConnected sh c) = calls c @ sent \<and> (\<forall>t \<in> held c. SubscribeMultiple (subFilters QosAtMostOnce [t]) None \<in> set sent)"
proof -
  have fin: "finite (Mapping.keys (topics c))" using assms(1) by (simp add: conn_inv_def)
  let ?f = "\<lambda>sid. restore_call c (the (Mapping.lookup (topics c) sid))"
  have "SubscribeMultiple (subFilters QosAtMostOnce [t]) None \<in> set (map ?f (map_range sh (topics c)))" if "t \<in> held c" for t
  proof -
    have "t \<in> Mapping.keys (topics c)" "?f t = SubscribeMultiple (subFilters QosAtMostOnce [t]) None"
      using that by (auto simp: held_def restore_call_def in_keys_lookup)
    then show ?thesis unfolding set_map set_map_range [OF assms(2) fin] by (metis image_eqI)
  qed
  moreover have "calls (onConnected sh c) = calls c @ map ?f (map_range sh (topics c))" using onConnected_eq [OF assms] by simp
  ultimately show ?thesis by blast
qed

text \<open>
  (C3) The commands of the devices are subscribed on the hub: whatever the broker logs, whichever launchers come and go and whatever
  happens to their connections, the hub client the manager forwards to holds a subscription for exactly the topics of
  the listed subscriptions of the devices; each connect to the hub sends a subscribe packet for every one of them; and no log
  message touches the subscription of the command bus on that client.
\<close>

theorem device_subscriptions_reach_hub:
  assumes "sm_inv m" "sm_cnt m = (\<lambda>_. 0)" "service_run g env m h" "sm_conn (Manager h) = Some i" "hub = conns (Manager h) i"
    and "is_shuffle sh"
  shows "held hub = set (map it_TopicID (SubcriptionList h)) \<and>
    (\<exists>sent. calls (onConnected sh hub) = calls hub @ sent \<and>
       (\<forall>s \<in> set (SubcriptionList h). SubscribeMultiple (subFilters QosAtMostOnce [it_TopicID s]) None \<in> set sent)) \<and>
    bus_entry (conns (Manager (ProcessLogs env sm_Add sm_Remove msg h)) i) = bus_entry hub"
proof -
  have inv: "log_inv env sm_inv sm_cnt h" using assms(3,1,2) by (rule service_run_inv)
  then have held: "held hub = set (map it_TopicID (SubcriptionList h))" and ci: "conn_inv hub"
    using log_inv_held [OF inv assms(4)] by (auto simp: assms(5) log_inv_def sm_inv_def)
  with onConnected_held [OF ci assms(6)] log_bus_kept [OF inv, of msg i] show ?thesis unfolding assms(5) by auto
qed

theorem device_subscriptions_reach_hub_witness:
  "\<exists>h l. h = ProcessLogs (\<lambda>_. []) sm_Add sm_Remove sample_log (new_log_handler (NewSubscriptionManager (\<lambda>_. sample_client))) \<and>
     launcher_Run bare_world sample_codecs (sample_gabs JNull) (\<lambda>_. None) Some id ''cloud'' 0 (Manager h) False (tcp_settings ''ns:d'' []) = Inr ([], Inr l) \<and>
     held (conns (la_manager l) 0) = {''command//dev/req/#''} \<and>
     (\<exists>sent. calls (onConnected id (conns (la_manager l) 0)) = calls (conns (la_manager l) 0) @ sent \<and>
        SubscribeMultiple (subFilters QosAtMostOnce [''command//dev/req/#'']) None \<in> set sent)"
proof -
  let ?m = "NewSubscriptionManager (\<lambda>_. sample_client)" and ?g = "sample_gabs JNull" and ?env = "\<lambda>_ :: string. [] :: string"
  define h where "h = ProcessLogs ?env sm_Add sm_Remove sample_log (new_log_handler ?m)"
  obtain l where l: "launcher_Run bare_world sample_codecs ?g (\<lambda>_. None) Some id ''cloud'' 0 (Manager h) False
      (tcp_settings ''ns:d'' []) = Inr ([], Inr l)" "sm_conn (la_manager l) = Some 0"
    using tcp_launch [of "''ns:d''" "[]" ?g "\<lambda>_. None" Some id 0 "Manager h"] by blast
  have "fresh_client sample_client" by (simp add: fresh_client_def sample_client_def)
  then have "sm_inv ?m" using fresh_conn_inv by (auto simp: sm_inv_def NewSubscriptionManager_def)
  moreover have "sm_cnt ?m = (\<lambda>_. 0)" by (simp add: sm_cnt_def NewSubscriptionManager_def fun_eq_iff)
  moreover have "sm_conn (Manager h) \<noteq> Some 0"
    using logs_conn [of ?env "[sample_log]" "new_log_handler ?m"] by (simp add: h_def new_log_handler_def NewSubscriptionManager_def)
  moreover have sh: "is_shuffle id" by (simp add: is_shuffle_def)
  moreover have "service_run ?g ?env ?m (new_log_handler ?m)"
    using service_run.start [of ?m "CreateLogHandler ?m"] by (simp add: CreateServiceRouter_def CreateLogHandler_def)
  ultimately have run: "service_run ?g ?env ?m (h\<lparr>Manager := la_manager l\<rparr>)"
    unfolding h_def using l(1) by (intro service_run.launched [OF service_run.logged]) (simp_all add: h_def)
  have subs: "SubcriptionList h = [\<lparr>it_ClientID = ''app'', it_Timestamp = int (digits_val ''1612864911''), it_TopicID = ''command//dev/req/#'',
        it_TopicReal = ''c//dev/q/#''\<rparr>]" unfolding h_def sample_log_processed by simp
  have "sm_conn (Manager (h\<lparr>Manager := la_manager l\<rparr>)) = Some 0" using l(2) by simp
  note hub = device_subscriptions_reach_hub [OF \<open>sm_inv ?m\<close> \<open>sm_cnt ?m = (\<lambda>_. 0)\<close> run this refl sh, of sample_log]
  from hub subs have "held (conns (la_manager l) 0) = {''command//dev/req/#''}" by simp
  moreover from hub subs have "\<exists>sent. calls (onConnected id (conns (la_manager l) 0)) = calls (conns (la_manager l) 0) @ sent \<and>
        SubscribeMultiple (subFilters QosAtMostOnce [''command//dev/req/#'']) None \<in> set sent" by fastforce
  ultimately show ?thesis using l(1) h_def by blast
qed

subsection \<open>The connector's own clients\<close>

text \<open>
  The identifiers are read twice, by the package that makes the connections and by that of the log handler. Since both read
  the same variables with the same defaults, what the broker logs of the connector's own connections is never taken for a
  subscription of a device.
\<close>

lemma local_client_id:
  "CreateLocalConnection w enc (config_localClientID Getenv) s = Inr c \<Longrightarrow> ClientID c = localClientID Getenv"
  "CreateCloudConnection w (config_cloudClientID Getenv) s clean = Inr c \<Longrightarrow> ClientID c = cloudClientID Getenv"
  by (auto simp: CreateLocalConnection_def CreateCloudConnection_def open_local_def and_then_eq_Inr config_localClientID_def
      config_cloudClientID_def localClientID_def cloudClientID_def NewMQTTConnectionCredentialsProvider_def Let_def
      split: option.splits sum.splits if_splits)

lemma own_lines_ignored:
  assumes "CreateLocalConnection w enc (config_localClientID Getenv) s = Inr c \<or>
      CreateCloudConnection w (config_cloudClientID Getenv) s clean = Inr c"
    and "TopicFromCtx (Context msg) = Some topic" "ParseLogMessage topic (string_of_bytes (Payload msg)) = Some lm"
    and "lm_ClientID lm = ClientID c"
  shows "ProcessLogs Getenv add rem msg h = h"
proof -
  have "lm_ClientID lm \<in> {localClientID Getenv, cloudClientID Getenv}"
    using assms(1,4) local_client_id by fastforce
  with assms(2,3) show ?thesis by (auto simp: ProcessLogs_def)
qed

end
