(* ===== verification/Timeouts.thy ===== *)
theory Timeouts
  imports Connection "HOL-Library.Log_Nat"
begin

text \<open>
  Times of the connector that are computed or waited for: \<^verbatim>\<open>calcTimeout\<close> of \<^verbatim>\<open>src/connector/utils.go\<close>, the time a
  subscriber waits for an acknowledgement, which is a product in floating point, and \<^verbatim>\<open>waitForSubscribeTokens\<close> of
  \<^verbatim>\<open>src/connector/connection.go\<close>, which waits for the answers to the subscribe packets of a new connection.
\<close>

subsection \<open>The acknowledgement timeout\<close>

text \<open>
  A \<^verbatim>\<open>float64\<close> has 53 significant bits, and conversions and products are rounded to the nearest, with ties to
  even. Here the values stay far within the range of the exponent, so that an integer is converted to the nearest one
  with 53 significant bits, and a product with the constant 0.8, which is \<open>float_0_8 / 2 ^ 53\<close> after its own rounding, is
  an integer multiple of \<open>2 ^ -53\<close> rounded the same way. The conversion to an integer truncates.
\<close>

definition round_shift :: "nat \<Rightarrow> int \<Rightarrow> int" where
  "round_shift s n =
     (let q = n div 2 ^ s; r = n mod 2 ^ s
      in (if 2 * r < 2 ^ s \<or> 2 * r = 2 ^ s \<and> even q then q else q + 1) * 2 ^ s)"

definition round53 :: "int \<Rightarrow> int" where
  "round53 n = sgn n * round_shift (nat (bitlen \<bar>n\<bar> - 53)) \<bar>n\<bar>"

definition float_0_8 :: int where "float_0_8 = 7205759403792794"

definition calcTimeout :: "duration \<Rightarrow> duration" where
  "calcTimeout keepAlive =
     (let product = round53 (round53 keepAlive * float_0_8)
      in sgn product * (\<bar>product\<bar> div 2 ^ 53))"

subsection \<open>Waiting for subscriptions\<close>

text \<open>
  A token of the MQTT library: when it is done, counted from the start of the wait (\<open>None\<close> for never), and the error
  it then holds. \<open>pick\<close> is the choice of \<^verbatim>\<open>select\<close> when the deadline and the token are ready at the same time, by
  the number of tokens left. The result is the time of the return and what is logged for each token.
\<close>

record 'e sub_token =
  st_doneAt :: "duration option"
  st_error :: "'e option"

datatype 'e wait_line = Processed | Problem 'e | SubscriptionDone

definition token_line :: "'e sub_token \<Rightarrow> 'e wait_line" where
  "token_line t = (case st_error t of Some e \<Rightarrow> Problem e | None \<Rightarrow> SubscriptionDone)"

definition subscribeDeadline :: duration where "subscribeDeadline = 4 * Second"

definition select_token :: "bool \<Rightarrow> duration \<Rightarrow> 'e sub_token \<Rightarrow> duration \<times> 'e wait_line" where
  "select_token picked now t =
     (let expired = max now subscribeDeadline
      in case st_doneAt t of
           None \<Rightarrow> (expired, Processed)
         | Some d \<Rightarrow>
             let ready = max now d
             in if ready < expired \<or> ready = expired \<and> picked then (ready, token_line t) else (expired, Processed))"

fun wait_tokens :: "(nat \<Rightarrow> bool) \<Rightarrow> duration \<Rightarrow> 'e sub_token list \<Rightarrow> duration \<times> 'e wait_line list" where
  "wait_tokens pick now [] = (now, [])"
| "wait_tokens pick now (t # ts) =
     (case select_token (pick (length ts)) now t of (now', line) \<Rightarrow>
        (case wait_tokens pick now' ts of (finished, lines) \<Rightarrow> (finished, line # lines)))"

definition waitForSubscribeTokens :: "(nat \<Rightarrow> bool) \<Rightarrow> 'e sub_token list \<Rightarrow> duration \<times> 'e wait_line list" where
  "waitForSubscribeTokens pick tokens = wait_tokens pick 0 tokens"

subsection \<open>Lemmas\<close>

lemma round_shift_error: "2 * \<bar>round_shift s n - n\<bar> \<le> 2 ^ s"
proof -
  define q r where "q = n div 2 ^ s" and "r = n mod 2 ^ s"
  have n: "n = q * 2 ^ s + r" "0 \<le> r" "r < 2 ^ s" unfolding q_def r_def by (rule div_mult_mod_eq [symmetric], simp_all)
  show ?thesis
  proof (cases "2 * r < 2 ^ s \<or> 2 * r = 2 ^ s \<and> even q")
    case True
    then have "round_shift s n = q * 2 ^ s" by (simp add: round_shift_def q_def [symmetric] r_def [symmetric])
    with n True show ?thesis by auto
  next
    case False
    then have "round_shift s n = q * 2 ^ s + 2 ^ s"
      by (simp add: round_shift_def q_def [symmetric] r_def [symmetric] algebra_simps)
    with n False show ?thesis by auto
  qed
qed

lemma round_shift_lower:
  assumes "2 ^ s dvd m" "m \<le> n"
  shows "m \<le> round_shift s n"
proof -
  obtain k where k: "m = k * 2 ^ s" using assms(1) by (auto simp: dvd_def mult.commute)
  have "k \<le> n div 2 ^ s" using zdiv_mono1 [OF assms(2), of "2 ^ s"] k by simp
  then have "k \<le> (if P then n div 2 ^ s else n div 2 ^ s + 1)" for P by simp
  then show ?thesis unfolding round_shift_def Let_def k by (simp only: mult_right_mono zero_le_power zero_le_numeral)
qed

lemma round53_error: "0 \<le> n \<Longrightarrow> 2 ^ 53 * \<bar>round53 n - n\<bar> \<le> n"
proof -
  assume n: "0 \<le> n"
  define s where "s = nat (bitlen n - 53)"
  show ?thesis
  proof (cases "n = 0 \<or> s = 0")
    case True
    then show ?thesis using n by (auto simp: round53_def s_def round_shift_def sgn_if Let_def)
  next
    case False
    then have "0 < n" "nat (bitlen n - 1) = s + 52" using n by (auto simp: s_def)
    with bitlen_bounds [of n] have "2 ^ (s + 52) \<le> n" by simp
    moreover have "2 * \<bar>round53 n - n\<bar> \<le> 2 ^ s"
      using round_shift_error [of s n] \<open>0 < n\<close> by (simp add: round53_def s_def)
    then have "2 ^ 52 * (2 * \<bar>round53 n - n\<bar>) \<le> 2 ^ 52 * 2 ^ s" by (intro mult_left_mono) simp_all
    ultimately show ?thesis by (simp add: power_add)
  qed
qed

lemma round53_lower:
  assumes "0 \<le> m" "m \<le> n" "n < 2 ^ (k + 53)" "2 ^ k dvd m"
  shows "m \<le> round53 n"
proof (cases "n = 0")
  case False
  have "bitlen n \<le> int (k + 53)" using bitlen_le_iff_power [of n "int (k + 53)", unfolded nat_int] assms(3) of_nat_0_le_iff by blast
  then have "2 ^ nat (bitlen n - 53) dvd m" using assms(4) by (intro power_le_dvd [OF assms(4)]) simp
  with round_shift_lower [OF _ assms(2)] False assms(1,2) show ?thesis by (simp add: round53_def)
qed (use assms in \<open>simp add: round53_def\<close>)

lemma round53_bounds:
  assumes "0 \<le> n"
  shows "(2 ^ 53 - 1) * n \<le> 2 ^ 53 * round53 n" "2 ^ 53 * round53 n \<le> (2 ^ 53 + 1) * n" "0 \<le> round53 n"
proof -
  have "2 ^ 53 * (round53 n - n) \<le> n" "2 ^ 53 * (n - round53 n) \<le> n"
    using mult_left_mono [OF abs_ge_self, of "2 ^ 53" "round53 n - n"] mult_left_mono [OF abs_ge_minus_self, of "2 ^ 53" "round53 n - n"]
      round53_error [OF assms] by simp_all
  with assms show "(2 ^ 53 - 1) * n \<le> 2 ^ 53 * round53 n" "2 ^ 53 * round53 n \<le> (2 ^ 53 + 1) * n" "0 \<le> round53 n"
    by (simp_all add: algebra_simps)
qed

lemma round53_exact: "0 \<le> n \<Longrightarrow> n < 2 ^ 53 \<Longrightarrow> round53 n = n"
  using round53_bounds [of n] by simp

lemma calcTimeout_exact:
  assumes k: "0 \<le> k" "k < 2 ^ 50"
  shows "calcTimeout k = 4 * k div 5"
proof -
  define q r where "q = 4 * k div 5" and "r = 4 * k mod 5"
  define N where "N = k * float_0_8"
  have q: "4 * k = 5 * q + r" "0 \<le> r" "r < 5" "0 \<le> q" using k by (auto simp: q_def r_def)
  have N: "5 * N = 2 ^ 53 * (5 * q + r) + 2 * k" unfolding q(1) [symmetric] by (simp add: N_def float_0_8_def)
  have "0 \<le> N" using k by (simp add: N_def float_0_8_def)
  have "q * 2 ^ 53 \<le> round53 N"
  proof (rule round53_lower [where k = 53])
    show "q * 2 ^ 53 \<le> N" using N q k by simp
    show "N < 2 ^ (53 + 53)" using k by (simp add: N_def float_0_8_def)
  qed (use q in simp_all)
  moreover have "round53 N < (q + 1) * 2 ^ 53"
    using round53_bounds(2) [OF \<open>0 \<le> N\<close>] N q k by simp
  ultimately have "round53 N div 2 ^ 53 = q" by (intro int_div_pos_eq [where r = "round53 N - q * 2 ^ 53"]) simp_all
  moreover have "0 \<le> round53 N" using \<open>0 \<le> N\<close> by (rule round53_bounds)
  moreover have "round53 k = k" using k by (intro round53_exact) simp_all
  ultimately show ?thesis by (auto simp: calcTimeout_def N_def [symmetric] q_def [symmetric] sgn_if Let_def)
qed

lemma calcTimeout_less:
  assumes "0 < k" "k < 2 ^ 63"
  shows "0 \<le> calcTimeout k" "calcTimeout k < k"
proof -
  define N where "N = round53 k * float_0_8"
  note k' = round53_bounds [of k]
  then have "0 \<le> N" using assms by (simp add: N_def float_0_8_def)
  note N' = round53_bounds [OF this]
  have c: "calcTimeout k = round53 N div 2 ^ 53" using N' by (auto simp: calcTimeout_def N_def [symmetric] sgn_if Let_def)
  show "0 \<le> calcTimeout k" using c N' by simp
  have "2 ^ 53 * N \<le> (2 ^ 53 + 1) * k * float_0_8"
    using mult_right_mono [OF k'(2), of float_0_8] assms by (simp add: N_def float_0_8_def)
  then have "round53 N < k * 2 ^ 53" using N' assms by (simp add: float_0_8_def)
  then show "calcTimeout k < k" unfolding c by simp
qed

lemma round53_minus: "round53 (- n) = - round53 n"
  by (simp add: round53_def)

lemma calcTimeout_minus: "calcTimeout (- k) = - calcTimeout k"
  by (simp add: calcTimeout_def round53_minus Let_def)

text \<open>What one \<^verbatim>\<open>select\<close> does within the deadline.\<close>

lemma select_token_cases:
  assumes "now \<le> subscribeDeadline"
  obtains d where "st_doneAt t = Some d" "max now d \<le> subscribeDeadline" "select_token picked now t = (max now d, token_line t)"
  | "select_token picked now t = (subscribeDeadline, Processed)" "\<forall>d. st_doneAt t = Some d \<longrightarrow> subscribeDeadline \<le> max now d"
proof (cases "st_doneAt t")
  case None
  with assms that(2) show thesis by (simp add: select_token_def max.absorb2)
next
  case (Some d)
  show thesis
  proof (cases "max now d < subscribeDeadline \<or> max now d = subscribeDeadline \<and> picked")
    case True
    then have "max now d \<le> subscribeDeadline" by (elim disjE conjE) simp_all
    moreover have "select_token picked now t = (max now d, token_line t)"
      using Some True assms by (simp add: select_token_def Let_def max.absorb2)
    ultimately show thesis using Some that(1) by blast
  next
    case False
    then have "select_token picked now t = (subscribeDeadline, Processed)"
      using Some assms by (auto simp: select_token_def Let_def max.absorb2 simp del: max_less_iff_conj)
    with False Some that(2) show thesis by (auto simp: not_less simp del: max_less_iff_conj)
  qed
qed

definition reported :: "duration \<Rightarrow> 'e sub_token \<Rightarrow> 'e wait_line \<Rightarrow> bool" where
  "reported finished t l \<longleftrightarrow> l = Processed \<or> l = token_line t \<and> (\<exists>d \<le> finished. st_doneAt t = Some d)"

lemma wait_tokens_bounds:
  assumes "wait_tokens pick now ts = (e, ls)" "now \<le> subscribeDeadline"
  shows "now \<le> e \<and> e \<le> subscribeDeadline \<and> list_all2 (reported e) ts ls"
  using assms
proof (induction ts arbitrary: now e ls)
  case (Cons t ts)
  obtain now' l ls' where step: "select_token (pick (length ts)) now t = (now', l)" "wait_tokens pick now' ts = (e, ls')" "ls = l # ls'"
    using Cons.prems(1) by (auto split: prod.splits)
  from Cons.prems(2) have now': "now \<le> now' \<and> now' \<le> subscribeDeadline \<and> reported now' t l"
  proof (cases rule: select_token_cases [where t = t and picked = "pick (length ts)"])
    case (1 d)
    with step(1) show ?thesis by (auto simp: reported_def)
  next
    case 2
    with step(1) Cons.prems(2) show ?thesis by (auto simp: reported_def)
  qed
  have rest: "now' \<le> e \<and> e \<le> subscribeDeadline \<and> list_all2 (reported e) ts ls'" using Cons.IH [OF step(2)] now' by blast
  then have "reported e t l" using now' by (auto simp: reported_def)
  with rest now' step(3) show ?case by simp
qed simp

lemma wait_tokens_answered:
  assumes "\<forall>t \<in> set ts. \<exists>d < subscribeDeadline. st_doneAt t = Some d" "now < subscribeDeadline"
  shows "wait_tokens pick now ts = (fold (\<lambda>t. max (the (st_doneAt t))) ts now, map token_line ts)"
  using assms
proof (induction ts arbitrary: now)
  case (Cons t ts)
  then obtain d where d: "st_doneAt t = Some d" "d < subscribeDeadline" by auto
  with Cons.prems(2) have "select_token (pick (length ts)) now t = (max d now, token_line t)"
    by (simp add: select_token_def Let_def max_def)
  with Cons d show ?case by simp
qed simp

subsection \<open>Properties\<close>

text \<open>
  (C38) The acknowledgement timeout is the intended four fifths of the keep alive time in spite of the floating point product:
  exactly, rounded towards zero, for every duration below 2^50 ns, which is 13 days; and for every positive 64-bit duration it
  is shorter than the keep alive time and not negative.
\<close>

theorem calcTimeout_four_fifths:
  "(\<bar>k\<bar> < 2 ^ 50 \<longrightarrow> calcTimeout k = sgn k * (4 * \<bar>k\<bar> div 5)) \<and> (0 < k \<and> k < 2 ^ 63 \<longrightarrow> 0 \<le> calcTimeout k \<and> calcTimeout k < k)"
proof -
  have "calcTimeout k = sgn k * (4 * \<bar>k\<bar> div 5)" if "\<bar>k\<bar> < 2 ^ 50"
    using that calcTimeout_exact [of "\<bar>k\<bar>"] calcTimeout_minus [of k] by (cases "0 < k"; cases "k = 0") (simp_all add: sgn_if)
  with calcTimeout_less show ?thesis by blast
qed

theorem calcTimeout_four_fifths_witness: "calcTimeout (20 * Second) = 16 * Second"
  using calcTimeout_four_fifths [of "20 * Second"] by (simp add: duration_defs)

text \<open>
  (C37) Waiting for the answers to the subscribe packets of a new connection ends within four seconds, whatever the broker answers:
  a line is logged for every packet, which tells its answer only if that had come; and when all answers come in time each of
  them is told and the wait ends with the last.
\<close>

theorem waitForSubscribeTokens_ends:
  "case waitForSubscribeTokens pick ts of (finished, lines) \<Rightarrow>
     0 \<le> finished \<and> finished \<le> 4 * Second \<and> list_all2 (reported finished) ts lines \<and>
     ((\<forall>t \<in> set ts. \<exists>d < 4 * Second. st_doneAt t = Some d) \<longrightarrow>
        lines = map token_line ts \<and> finished = fold (\<lambda>t. max (the (st_doneAt t))) ts 0)"
proof -
  obtain e ls where w: "wait_tokens pick 0 ts = (e, ls)" by fastforce
  have "0 < subscribeDeadline" "4 * Second = subscribeDeadline" by (simp_all add: subscribeDeadline_def duration_defs)
  then show ?thesis
    using wait_tokens_bounds [OF w] wait_tokens_answered [of ts 0 pick] w by (auto simp: waitForSubscribeTokens_def)
qed

theorem waitForSubscribeTokens_ends_witness:
  "\<exists>lines. waitForSubscribeTokens (\<lambda>_. False)
     [\<lparr>st_doneAt = Some Second, st_error = Some ''no''\<rparr>, \<lparr>st_doneAt = Some (2 * Second), st_error = None\<rparr>] = (2 * Second, lines) \<and>
     lines = [Problem ''no'', SubscriptionDone]"
  using waitForSubscribeTokens_ends [where pick = "\<lambda>_. False" and ts = "[\<lparr>st_doneAt = Some Second, st_error = Some ''no''\<rparr>, \<lparr>st_doneAt = Some (2 * Second), st_error = None\<rparr>]"]
  by (auto simp: duration_defs token_line_def)

text \<open>
  After one answer is late, another that came in time may go unreported, because the deadline has passed by the time it is
  looked at: the error of a refused subscription is then lost.
\<close>

lemma wait_tokens_loses_error:
  "waitForSubscribeTokens (\<lambda>_. False) [\<lparr>st_doneAt = None, st_error = None\<rparr>, \<lparr>st_doneAt = Some 0, st_error = Some ''refused''\<rparr>] =
     (4 * Second, [Processed, Processed])"
  by (simp add: waitForSubscribeTokens_def select_token_def subscribeDeadline_def duration_defs)

end
