(* ===== verification/Wrapper.thy ===== *)
theory Wrapper
  imports Prelude Transitions Logger
begin

text \<open>
  The life cycle that publishers and subscribers share, \<^verbatim>\<open>src/connector/wrapper.go\<close>, with the calls of
  \<^verbatim>\<open>Publish\<close> and \<^verbatim>\<open>Subscribe\<close> that it counts: each of them asks whether the wrapper is closed, adds itself to
  the wait group in a later step, and is done in another. Any number of these calls and of calls of
  \<^verbatim>\<open>Close\<close> are under way at the same time. Further \<^verbatim>\<open>isDebugEnabled\<close> of \<^verbatim>\<open>src/connector/utils.go\<close>.
\<close>

subsection \<open>State and operations\<close>

text \<open>
  \<open>wr_closing\<close> is the closed channel. The calls are counted by the place they are at: past the check but not
  yet added (\<open>wr_checked\<close>), added and not yet done (\<open>wr_active\<close>); the calls of \<^verbatim>\<open>Close\<close> that
  swapped the flag, those that wait, and those that returned after the wait.
\<close>

record wrapper =
  wr_closed :: bool
  wr_closing :: bool
  wr_processWg :: nat
  wr_checked :: nat
  wr_active :: nat
  wr_swapped :: nat
  wr_waiting :: nat
  wr_returned :: nat
  wr_crash :: "go_panic option"

definition newWrapper :: wrapper where
  "newWrapper = \<lparr>wr_closed = False, wr_closing = False, wr_processWg = 0, wr_checked = 0, wr_active = 0, wr_swapped = 0,
     wr_waiting = 0, wr_returned = 0, wr_crash = None\<rparr>"

text \<open>The compare-and-swap of the flag, which answers whether it was set before.\<close>

definition doClose_flag :: "wrapper \<Rightarrow> wrapper \<times> bool" where
  "doClose_flag w = (if \<not> wr_closed w then (w\<lparr>wr_closed := True\<rparr>, False) else (w, True))"

definition isClosed :: "wrapper \<Rightarrow> bool" where
  "isClosed w = wr_closed w"

datatype wrapper_act = CallStart | CallAdd | CallDone | CloseStart | CloseChannel | CloseReturn

definition close_channel :: "wrapper \<Rightarrow> wrapper" where
  "close_channel w =
     (if wr_closing w then w\<lparr>wr_crash := Some (Explicit ''close of closed channel'')\<rparr> else w\<lparr>wr_closing := True\<rparr>)"

definition wg_Done :: "wrapper \<Rightarrow> wrapper" where
  "wg_Done w =
     (if wr_processWg w = 0 then w\<lparr>wr_crash := Some (Explicit ''sync: negative WaitGroup counter'')\<rparr>
      else w\<lparr>wr_processWg := wr_processWg w - 1\<rparr>)"

text \<open>One step of one of the calls; \<open>None\<close> when no call is at that place or it has to wait.\<close>

fun wrapper_step :: "wrapper_act \<Rightarrow> wrapper \<Rightarrow> wrapper option" where
  "wrapper_step CallStart w = Some (if isClosed w then w else w\<lparr>wr_checked := wr_checked w + 1\<rparr>)"
| "wrapper_step CallAdd w =
     (if wr_checked w = 0 then None
      else Some (w\<lparr>wr_checked := wr_checked w - 1, wr_processWg := wr_processWg w + 1, wr_active := wr_active w + 1\<rparr>))"
| "wrapper_step CallDone w =
     (if wr_active w = 0 then None else Some (wg_Done (w\<lparr>wr_active := wr_active w - 1\<rparr>)))"
| "wrapper_step CloseStart w =
     (case doClose_flag w of (w, True) \<Rightarrow> Some w | (w, False) \<Rightarrow> Some (w\<lparr>wr_swapped := wr_swapped w + 1\<rparr>))"
| "wrapper_step CloseChannel w =
     (if wr_swapped w = 0 then None
      else Some (close_channel (w\<lparr>wr_swapped := wr_swapped w - 1, wr_waiting := wr_waiting w + 1\<rparr>)))"
| "wrapper_step CloseReturn w =
     (if wr_waiting w = 0 \<or> wr_processWg w \<noteq> 0 then None
      else Some (w\<lparr>wr_waiting := wr_waiting w - 1, wr_returned := wr_returned w + 1\<rparr>))"

abbreviation wrapper_run :: "wrapper_act list \<Rightarrow> wrapper \<Rightarrow> wrapper option" where
  "wrapper_run \<equiv> run_steps (\<lambda>w. wr_crash w \<noteq> None) wrapper_step"

text \<open>A logger that is not one of the connector's is asked to log everything.\<close>

definition isDebugEnabled :: "('v, 'o) loggerExt option \<Rightarrow> bool" where
  "isDebugEnabled l = (case l of Some log \<Rightarrow> IsDebugEnabled log | None \<Rightarrow> True)"

subsection \<open>Lemmas\<close>

definition wrapper_inv :: "wrapper \<Rightarrow> bool" where
  "wrapper_inv w \<longleftrightarrow>
     wr_crash w = None \<and> wr_processWg w = wr_active w \<and>
     wr_swapped w + wr_waiting w + wr_returned w = (if wr_closed w then 1 else 0) \<and>
     wr_waiting w + wr_returned w = (if wr_closing w then 1 else 0)"

text \<open>The steps that remain once the wrapper is closed: two for each call past the check, one for each counted.\<close>

definition wrapper_rank :: "wrapper \<Rightarrow> nat" where
  "wrapper_rank w = 2 * wr_checked w + wr_active w + 2 * wr_swapped w + wr_waiting w"

definition own_act :: "wrapper_act \<Rightarrow> bool" where
  "own_act a \<longleftrightarrow> a \<in> {CallAdd, CallDone, CloseChannel, CloseReturn}"

lemmas wrapper_defs = isClosed_def doClose_flag_def close_channel_def wg_Done_def

lemma wrapper_step_inv: "wrapper_inv w \<Longrightarrow> wrapper_step a w = Some w' \<Longrightarrow> wrapper_inv w'"
  by (cases a) (auto simp: wrapper_inv_def wrapper_defs split: if_splits)

lemma wrapper_step_closed: "wr_closed w \<Longrightarrow> wrapper_step a w = Some w' \<Longrightarrow> wr_closed w'"
  by (cases a) (auto simp: wrapper_defs split: if_splits)

lemma wrapper_step_rank:
  assumes "wrapper_inv w" "wr_closed w" "wrapper_step a w = Some w'"
  shows "own_act a \<Longrightarrow> wrapper_rank w' < wrapper_rank w" "\<not> own_act a \<Longrightarrow> w' = w"
  using assms by (cases a; auto simp: wrapper_inv_def wrapper_rank_def own_act_def wrapper_defs split: if_splits)+

interpretation life: stepping "\<lambda>w. wr_crash w \<noteq> None" wrapper_step wrapper_inv
  by unfold_locales (rule wrapper_step_inv)

interpretation ending: bounded_progress "\<lambda>w. wr_crash w \<noteq> None" wrapper_step "\<lambda>w. wrapper_inv w \<and> wr_closed w" own_act wrapper_rank
  "\<lambda>w. wr_returned w = 1 \<and> wr_checked w = 0 \<and> wr_active w = 0"
proof (unfold_locales, goal_cases)
  case (1 s a s')
  then show ?case using wrapper_step_inv wrapper_step_closed by blast
next
  case (2 s a s')
  then show ?case using wrapper_step_rank(1) by blast
next
  case (3 s)
  then have "wr_checked s \<noteq> 0 \<or> wr_active s \<noteq> 0 \<or> wr_swapped s \<noteq> 0 \<or> wr_waiting s \<noteq> 0 \<and> wr_processWg s = 0"
    by (auto simp: wrapper_inv_def split: if_splits)
  then have "\<exists>a s'. own_act a \<and> wrapper_step a s = Some s'"
    by (auto simp: own_act_def intro: exI [of _ CallAdd] exI [of _ CallDone] exI [of _ CloseChannel] exI [of _ CloseReturn])
  with 3 show ?case by (auto simp: wrapper_inv_def)
next
  case (4 s a s')
  then show ?case using wrapper_step_rank(2) [of s a s'] by simp
qed

subsection \<open>Properties\<close>

text \<open>
  (C36) Closing a publisher or subscriber is safe and ends: whatever calls are under way, the channel is closed at
  most once and the wait group never becomes negative; at most one call of \<^verbatim>\<open>Close\<close> waits, and once the flag is set
  every further run has at most as many steps of the calls as are left in them, and until all of them are done and that
  call has returned one more of these steps is possible.
\<close>

theorem wrapper_Close_ends:
  assumes "wrapper_run as newWrapper = Some w"
  shows "wr_crash w = None \<and> wr_swapped w + wr_waiting w + wr_returned w = (if wr_closed w then 1 else 0) \<and>
    (wr_closing w \<longrightarrow> wr_closed w) \<and>
    (wr_closed w \<longrightarrow> (\<forall>bs w'. wrapper_run bs w = Some w' \<longrightarrow>
       length (filter own_act bs) \<le> 2 * wr_checked w + wr_active w + 2 \<and>
       (wr_returned w' = 1 \<and> wr_checked w' = 0 \<and> wr_active w' = 0 \<or> (\<exists>a w''. own_act a \<and> wrapper_step a w' = Some w''))))"
proof -
  have "wrapper_inv newWrapper" by (simp add: wrapper_inv_def newWrapper_def)
  with life.run_inv [OF assms] have inv: "wrapper_inv w" by blast
  have "2 * wr_swapped w + wr_waiting w \<le> 2" using inv by (simp add: wrapper_inv_def split: if_splits)
  then have "wrapper_rank w \<le> 2 * wr_checked w + wr_active w + 2" by (simp add: wrapper_rank_def)
  with inv ending.inevitable [of _ w] have "wr_closed w \<longrightarrow> (\<forall>bs w'. wrapper_run bs w = Some w' \<longrightarrow>
       length (filter own_act bs) \<le> 2 * wr_checked w + wr_active w + 2 \<and>
       (wr_returned w' = 1 \<and> wr_checked w' = 0 \<and> wr_active w' = 0 \<or> (\<exists>a w''. own_act a \<and> wrapper_step a w' = Some w'')))"
    by (meson order_trans)
  with inv show ?thesis by (auto simp: wrapper_inv_def split: if_splits)
qed

theorem wrapper_Close_ends_witness:
  "\<exists>w w'. wrapper_run [CallStart, CallAdd, CloseStart, CloseStart] newWrapper = Some w \<and> wr_swapped w = 1 \<and>
     wrapper_run [CloseChannel, CallStart, CallDone] w = Some w' \<and> (\<exists>a w''. own_act a \<and> wrapper_step a w' = Some w'')"
proof -
  obtain w where w: "wrapper_run [CallStart, CallAdd, CloseStart, CloseStart] newWrapper = Some w" "wr_closed w" "wr_swapped w = 1"
    by (simp add: newWrapper_def wrapper_defs)
  obtain w' where w': "wrapper_run [CloseChannel, CallStart, CallDone] w = Some w'" "wr_returned w' = 0"
    using w(1) by (auto simp: newWrapper_def wrapper_defs)
  have "\<exists>a w''. own_act a \<and> wrapper_step a w' = Some w''"
    using wrapper_Close_ends [OF w(1)] w(2) w' by (metis zero_neq_one)
  with w w' show ?thesis by blast
qed

text \<open>
  The check and the addition to the wait group are two steps: a call that has passed the check is not waited for, and
  is still publishing after \<^verbatim>\<open>Close\<close> has returned.
\<close>

lemma Close_misses_call:
  "\<exists>w. wrapper_run [CallStart, CloseStart, CloseChannel, CloseReturn, CallAdd] newWrapper = Some w \<and> wr_returned w = 1 \<and> wr_active w = 1"
  by (simp add: newWrapper_def wrapper_defs)

end
