(* ===== verification/Flags.thy ===== *)
theory Flags
  imports Settings
begin

text \<open>
  The command line, \<^verbatim>\<open>src/flags\<close>: the values of the flags, the flags that are registered, their
  parsing as Go's \<^verbatim>\<open>flag.FlagSet\<close> does it, and the copy of the values that were given. The parsers of
  numbers and URLs are parameters.
\<close>

subsection \<open>Values\<close>

record flag_lib =
  fp_Int :: "string \<Rightarrow> int option"
  fp_Uint64 :: "string \<Rightarrow> 64 word option"
  fp_RequestURI :: "string \<Rightarrow> bool"

text \<open>A value of a type of this package also says whether it was provided.\<close>

datatype flag_value =
  StringV string
| IntV int
| BoolV bool
| Uint64V "64 word"
| LogLevelV LogLevel bool
| URLV string bool
| StringSliceV "string list" bool

definition NewLogLevelV :: "LogLevel \<Rightarrow> flag_value" where "NewLogLevelV def = LogLevelV def False"
definition NewURLV :: "string \<Rightarrow> flag_value" where "NewURLV def = URLV def False"
definition NewStringSliceV :: "string list \<Rightarrow> flag_value" where "NewStringSliceV setter = StringSliceV setter False"

definition LogLevelV_Set :: "string \<Rightarrow> flag_value option" where
  "LogLevelV_Set v = Some (LogLevelV (ParseLogLevel v) True)"

definition URLV_Set :: "flag_lib \<Rightarrow> string \<Rightarrow> flag_value option" where
  "URLV_Set lib v = (if fp_RequestURI lib v then Some (URLV v True) else None)"

text \<open>\<^verbatim>\<open>strings.Fields\<close> on the ASCII white space.\<close>

definition is_space :: "char \<Rightarrow> bool" where
  "is_space c \<longleftrightarrow> c \<in> {CHR '' '', CHR 0x09, CHR 0x0A, CHR 0x0B, CHR 0x0C, CHR 0x0D}"

fun Fields :: "string \<Rightarrow> string list" where
  "Fields [] = []"
| "Fields (c # s) =
     (if is_space c then Fields s
      else case s of
        [] \<Rightarrow> [[c]]
      | d # _ \<Rightarrow>
          if is_space d then [c] # Fields s
          else case Fields s of [] \<Rightarrow> [[c]] | w # ws \<Rightarrow> (c # w) # ws)"

definition StringSliceV_Set :: "string \<Rightarrow> flag_value option" where
  "StringSliceV_Set v = (if length v = 0 then None else Some (StringSliceV (Fields v) True))"

text \<open>\<^verbatim>\<open>strconv.ParseBool\<close>.\<close>

definition ParseBool :: "string \<Rightarrow> bool option" where
  "ParseBool s =
     (if s \<in> set [''1'', ''t'', ''T'', ''true'', ''TRUE'', ''True''] then Some True
      else if s \<in> set [''0'', ''f'', ''F'', ''false'', ''FALSE'', ''False''] then Some False
      else None)"

fun flag_Set :: "flag_lib \<Rightarrow> flag_value \<Rightarrow> string \<Rightarrow> flag_value option" where
  "flag_Set lib (StringV _) v = Some (StringV v)"
| "flag_Set lib (IntV _) v = map_option IntV (fp_Int lib v)"
| "flag_Set lib (BoolV _) v = map_option BoolV (ParseBool v)"
| "flag_Set lib (Uint64V _) v = map_option Uint64V (fp_Uint64 lib v)"
| "flag_Set lib (LogLevelV _ _) v = LogLevelV_Set v"
| "flag_Set lib (URLV _ _) v = URLV_Set lib v"
| "flag_Set lib (StringSliceV _ _) v = StringSliceV_Set v"

definition IsBoolFlag :: "flag_value \<Rightarrow> bool" where
  "IsBoolFlag v = (case v of BoolV _ \<Rightarrow> True | _ \<Rightarrow> False)"

text \<open>What \<^verbatim>\<open>Get\<close> returns, by the type of its result.\<close>

datatype any_value = AString string | AInt int | ABool bool | AUint64 "64 word" | ALevel LogLevel | AStrings "string list"

fun flag_Get :: "flag_value \<Rightarrow> any_value" where
  "flag_Get (StringV s) = AString s"
| "flag_Get (IntV i) = AInt i"
| "flag_Get (BoolV b) = ABool b"
| "flag_Get (Uint64V u) = AUint64 u"
| "flag_Get (LogLevelV l _) = ALevel l"
| "flag_Get (URLV s _) = AString s"
| "flag_Get (StringSliceV ss _) = AStrings ss"

text \<open>Whether a value of a type of this package was given, and its text; the other types are those of the library.\<close>

fun flag_Provided :: "flag_value \<Rightarrow> bool option" where
  "flag_Provided (LogLevelV _ p) = Some p"
| "flag_Provided (URLV _ p) = Some p"
| "flag_Provided (StringSliceV _ p) = Some p"
| "flag_Provided _ = None"

definition StringSliceV_String :: "string list \<Rightarrow> string" where
  "StringSliceV_String v = Join v '' ''"

definition LogLevelV_String :: "LogLevel \<Rightarrow> string" where
  "LogLevelV_String v = level_String v"

definition URLV_String :: "string \<Rightarrow> string" where
  "URLV_String v = v"

fun flag_String :: "flag_value \<Rightarrow> string option" where
  "flag_String (LogLevelV v _) = Some (LogLevelV_String v)"
| "flag_String (URLV v _) = Some (URLV_String v)"
| "flag_String (StringSliceV v _) = Some (StringSliceV_String v)"
| "flag_String _ = None"

subsection \<open>Registration\<close>

record flag =
  fl_name :: string
  fl_value :: flag_value

text \<open>The flags that are defined, and the names of those that were set, the first first.\<close>

record flag_set =
  formal :: "flag list"
  actual :: "string list"

definition new_flag :: "string \<Rightarrow> flag_value \<Rightarrow> flag" where
  "new_flag n v = \<lparr>fl_name = n, fl_value = v\<rparr>"

definition flagCACert :: string where "flagCACert = ''caCert''"

definition AddLog :: "LogSettings \<Rightarrow> flag list" where
  "AddLog def =
     [new_flag ''logLevel'' (NewLogLevelV (LogLevel def)), new_flag ''logFileSize'' (IntV (LogFileSize def)),
      new_flag ''logFileCount'' (IntV (LogFileCount def)), new_flag ''logFileMaxAge'' (IntV (LogFileMaxAge def)),
      new_flag ''logFile'' (StringV (LogFile def))]"

definition AddTLS :: "string list \<Rightarrow> TLSSettings \<Rightarrow> flag list" where
  "AddTLS alpn def =
     [new_flag ''alpn'' (NewStringSliceV alpn), new_flag flagCACert (StringV (CACert def)),
      new_flag ''cert'' (StringV (Cert def)), new_flag ''key'' (StringV (Key def)),
      new_flag ''tpmKey'' (StringV (TPMKey def)), new_flag ''tpmKeyPub'' (StringV (TPMKeyPub def)),
      new_flag ''tpmDevice'' (StringV (TPMDevice def)), new_flag ''tpmHandle'' (Uint64V (TPMHandle def))]"

definition AddHub :: "string list \<Rightarrow> HubConnectionSettings \<Rightarrow> flag list" where
  "AddHub alpn def =
     [new_flag ''address'' (NewURLV (hs_Address def)), new_flag ''deviceIdPattern'' (StringV (hs_DeviceIDPattern def)),
      new_flag ''deviceId'' (StringV (hs_DeviceID def)), new_flag ''tenantId'' (StringV (hs_TenantID def)),
      new_flag ''policyId'' (StringV (hs_PolicyID def)), new_flag ''authId'' (StringV (hs_AuthID def)),
      new_flag ''password'' (StringV (hs_Password def)), new_flag ''username'' (StringV (hs_Username def)),
      new_flag ''clientId'' (StringV (hs_ClientID def)), new_flag ''generic'' (BoolV (hs_Generic def))]
     @ AddTLS alpn (hs_TLS def)"

definition AddLocalBroker :: "LocalConnectionSettings \<Rightarrow> flag list" where
  "AddLocalBroker def =
     [new_flag ''localAddress'' (NewURLV (LocalAddress def)), new_flag ''localUsername'' (StringV (LocalUsername def)),
      new_flag ''localPassword'' (StringV (LocalPassword def)), new_flag ''localCACert'' (StringV (LocalCACert def)),
      new_flag ''localCert'' (StringV (LocalCert def)), new_flag ''localKey'' (StringV (LocalKey def))]"

definition Add :: "flag list" where
  "Add = (let def = DefaultSettings
      in AddLog (st_Log def) @ AddHub [] (st_Hub def) @ AddLocalBroker (st_Local def)
         @ [new_flag ''provisioningFile'' (StringV (st_ProvisioningFile def))])"

definition AddGlobal :: "flag list" where
  "AddGlobal = [new_flag ''configFile'' (StringV '''')]"

subsection \<open>Parsing\<close>

datatype flag_error = BadSyntax | NotDefined | HelpRequested | NeedsArgument | InvalidValue

definition lookup_flag :: "flag_set \<Rightarrow> string \<Rightarrow> flag option" where
  "lookup_flag f n = find (\<lambda>x. fl_name x = n) (formal f)"

definition set_flag :: "string \<Rightarrow> flag_value \<Rightarrow> flag_set \<Rightarrow> flag_set" where
  "set_flag n v f =
     f\<lparr>formal := map (\<lambda>x. if fl_name x = n then x\<lparr>fl_value := v\<rparr> else x) (formal f),
       actual := (if n \<in> set (actual f) then actual f else actual f @ [n])\<rparr>"

text \<open>The name and the value of an argument: the first equals sign after the first character divides them.\<close>

definition split_arg :: "string \<Rightarrow> string \<times> string option" where
  "split_arg s =
     (let n = takeWhile (\<lambda>c. c \<noteq> CHR ''='') (tl s)
      in if length n < length (tl s) then (hd s # n, Some (drop (length n + 2) s)) else (s, None))"

text \<open>The argument without its one or two hyphens; \<open>None\<close> when it is no flag, \<open>Some []\<close> for the terminator.\<close>

definition strip_hyphens :: "string \<Rightarrow> string option" where
  "strip_hyphens s =
     (case s of
        CHR ''-'' # CHR ''-'' # n \<Rightarrow> Some n
      | CHR ''-'' # c # n \<Rightarrow> Some (c # n)
      | _ \<Rightarrow> None)"

definition apply_flag :: "flag_lib \<Rightarrow> string \<Rightarrow> flag \<Rightarrow> string \<Rightarrow> flag_set \<Rightarrow> flag_error + flag_set" where
  "apply_flag lib n x v f =
     (case flag_Set lib (fl_value x) v of None \<Rightarrow> Inl InvalidValue | Some v' \<Rightarrow> Inr (set_flag n v' f))"

fun parse_args :: "flag_lib \<Rightarrow> string list \<Rightarrow> flag_set \<Rightarrow> flag_error + flag_set" where
  "parse_args lib [] f = Inr f"
| "parse_args lib (s # args) f =
     (case strip_hyphens s of
        None \<Rightarrow> Inr f
      | Some n \<Rightarrow>
          if n = [] \<and> s = ''--'' then Inr f
          else if n = [] \<or> hd n = CHR ''-'' \<or> hd n = CHR ''='' then Inl BadSyntax
          else case split_arg n of (name, given) \<Rightarrow>
            (case lookup_flag f name of
               None \<Rightarrow> Inl (if name = ''help'' \<or> name = ''h'' then HelpRequested else NotDefined)
             | Some x \<Rightarrow>
                 if IsBoolFlag (fl_value x)
                 then and_then (apply_flag lib name x (case given of Some v \<Rightarrow> v | None \<Rightarrow> ''true'') f) (parse_args lib args)
                 else (case given of
                    Some v \<Rightarrow> and_then (apply_flag lib name x v f) (parse_args lib args)
                  | None \<Rightarrow>
                      (case args of
                         [] \<Rightarrow> Inl NeedsArgument
                       | v # args' \<Rightarrow> and_then (apply_flag lib name x v f) (parse_args lib args')))))"

text \<open>\<^verbatim>\<open>Parse\<close> adds the flag for the version; the result says whether to print it and exit.\<close>

definition Parse :: "flag_lib \<Rightarrow> string list \<Rightarrow> flag list \<Rightarrow> flag_error + flag_set \<times> bool" where
  "Parse lib args flags =
     and_then (parse_args lib args \<lparr>formal = flags @ [new_flag ''version'' (BoolV False)], actual = []\<rparr>) (\<lambda>f.
       Inr (f, case lookup_flag f ''version'' of Some x \<Rightarrow> fl_value x = BoolV True | None \<Rightarrow> False))"

subsection \<open>Copying\<close>

definition copied_name :: "string \<Rightarrow> string" where
  "copied_name name = (if name = flagCACert then ''CACert'' else ReplaceAll (ReplaceAll name ''Id'' ''ID'') ''tpm'' ''TPM'')"

definition Copy :: "flag_set \<Rightarrow> (string, any_value) mapping" where
  "Copy f = fold (\<lambda>x m. if fl_name x \<in> set (actual f) then Mapping.update (copied_name (fl_name x)) (flag_Get (fl_value x)) m else m)
     (formal f) Mapping.empty"

subsection \<open>Lemmas\<close>

text \<open>A name that an argument can carry.\<close>

definition name_ok :: "string \<Rightarrow> bool" where
  "name_ok n \<longleftrightarrow> n \<noteq> [] \<and> CHR ''='' \<notin> set n \<and> hd n \<noteq> CHR ''-''"

definition printed :: "string \<times> string \<Rightarrow> string" where
  "printed e = ''-'' @ fst e @ ''='' @ snd e"

lemma split_arg_printed: "name_ok n \<Longrightarrow> split_arg (n @ CHR ''='' # v) = (n, Some v)"
proof -
  assume "name_ok n"
  then obtain c n' where n: "n = c # n'" "CHR ''='' \<notin> set n'" by (cases n) (auto simp: name_ok_def)
  then have "takeWhile (\<lambda>c. c \<noteq> CHR ''='') (n' @ CHR ''='' # v) = n'" by (subst takeWhile_append2) auto
  with n show ?thesis by (simp add: split_arg_def Let_def)
qed

lemma strip_hyphens_printed: "name_ok n \<Longrightarrow> strip_hyphens (''-'' @ n @ t) = Some (n @ t)"
  by (cases n) (auto simp: name_ok_def strip_hyphens_def split: char.splits bool.splits)

lemma parse_printed:
  assumes "name_ok n" "lookup_flag f n = Some x" "flag_Set lib (fl_value x) v = Some v'"
  shows "parse_args lib (printed (n, v) # args) f = parse_args lib args (set_flag n v' f)"
proof -
  have h: "strip_hyphens (printed (n, v)) = Some (n @ CHR ''='' # v)"
    using strip_hyphens_printed [OF assms(1), of "''='' @ v"] by (simp add: printed_def)
  obtain c n' where n: "n = c # n'" "c \<noteq> CHR ''-''" "c \<noteq> CHR ''=''" using assms(1) by (cases n) (auto simp: name_ok_def)
  then have "\<not> (n @ CHR ''='' # v = [] \<and> printed (n, v) = ''--'')"
    "\<not> (n @ CHR ''='' # v = [] \<or> hd (n @ CHR ''='' # v) = CHR ''-'' \<or> hd (n @ CHR ''='' # v) = CHR ''='')" by simp_all
  with h split_arg_printed [OF assms(1), of v] assms(2,3) show ?thesis
    by (simp only: parse_args.simps option.case prod.case if_False apply_flag_def and_then_Inr) simp
qed

definition given :: "flag_lib \<Rightarrow> (string \<times> string) list \<Rightarrow> flag \<Rightarrow> flag" where
  "given lib as x = (case map_of as (fl_name x) of None \<Rightarrow> x | Some v \<Rightarrow> x\<lparr>fl_value := the (flag_Set lib (fl_value x) v)\<rparr>)"

lemma given_name [simp]: "fl_name (given lib as x) = fl_name x"
  by (simp add: given_def split: option.split)

lemma find_name:
  assumes "distinct (map fl_name xs)" "x \<in> set xs"
  shows "find (\<lambda>y. fl_name y = fl_name x) xs = Some x"
  using assms by (induction xs) (auto simp: image_iff)

lemma parse_printed_all:
  assumes "distinct (map fst as)" "distinct (map fl_name (formal f))"
    and "\<forall>(n, v) \<in> set as. name_ok n \<and> (\<exists>x \<in> set (formal f). fl_name x = n \<and> flag_Set lib (fl_value x) v \<noteq> None)"
  shows "\<exists>f'. parse_args lib (map printed as) f = Inr f' \<and> formal f' = map (given lib as) (formal f) \<and>
    set (actual f') = set (actual f) \<union> fst ` set as"
  using assms
proof (induction as arbitrary: f)
  case Nil
  have "given lib [] = id" by (rule ext) (simp add: given_def)
  then show ?case by simp
next
  case (Cons e as)
  obtain n v where e: "e = (n, v)" by fastforce
  with Cons.prems(3) obtain x v' where x: "name_ok n" "x \<in> set (formal f)" "fl_name x = n" "flag_Set lib (fl_value x) v = Some v'"
    by fastforce
  let ?f = "set_flag n v' f"
  have step: "parse_args lib (map printed (e # as)) f = parse_args lib (map printed as) ?f"
    using parse_printed [OF x(1) _ x(4)] find_name [OF Cons.prems(2) x(2)] x(3) e by (simp add: lookup_flag_def)
  have n: "n \<notin> fst ` set as" "distinct (map fst as)" using Cons.prems(1) e by auto
  have formal: "formal ?f = map (\<lambda>y. if fl_name y = n then y\<lparr>fl_value := v'\<rparr> else y) (formal f)"
    "map fl_name (formal ?f) = map fl_name (formal f)" by (simp_all add: set_flag_def)
  have "\<forall>(m, u) \<in> set as. name_ok m \<and> (\<exists>y \<in> set (formal ?f). fl_name y = m \<and> flag_Set lib (fl_value y) u \<noteq> None)"
  proof (clarify)
    fix m u assume mu: "(m, u) \<in> set as"
    with Cons.prems(3) obtain y where "name_ok m" "y \<in> set (formal f)" "fl_name y = m" "flag_Set lib (fl_value y) u \<noteq> None"
      by fastforce
    moreover from mu n(1) have "m \<noteq> n" by force
    ultimately show "name_ok m \<and> (\<exists>y \<in> set (formal ?f). fl_name y = m \<and> flag_Set lib (fl_value y) u \<noteq> None)"
      unfolding formal(1) by (intro conjI bexI [of _ y]) (auto simp: image_iff)
  qed
  from Cons.IH [OF n(2) _ this] Cons.prems(2) formal(2) obtain f' where
    f': "parse_args lib (map printed as) ?f = Inr f'" "formal f' = map (given lib as) (formal ?f)"
    "set (actual f') = set (actual ?f) \<union> fst ` set as" by auto
  have "given lib as (if fl_name y = n then y\<lparr>fl_value := v'\<rparr> else y) = given lib (e # as) y" if "y \<in> set (formal f)" for y
  proof (cases "fl_name y = n")
    case True
    with that x(2,3) Cons.prems(2) have "y = x" by (metis find_name option.inject)
    moreover have "map_of as n = None" using n(1) by (simp add: map_of_eq_None_iff)
    ultimately show ?thesis using True x(4) e by (simp add: given_def)
  qed (simp add: given_def e)
  then have "formal f' = map (given lib (e # as)) (formal f)" unfolding f'(2) formal(1) by simp
  moreover have "set (actual f') = set (actual f) \<union> fst ` set (e # as)" unfolding f'(3) by (auto simp: set_flag_def e)
  ultimately show ?case using step f'(1) by simp
qed

lemma Copy_lookup_aux:
  assumes "distinct (map (copied_name \<circ> fl_name) xs)"
  shows "Mapping.lookup (fold (\<lambda>x m. if P x then Mapping.update (copied_name (fl_name x)) (flag_Get (fl_value x)) m else m) xs m) k =
    (case find (\<lambda>x. P x \<and> copied_name (fl_name x) = k) xs of Some x \<Rightarrow> Some (flag_Get (fl_value x)) | None \<Rightarrow> Mapping.lookup m k)"
  using assms
proof (induction xs arbitrary: m)
  case (Cons x xs)
  have "find (\<lambda>y. P y \<and> copied_name (fl_name y) = copied_name (fl_name x)) xs = None"
    using Cons.prems by (fastforce simp: find_None_iff image_iff)
  with Cons show ?case by (auto simp: lookup_mapping_if split: option.split)
qed simp

lemma Copy_lookup:
  assumes "distinct (map (copied_name \<circ> fl_name) (formal f))" "x \<in> set (formal f)"
  shows "Mapping.lookup (Copy f) (copied_name (fl_name x)) =
    (if fl_name x \<in> set (actual f) then Some (flag_Get (fl_value x)) else None)"
proof -
  have uniq: "y = x" if "y \<in> set (formal f)" "copied_name (fl_name y) = copied_name (fl_name x)" for y
    using assms that by (auto simp: distinct_map inj_on_def)
  have "find (\<lambda>y. fl_name y \<in> set (actual f) \<and> copied_name (fl_name y) = copied_name (fl_name x)) (formal f) =
      (if fl_name x \<in> set (actual f) then Some x else None)"
  proof (cases "fl_name x \<in> set (actual f)")
    case True
    with assms(2) obtain y where y: "find (\<lambda>y. fl_name y \<in> set (actual f) \<and> copied_name (fl_name y) = copied_name (fl_name x)) (formal f) = Some y"
      using find_None_iff not_None_eq by (metis (mono_tags, lifting))
    then have "y \<in> set (formal f) \<and> copied_name (fl_name y) = copied_name (fl_name x)" by (auto simp: find_Some_iff)
    with uniq True y show ?thesis by simp
  next
    case False
    with uniq show ?thesis by (auto simp: find_None_iff)
  qed
  then show ?thesis by (simp add: Copy_def Copy_lookup_aux [OF assms(1)])
qed

lemma Copy_keys:
  assumes "distinct (map (copied_name \<circ> fl_name) (formal f))"
  shows "Mapping.keys (Copy f) = copied_name ` {n \<in> set (actual f). \<exists>x \<in> set (formal f). fl_name x = n}"
  by (auto simp: in_keys_lookup Copy_def Copy_lookup_aux [OF assms] find_Some_iff find_None_iff image_iff split: option.splits)
    (metis nth_mem)

lemma image_filter_self: "F \<subseteq> g ` S \<Longrightarrow> {n \<in> F. \<exists>x \<in> S. g x = n} = F"
  by auto

text \<open>The flags of the connector.\<close>

definition all_flags :: "flag list" where
  "all_flags = Add @ AddGlobal @ [new_flag ''version'' (BoolV False)]"

lemmas registered_defs = all_flags_def Add_def AddGlobal_def AddLog_def AddHub_def AddTLS_def AddLocalBroker_def new_flag_def flagCACert_def

lemma all_flags_names:
  "map fl_name all_flags =
    [''logLevel'', ''logFileSize'', ''logFileCount'', ''logFileMaxAge'', ''logFile'', ''address'', ''deviceIdPattern'', ''deviceId'',
     ''tenantId'', ''policyId'', ''authId'', ''password'', ''username'', ''clientId'', ''generic'', ''alpn'', ''caCert'', ''cert'', ''key'',
     ''tpmKey'', ''tpmKeyPub'', ''tpmDevice'', ''tpmHandle'', ''localAddress'', ''localUsername'', ''localPassword'', ''localCACert'',
     ''localCert'', ''localKey'', ''provisioningFile'', ''configFile'', ''version'']"
  by (simp add: registered_defs Let_def)

lemma copied_names:
  "map copied_name (map fl_name all_flags) =
    [''logLevel'', ''logFileSize'', ''logFileCount'', ''logFileMaxAge'', ''logFile'', ''address'', ''deviceIDPattern'', ''deviceID'',
     ''tenantID'', ''policyID'', ''authID'', ''password'', ''username'', ''clientID'', ''generic'', ''alpn'', ''CACert'', ''cert'', ''key'',
     ''TPMKey'', ''TPMKeyPub'', ''TPMDevice'', ''TPMHandle'', ''localAddress'', ''localUsername'', ''localPassword'', ''localCACert'',
     ''localCert'', ''localKey'', ''provisioningFile'', ''configFile'', ''version'']"
  unfolding all_flags_names by (simp add: copied_name_def flagCACert_def HasPrefix_def)

lemma all_flags_distinct:
  "distinct (map fl_name all_flags)" "distinct (map (copied_name \<circ> fl_name) all_flags)" "\<forall>n \<in> set (map fl_name all_flags). name_ok n"
  unfolding map_map [symmetric] copied_names unfolding all_flags_names by (simp_all add: name_ok_def)

subsection \<open>Properties\<close>

text \<open>
  The fields of the settings that a flag can set, by their names in the source, and the field a key of the
  copied map addresses: the one with the first letter in upper case.
\<close>

definition settings_fields :: "string list" where
  "settings_fields =
    [''LogLevel'', ''LogFileSize'', ''LogFileCount'', ''LogFileMaxAge'', ''LogFile'', ''Address'', ''DeviceIDPattern'', ''DeviceID'',
     ''TenantID'', ''PolicyID'', ''AuthID'', ''Password'', ''Username'', ''ClientID'', ''Generic'', ''Alpn'', ''CACert'', ''Cert'', ''Key'',
     ''TPMKey'', ''TPMKeyPub'', ''TPMDevice'', ''TPMHandle'', ''LocalAddress'', ''LocalUsername'', ''LocalPassword'', ''LocalCACert'',
     ''LocalCert'', ''LocalKey'', ''ProvisioningFile'']"

definition field_of_key :: "string \<Rightarrow> string" where
  "field_of_key k = ToUpper (take 1 k) @ drop 1 k"

text \<open>
  (C35) Every flag of the settings is copied under a key that addresses one field, and no two flags address the
  same one; the two other flags with a value address none.
\<close>

theorem flags_address_fields:
  "map (field_of_key \<circ> copied_name \<circ> fl_name) Add = settings_fields \<and> distinct settings_fields \<and>
   map (field_of_key \<circ> copied_name \<circ> fl_name) AddGlobal = [''ConfigFile''] \<and> ''ConfigFile'' \<notin> set settings_fields"
proof -
  have "map copied_name (map fl_name all_flags) = map copied_name (map fl_name Add) @ map copied_name (map fl_name AddGlobal) @ [copied_name ''version'']"
    by (simp add: all_flags_def new_flag_def)
  moreover have "length Add = 30" "length AddGlobal = 1" by (simp_all add: registered_defs Let_def)
  ultimately have "map copied_name (map fl_name Add) = take 30 (map copied_name (map fl_name all_flags))"
    "map copied_name (map fl_name AddGlobal) = take 1 (drop 30 (map copied_name (map fl_name all_flags)))" by simp_all
  then have "map (field_of_key \<circ> copied_name \<circ> fl_name) Add = map field_of_key (take 30 (map copied_name (map fl_name all_flags)))"
    "map (field_of_key \<circ> copied_name \<circ> fl_name) AddGlobal = map field_of_key (take 1 (drop 30 (map copied_name (map fl_name all_flags))))"
    by (simp_all only: map_map [symmetric])
  then show ?thesis
    unfolding copied_names by (simp add: field_of_key_def settings_fields_def ToUpper_def less_eq_char_def char_of_def bit_0)
qed

text \<open>Arguments for the flags of the connector leave the flag \<^verbatim>\<open>version\<close> alone.\<close>

lemma version_not_given:
  assumes "fst ` set as \<subseteq> set (map fl_name (Add @ AddGlobal))"
  shows "given lib as (new_flag ''version'' (BoolV False)) = new_flag ''version'' (BoolV False)"
proof -
  have "''version'' \<notin> fst ` set as"
  proof
    assume "''version'' \<in> fst ` set as"
    then have "''version'' \<in> set (map fl_name (Add @ AddGlobal))" using assms by blast
    then have "\<not> distinct (map fl_name all_flags)"
      unfolding all_flags_def append_assoc [symmetric] map_append [of _ "Add @ AddGlobal"] distinct_append by (simp add: new_flag_def)
    with all_flags_distinct(1) show False by blast
  qed
  then have "map_of as ''version'' = None" by (simp only: map_of_eq_None_iff not_False_eq_True)
  then show ?thesis by (simp add: given_def new_flag_def)
qed

text \<open>
  (C34) The command line is read back: any choice of different flags with values their types accept, written as
  arguments, parses without an error, and the copy holds exactly these flags, each under its key and with
  the value its type makes of the text.
\<close>

theorem command_line_roundtrip:
  assumes "distinct (map fst as)"
    and "\<forall>(n, v) \<in> set as. \<exists>x \<in> set (Add @ AddGlobal). fl_name x = n \<and> flag_Set lib (fl_value x) v \<noteq> None"
  shows "\<exists>f. Parse lib (map printed as) (Add @ AddGlobal) = Inr (f, False) \<and>
    Mapping.keys (Copy f) = copied_name ` fst ` set as \<and>
    (\<forall>(n, v) \<in> set as. \<exists>x \<in> set (Add @ AddGlobal). fl_name x = n \<and>
       Mapping.lookup (Copy f) (copied_name n) = map_option flag_Get (flag_Set lib (fl_value x) v))"
proof -
  let ?f = "\<lparr>formal = all_flags, actual = []\<rparr>"
  have "\<forall>(n, v) \<in> set as. name_ok n \<and> (\<exists>x \<in> set (formal ?f). fl_name x = n \<and> flag_Set lib (fl_value x) v \<noteq> None)"
    using assms(2) all_flags_distinct(3) by (fastforce simp: all_flags_def)
  from parse_printed_all [OF assms(1) _ this] all_flags_distinct(1) obtain f where
    f: "parse_args lib (map printed as) ?f = Inr f" "formal f = map (given lib as) all_flags" "set (actual f) = fst ` set as"
    by auto
  have names: "map fl_name (formal f) = map fl_name all_flags" by (simp add: f(2))
  then have dist: "distinct (map (copied_name \<circ> fl_name) (formal f))" using all_flags_distinct(2) by (simp flip: map_map)
  have given: "fst ` set as \<subseteq> set (map fl_name (Add @ AddGlobal))" using assms(2) by fastforce
  from version_not_given [OF this] have "given lib as (new_flag ''version'' (BoolV False)) = new_flag ''version'' (BoolV False)" .
  then have "new_flag ''version'' (BoolV False) \<in> set (formal f)" unfolding f(2) all_flags_def by force
  from find_name [OF _ this] all_flags_distinct(1) names have "lookup_flag f ''version'' = Some (new_flag ''version'' (BoolV False))"
    by (simp add: lookup_flag_def new_flag_def)
  with f(1) have "Parse lib (map printed as) (Add @ AddGlobal) = Inr (f, False)"
    by (simp add: Parse_def all_flags_def new_flag_def)
  moreover have "Mapping.keys (Copy f) = copied_name ` fst ` set as"
  proof -
    have "fst ` set as \<subseteq> set (map fl_name all_flags)" using given by (auto simp: all_flags_def)
    then have "fst ` set as \<subseteq> fl_name ` set (formal f)" unfolding names [symmetric] by simp
    then have "{n \<in> set (actual f). \<exists>x \<in> set (formal f). fl_name x = n} = fst ` set as"
      unfolding f(3) by (rule image_filter_self)
    then show ?thesis by (simp add: Copy_keys [OF dist])
  qed
  moreover have "\<exists>x \<in> set (Add @ AddGlobal). fl_name x = n \<and>
       Mapping.lookup (Copy f) (copied_name n) = map_option flag_Get (flag_Set lib (fl_value x) v)" if nv: "(n, v) \<in> set as" for n v
  proof -
    obtain x v' where x: "x \<in> set (Add @ AddGlobal)" "fl_name x = n" "flag_Set lib (fl_value x) v = Some v'"
      using assms(2) nv by fastforce
    have g: "given lib as x = x\<lparr>fl_value := v'\<rparr>" using nv assms(1) x(2,3) by (simp add: given_def)
    have "given lib as x \<in> set (formal f)" using x(1) by (auto simp: f(2) all_flags_def)
    from Copy_lookup [OF dist this] g nv f(3) x show ?thesis by (intro bexI [of _ x]) force+
  qed
  ultimately show ?thesis by blast
qed

theorem command_line_roundtrip_witness:
  "\<exists>f. Parse \<lparr>fp_Int = Atoi, fp_Uint64 = (\<lambda>_. None), fp_RequestURI = (\<lambda>_. True)\<rparr>
       [''-deviceId=ns:dev'', ''-generic=true''] (Add @ AddGlobal) = Inr (f, False) \<and>
     Mapping.keys (Copy f) = copied_name ` {''deviceId'', ''generic''}"
proof -
  let ?lib = "\<lparr>fp_Int = Atoi, fp_Uint64 = (\<lambda>_. None), fp_RequestURI = (\<lambda>_. True)\<rparr>" and ?as = "[(''deviceId'', ''ns:dev''), (''generic'', ''true'')]"
  have "\<forall>(n, v) \<in> set ?as. \<exists>x \<in> set (Add @ AddGlobal). fl_name x = n \<and> flag_Set ?lib (fl_value x) v \<noteq> None"
    by (simp add: registered_defs Let_def ParseBool_def ex_bool_eq)
  from command_line_roundtrip [OF _ this] obtain f where
    "Parse ?lib (map printed ?as) (Add @ AddGlobal) = Inr (f, False)" "Mapping.keys (Copy f) = copied_name ` fst ` set ?as"
    by auto
  then show ?thesis by (intro exI [of _ f]) (simp add: printed_def)
qed

text \<open>The help flag is not defined, so that asking for it is an error of its own, and a flag without its value another.\<close>

lemma parse_errors:
  "Parse lib [''-h''] (Add @ AddGlobal) = Inl HelpRequested" "Parse lib [''-nope''] (Add @ AddGlobal) = Inl NotDefined"
  "Parse lib [''-deviceId''] (Add @ AddGlobal) = Inl NeedsArgument" "Parse lib [''-alpn=''] (Add @ AddGlobal) = Inl InvalidValue"
  by (simp_all add: Parse_def strip_hyphens_def split_arg_def lookup_flag_def registered_defs apply_flag_def StringSliceV_Set_def
      NewStringSliceV_def NewLogLevelV_def NewURLV_def IsBoolFlag_def Let_def)

subsection \<open>Texts of the values\<close>

definition word_like :: "string \<Rightarrow> bool" where
  "word_like w \<longleftrightarrow> w \<noteq> [] \<and> (\<forall>c \<in> set w. \<not> is_space c)"

lemma Fields_Cons:
  "s \<noteq> [] \<Longrightarrow> Fields (c # s) =
     (if is_space c then Fields s else if is_space (hd s) then [c] # Fields s
      else case Fields s of [] \<Rightarrow> [[c]] | w # ws \<Rightarrow> (c # w) # ws)"
  by (cases s, simp, subst Fields.simps(2), simp del: Fields.simps)

lemma Fields_words: "\<forall>w \<in> set (Fields s). word_like w"
proof (induction s)
  case (Cons c s)
  show ?case
  proof (cases "s = []")
    case True
    then show ?thesis by (simp add: word_like_def)
  next
    case False
    with Cons show ?thesis
      by (cases "Fields s") (simp_all add: Fields_Cons word_like_def del: Fields.simps)
  qed
qed simp


lemma Fields_word: "word_like w \<Longrightarrow> Fields w = [w]"
proof (induction w)
  case (Cons c w)
  then show ?case by (cases w) (auto simp: word_like_def)
qed (simp add: word_like_def)

lemma Fields_word_space:
  assumes "word_like w" "is_space d"
  shows "Fields (w @ d # s) = w # Fields s"
  using assms
proof (induction w)
  case (Cons c w)
  then show ?case by (cases w) (auto simp: word_like_def)
qed (simp add: word_like_def)

lemma Fields_Join: "\<forall>w \<in> set ws. word_like w \<Longrightarrow> Fields (Join ws '' '') = ws"
  by (induction ws "'' ''" rule: Join.induct) (simp_all add: Fields_word Fields_word_space is_space_def)

text \<open>
  A value that was set is provided, and its text sets it again; only the text of a list without words, which a value of
  blanks gives, is refused.
\<close>

lemma flag_String_sets:
  assumes "flag_Set lib v s = Some v'" "flag_String v' = Some t"
  shows "flag_Provided v' = Some True \<and> (flag_Set lib v' t = (if t = [] \<and> v' = StringSliceV [] True then None else Some v'))"
proof (cases v)
  case (LogLevelV l p)
  have "ParseLogLevel (level_String (ParseLogLevel s)) = ParseLogLevel s"
    by (auto simp: ParseLogLevel_def level_String_def level_defs Let_def)
  with LogLevelV assms show ?thesis by (auto simp: LogLevelV_Set_def LogLevelV_String_def)
next
  case (StringSliceV ss p)
  then have v': "v' = StringSliceV (Fields s) True" using assms(1) by (auto simp: StringSliceV_Set_def split: if_splits)
  then have t: "t = Join (Fields s) '' ''" using assms(2) by (simp add: StringSliceV_String_def)
  have f: "Fields t = Fields s" unfolding t by (rule Fields_Join) (simp add: Fields_words)
  then have "t = [] \<longleftrightarrow> Fields s = []" using t by (metis Fields.simps(1) Join.simps(1))
  with v' f show ?thesis by (simp add: StringSliceV_Set_def)
qed (use assms in \<open>auto simp: URLV_Set_def URLV_String_def split: if_splits\<close>)

end
