(* ===== verification/Tpm.thy ===== *)
theory Tpm
  imports Settings
begin

text \<open>
  TLS with a key in a TPM: \<^verbatim>\<open>src/tpmtls/tpm_connection.go\<close>, \<^verbatim>\<open>src/tpmtls/tpm_context.go\<close> and
  \<^verbatim>\<open>NewTPMTlsConfig\<close> of \<^verbatim>\<open>src/config/tls_config.go\<close>. The files, the certificate parser and the TPM
  library are parameters, collected in the record \<open>tpm_lib\<close>; what the code changes outside of itself, the
  open descriptors and the keys loaded in the TPM, is the state \<open>tpm_state\<close>.

  Both types have methods with value receivers: such a method works on a copy of the object, and what it
  assigns to the fields is lost when it returns. The body of such a method is a function that returns
  the changed copy too, and the method itself drops it.
\<close>

subsection \<open>The library\<close>

datatype file_mode = ModeDevice | ModeSocket | ModeOther

type_synonym tpm_handle = "32 word"

record ('cert, 'pub) tpm_lib =
  t_Mode :: "string \<Rightarrow> file_mode option"
  t_OpenFile :: "string \<Rightarrow> bool"
  t_Dial :: "string \<Rightarrow> bool"
  t_Manufacturer :: "string \<Rightarrow> bool"
  t_ReadFile :: "string \<Rightarrow> byte list option"
  t_PEM :: "byte list \<Rightarrow> byte list option"
  t_ParseCertificate :: "byte list \<Rightarrow> 'cert option"
  t_Unmarshal :: "byte list \<Rightarrow> byte list option"
  t_Load :: "tpm_handle \<Rightarrow> byte list \<Rightarrow> byte list \<Rightarrow> tpm_handle option"
  t_ReadPublic :: "tpm_handle \<Rightarrow> 'pub option"
  t_Key :: "'pub \<Rightarrow> byte list option"
  t_Sign :: "tpm_handle \<Rightarrow> byte list \<Rightarrow> byte list option"
  t_RSADecrypt :: "tpm_handle \<Rightarrow> byte list \<Rightarrow> byte list option"

text \<open>Descriptors are numbered in the order in which they are opened.\<close>

record tpm_state =
  ts_next :: nat
  ts_open :: "nat set"
  ts_loaded :: "tpm_handle multiset"

definition open_descriptor :: "tpm_state \<Rightarrow> tpm_state \<times> nat" where
  "open_descriptor s = (s\<lparr>ts_next := ts_next s + 1, ts_open := insert (ts_next s) (ts_open s)\<rparr>, ts_next s)"

definition close_descriptor :: "nat \<Rightarrow> tpm_state \<Rightarrow> tpm_state" where
  "close_descriptor d s = s\<lparr>ts_open := ts_open s - {d}\<rparr>"

definition FlushContext :: "tpm_handle \<Rightarrow> tpm_state \<Rightarrow> tpm_state" where
  "FlushContext h s = s\<lparr>ts_loaded := ts_loaded s - {#h#}\<rparr>"

datatype tpm_error =
  NoDevice
| OpenFailed
| UnsupportedMode
| NotTPM2
| InUse
| UnexpectedRW
| RWUnavailable
| StreamRequired
| HandleRequired
| PublicKeyFileRequired
| PrivateKeyFileRequired
| CertFileRequired
| TLSConfigRequired
| CertificatesNotEmpty
| CipherSuitesNotEmpty
| CertUnreadable
| CertUndecodable
| CertUnparsable
| KeyUnreadable
| KeyMalformed
| LoadFailed
| PublicUnreadable
| ContextClosed
| DigestLength
| HashUnsupported
| SignFailed
| BackendNotWorking

subsection \<open>Connections\<close>

text \<open>A reader and writer is named by the descriptor it wraps.\<close>

record tpmConnection =
  tp_deviceFile :: string
  tp_rwc :: "nat option"
  tp_rw :: "nat option"

definition NewTpmConnection ::
  "('cert, 'pub) tpm_lib \<Rightarrow> string \<Rightarrow> tpm_state \<Rightarrow> tpm_state \<times> (tpm_error + tpmConnection)" where
  "NewTpmConnection lib fileName s =
     (case t_Mode lib fileName of
        None \<Rightarrow> (s, Inl NoDevice)
      | Some mode \<Rightarrow>
          if mode = ModeDevice \<and> \<not> t_OpenFile lib fileName then (s, Inl OpenFailed)
          else if mode = ModeSocket \<and> \<not> t_Dial lib fileName then (s, Inl OpenFailed)
          else if mode = ModeOther then (s, Inl UnsupportedMode)
          else let (s, rwc) = open_descriptor s
               in if t_Manufacturer lib fileName
                  then (s, Inr \<lparr>tp_deviceFile = fileName, tp_rwc = Some rwc, tp_rw = None\<rparr>)
                  else (close_descriptor rwc s, Inl NotTPM2))"

definition GetRW_body :: "tpmConnection \<Rightarrow> tpmConnection \<times> (tpm_error + nat option)" where
  "GetRW_body t =
     (case tp_rw t of
        None \<Rightarrow> (t\<lparr>tp_rw := tp_rwc t\<rparr>, Inr (tp_rwc t))
      | Some _ \<Rightarrow> (t, Inl RWUnavailable))"

definition ReleaseRW_body :: "nat option \<Rightarrow> tpmConnection \<Rightarrow> tpmConnection \<times> (tpm_error + unit)" where
  "ReleaseRW_body writer t = (if writer = tp_rw t then (t\<lparr>tp_rw := None\<rparr>, Inr ()) else (t, Inl UnexpectedRW))"

definition conn_Close_body :: "tpmConnection \<Rightarrow> tpm_state \<Rightarrow> tpmConnection \<times> tpm_state \<times> (tpm_error + unit) outcome" where
  "conn_Close_body t s =
     (if tp_rw t \<noteq> None then (t, s, Inr (Inl InUse))
      else case tp_rwc t of
        None \<Rightarrow> (t, s, Inl NilDeref)
      | Some d \<Rightarrow> (t\<lparr>tp_rwc := None\<rparr>, close_descriptor d s, Inr (Inr ())))"

definition GetRW :: "tpmConnection \<Rightarrow> tpm_error + nat option" where
  "GetRW t = snd (GetRW_body t)"

definition ReleaseRW :: "nat option \<Rightarrow> tpmConnection \<Rightarrow> tpm_error + unit" where
  "ReleaseRW writer t = snd (ReleaseRW_body writer t)"

definition conn_Close :: "tpmConnection \<Rightarrow> tpm_state \<Rightarrow> tpm_state \<times> (tpm_error + unit) outcome" where
  "conn_Close t s = snd (conn_Close_body t s)"

subsection \<open>Contexts\<close>

record ('pool, 'cert) ext_tls =
  et_RootCAs :: 'pool
  et_InsecureSkipVerify :: bool
  et_Certificates :: "'cert list list"
  et_CipherSuites :: "16 word list"

record ('pool, 'cert) ContextOpts =
  co_TPMConnectionRW :: "nat option"
  co_PrivateKeyFile :: string
  co_PublicKeyFile :: string
  co_StorageRootKeyHandle :: tpm_handle
  co_PublicCertFile :: string
  co_ExtTLSConfig :: "('pool, 'cert) ext_tls option"

record ('pool, 'cert, 'pub) tpmTLSContext =
  tx_rw :: "nat option"
  tx_ext :: "('pool, 'cert) ext_tls"
  tx_cert :: 'cert
  tx_publicKey :: "'pub option"
  tx_cachedKeyContext :: tpm_handle

definition validateAndLoadPublicCert :: "('cert, 'pub) tpm_lib \<Rightarrow> string \<Rightarrow> tpm_error + 'cert" where
  "validateAndLoadPublicCert lib certFile =
     (case t_ReadFile lib certFile of
        None \<Rightarrow> Inl CertUnreadable
      | Some pem \<Rightarrow>
          case t_PEM lib pem of
            None \<Rightarrow> Inl CertUndecodable
          | Some block \<Rightarrow> (case t_ParseCertificate lib block of None \<Rightarrow> Inl CertUnparsable | Some c \<Rightarrow> Inr c))"

text \<open>Loads the key; when the TPM refuses it, the handle zero that comes with the error is flushed.\<close>

definition loadKeysContext ::
  "('cert, 'pub) tpm_lib \<Rightarrow> ('pool, 'cert) ContextOpts \<Rightarrow> tpm_handle \<Rightarrow> tpm_state
   \<Rightarrow> tpm_state \<times> (tpm_error + tpm_handle)" where
  "loadKeysContext lib opts cachedKeyContext s =
     (if cachedKeyContext \<noteq> 0 then (s, Inr cachedKeyContext)
      else case t_ReadFile lib (co_PrivateKeyFile opts) of
        None \<Rightarrow> (s, Inl KeyUnreadable)
      | Some priv \<Rightarrow>
          case t_ReadFile lib (co_PublicKeyFile opts) of
            None \<Rightarrow> (s, Inl KeyUnreadable)
          | Some pub \<Rightarrow>
              case t_Unmarshal lib pub of
                None \<Rightarrow> (s, Inl KeyMalformed)
              | Some pubBlob \<Rightarrow>
                  case t_Unmarshal lib priv of
                    None \<Rightarrow> (s, Inl KeyMalformed)
                  | Some privBlob \<Rightarrow>
                      case t_Load lib (co_StorageRootKeyHandle opts) pubBlob privBlob of
                        None \<Rightarrow> (FlushContext 0 s, Inl LoadFailed)
                      | Some h \<Rightarrow> (s\<lparr>ts_loaded := add_mset h (ts_loaded s)\<rparr>, Inr h))"

definition loadPubKey :: "('cert, 'pub) tpm_lib \<Rightarrow> 'pub option \<Rightarrow> tpm_handle \<Rightarrow> tpm_error + 'pub" where
  "loadPubKey lib publicKey h =
     (case publicKey of
        Some pub \<Rightarrow> Inr pub
      | None \<Rightarrow>
          case t_ReadPublic lib h of
            None \<Rightarrow> Inl PublicUnreadable
          | Some pub \<Rightarrow> (case t_Key lib pub of None \<Rightarrow> Inl PublicUnreadable | Some _ \<Rightarrow> Inr pub))"

definition checkOpts :: "('pool, 'cert) ContextOpts \<Rightarrow> tpm_error + ('pool, 'cert) ext_tls" where
  "checkOpts opts =
     (if co_TPMConnectionRW opts = None then Inl StreamRequired
      else if co_StorageRootKeyHandle opts = 0 then Inl HandleRequired
      else if length (co_PublicKeyFile opts) = 0 then Inl PublicKeyFileRequired
      else if length (co_PrivateKeyFile opts) = 0 then Inl PrivateKeyFileRequired
      else if length (co_PublicCertFile opts) = 0 then Inl CertFileRequired
      else case co_ExtTLSConfig opts of
        None \<Rightarrow> Inl TLSConfigRequired
      | Some ext \<Rightarrow>
          if length (et_Certificates ext) > 0 then Inl CertificatesNotEmpty
          else if length (et_CipherSuites ext) > 0 then Inl CipherSuitesNotEmpty
          else Inr ext)"

definition NewTPMContext ::
  "('cert, 'pub) tpm_lib \<Rightarrow> ('pool, 'cert) ContextOpts \<Rightarrow> tpm_state
   \<Rightarrow> tpm_state \<times> (tpm_error + ('pool, 'cert, 'pub) tpmTLSContext)" where
  "NewTPMContext lib opts s =
     (case checkOpts opts of
        Inl e \<Rightarrow> (s, Inl e)
      | Inr ext \<Rightarrow>
          case validateAndLoadPublicCert lib (co_PublicCertFile opts) of
            Inl e \<Rightarrow> (s, Inl e)
          | Inr cert \<Rightarrow>
              (case loadKeysContext lib opts 0 s of
                 (s1, Inl e) \<Rightarrow> (s1, Inl e)
               | (s1, Inr h) \<Rightarrow>
                   (case loadPubKey lib None h of
                      Inl e \<Rightarrow> (s1, Inl e)
                    | Inr pub \<Rightarrow>
                        (s1, Inr \<lparr>tx_rw = co_TPMConnectionRW opts, tx_ext = ext, tx_cert = cert,
                           tx_publicKey = Some pub, tx_cachedKeyContext = h\<rparr>))))"

text \<open>A hash function is its size and whether it is SHA-256.\<close>

definition Sign ::
  "('cert, 'pub) tpm_lib \<Rightarrow> nat \<Rightarrow> bool \<Rightarrow> ('pool, 'cert, 'pub) tpmTLSContext \<Rightarrow> byte list \<Rightarrow> tpm_error + byte list" where
  "Sign lib hashSize sha256 t digest =
     (if tx_rw t = None then Inl ContextClosed
      else if length digest \<noteq> hashSize then Inl DigestLength
      else if \<not> sha256 then Inl HashUnsupported
      else case t_Sign lib (tx_cachedKeyContext t) digest of None \<Rightarrow> Inl SignFailed | Some sig \<Rightarrow> Inr sig)"

definition Public :: "('cert, 'pub) tpm_lib \<Rightarrow> ('pool, 'cert, 'pub) tpmTLSContext \<Rightarrow> byte list option outcome" where
  "Public lib t =
     (if tx_rw t = None then Inr None
      else case tx_publicKey t of None \<Rightarrow> Inl NilDeref | Some pub \<Rightarrow> Inr (t_Key lib pub))"

definition Decrypt ::
  "('cert, 'pub) tpm_lib \<Rightarrow> ('pool, 'cert, 'pub) tpmTLSContext \<Rightarrow> byte list \<Rightarrow> tpm_error + byte list" where
  "Decrypt lib t msg =
     (if tx_rw t = None then Inl ContextClosed
      else case t_RSADecrypt lib (tx_cachedKeyContext t) msg of None \<Rightarrow> Inl SignFailed | Some p \<Rightarrow> Inr p)"

definition ctx_Close_body ::
  "('pool, 'cert, 'pub) tpmTLSContext \<Rightarrow> tpm_state
   \<Rightarrow> ('pool, 'cert, 'pub) tpmTLSContext \<times> tpm_state \<times> (tpm_error + nat option)" where
  "ctx_Close_body t s =
     (if tx_rw t = None then (t, s, Inl ContextClosed)
      else (t\<lparr>tx_publicKey := None, tx_cachedKeyContext := 0, tx_rw := None\<rparr>, FlushContext (tx_cachedKeyContext t) s, Inr (tx_rw t)))"

definition ctx_Close :: "('pool, 'cert, 'pub) tpmTLSContext \<Rightarrow> tpm_state \<Rightarrow> tpm_state \<times> (tpm_error + nat option)" where
  "ctx_Close t s = snd (ctx_Close_body t s)"

text \<open>ECDHE-RSA and ECDHE-ECDSA with AES-128-GCM, and RSA with AES-128-CBC, all with SHA-256.\<close>

definition tpm_CipherSuites :: "16 word list" where
  "tpm_CipherSuites = [0xC02F, 0xC02B, 0x003C]"

text \<open>The lowest version is left to the library, whose default is the zero value.\<close>

definition ctx_TLSConfig :: "('pool, 'cert, 'pub) tpmTLSContext \<Rightarrow> ('pool, 'cert) tls_config option" where
  "ctx_TLSConfig t =
     (if tx_rw t = None then None
      else Some \<lparr>tc_InsecureSkipVerify = et_InsecureSkipVerify (tx_ext t), tc_RootCAs = et_RootCAs (tx_ext t),
             tc_Certificates = [[tx_cert t]], tc_MinVersion = 0, tc_MaxVersion = VersionTLS12, tc_NextProtos = [],
             tc_CipherSuites = tpm_CipherSuites\<rparr>)"

subsection \<open>The TLS configuration\<close>

definition NewTPMTlsConfig ::
  "('cert, 'pub) tpm_lib \<Rightarrow> TLSSettings \<Rightarrow> 'pool \<Rightarrow> tpm_state
   \<Rightarrow> tpm_state \<times> (tpm_error + ('pool, 'cert) tls_config \<times> tpmConnection \<times> ('pool, 'cert, 'pub) tpmTLSContext)" where
  "NewTPMTlsConfig lib settings pool s =
     (case NewTpmConnection lib (TPMDevice settings) s of
        (s1, Inl e) \<Rightarrow> (s1, Inl e)
      | (s1, Inr conn) \<Rightarrow>
          (case GetRW conn of
             Inl e \<Rightarrow> (s1, Inl e)
           | Inr rw \<Rightarrow>
               let opts = \<lparr>co_TPMConnectionRW = rw, co_PrivateKeyFile = TPMKey settings, co_PublicKeyFile = TPMKeyPub settings,
                     co_StorageRootKeyHandle = ucast (TPMHandle settings), co_PublicCertFile = Cert settings,
                     co_ExtTLSConfig = Some \<lparr>et_RootCAs = pool, et_InsecureSkipVerify = False, et_Certificates = [], et_CipherSuites = []\<rparr>\<rparr>
               in (case NewTPMContext lib opts s1 of
                     (s2, Inl e) \<Rightarrow> (s2, Inl e)
                   | (s2, Inr tpm) \<Rightarrow>
                       (case ctx_TLSConfig tpm of
                          None \<Rightarrow> (s2, Inl BackendNotWorking)
                        | Some cfg \<Rightarrow> (s2, Inr (cfg, conn, tpm))))))"

text \<open>The function returned to release the TPM.\<close>

definition closer :: "tpmConnection \<Rightarrow> ('pool, 'cert, 'pub) tpmTLSContext \<Rightarrow> tpm_state \<Rightarrow> tpm_state" where
  "closer conn tpm s =
     (let (s1, r) = ctx_Close tpm s;
          released = (case r of Inl e \<Rightarrow> Inl e | Inr rw \<Rightarrow> ReleaseRW rw conn);
          (s2, closed) = conn_Close conn s1
      in s2)"

subsection \<open>Lemmas\<close>

definition descriptors_ok :: "tpm_state \<Rightarrow> bool" where
  "descriptors_ok s \<longleftrightarrow> (\<forall>d \<in> ts_open s. d < ts_next s)"

lemma NewTpmConnection_cases:
  "case NewTpmConnection lib f s of
     (s', Inl e) \<Rightarrow> ts_open s' = ts_open s - (if e = NotTPM2 then {ts_next s} else {}) \<and> ts_loaded s' = ts_loaded s \<and>
       e \<in> {NoDevice, OpenFailed, UnsupportedMode, NotTPM2}
   | (s', Inr c) \<Rightarrow> s' = fst (open_descriptor s) \<and> c = \<lparr>tp_deviceFile = f, tp_rwc = Some (ts_next s), tp_rw = None\<rparr>"
  by (auto simp: NewTpmConnection_def open_descriptor_def close_descriptor_def Let_def split: option.splits)

lemma loadKeysContext_cases:
  assumes "0 \<notin># ts_loaded s"
  shows "case loadKeysContext lib opts 0 s of
     (s', Inl e) \<Rightarrow> s' = s \<and> e \<in> {KeyUnreadable, KeyMalformed, LoadFailed}
   | (s', Inr h) \<Rightarrow> s' = s\<lparr>ts_loaded := add_mset h (ts_loaded s)\<rparr>"
proof -
  have "FlushContext 0 s = s" using assms by (simp add: FlushContext_def diff_single_trivial)
  then show ?thesis by (simp add: loadKeysContext_def split: option.split)
qed

text \<open>The errors of a context: those before the key is loaded leave the state, those after it the key.\<close>

lemma NewTPMContext_cases:
  assumes "0 \<notin># ts_loaded s"
  shows "case NewTPMContext lib opts s of
     (s', Inl e) \<Rightarrow> e \<notin> {NoDevice, OpenFailed, UnsupportedMode, NotTPM2} \<and>
       (s' = s \<or> e = PublicUnreadable \<and> (\<exists>h. s' = s\<lparr>ts_loaded := add_mset h (ts_loaded s)\<rparr>))
   | (s', Inr t) \<Rightarrow> s' = s\<lparr>ts_loaded := add_mset (tx_cachedKeyContext t) (ts_loaded s)\<rparr> \<and> tx_rw t = co_TPMConnectionRW opts \<and>
       tx_rw t \<noteq> None \<and> co_ExtTLSConfig opts = Some (tx_ext t)"
proof (cases "checkOpts opts")
  case (Inl e)
  then show ?thesis by (auto simp: NewTPMContext_def checkOpts_def split: if_splits option.splits)
next
  case ext: (Inr ext)
  then have opts: "co_TPMConnectionRW opts \<noteq> None" "co_ExtTLSConfig opts = Some ext"
    by (auto simp: checkOpts_def split: if_splits option.splits)
  show ?thesis
  proof (cases "validateAndLoadPublicCert lib (co_PublicCertFile opts)")
    case (Inl e)
    with ext show ?thesis by (auto simp: NewTPMContext_def validateAndLoadPublicCert_def split: option.splits)
  next
    case cert: (Inr c)
    obtain s1 r where "loadKeysContext lib opts 0 s = (s1, r)" by fastforce
    with loadKeysContext_cases [OF assms, where lib = lib and opts = opts] ext cert opts show ?thesis
      by (cases r) (auto simp: NewTPMContext_def loadPubKey_def split: option.split)
  qed
qed

lemma NewTPMTlsConfig_connected:
  assumes "NewTpmConnection lib (TPMDevice settings) s = (s1, Inr conn)"
  obtains opts where "NewTPMTlsConfig lib settings pool s = (case NewTPMContext lib opts s1 of
      (s2, Inl e) \<Rightarrow> (s2, Inl e)
    | (s2, Inr tpm) \<Rightarrow> (case ctx_TLSConfig tpm of None \<Rightarrow> (s2, Inl BackendNotWorking) | Some cfg \<Rightarrow> (s2, Inr (cfg, conn, tpm))))"
    "co_TPMConnectionRW opts = Some (ts_next s)"
    "co_ExtTLSConfig opts = Some \<lparr>et_RootCAs = pool, et_InsecureSkipVerify = False, et_Certificates = [], et_CipherSuites = []\<rparr>"
proof -
  have "GetRW conn = Inr (Some (ts_next s))"
    using NewTpmConnection_cases [where lib = lib and f = "TPMDevice settings" and s = s] assms by (simp add: GetRW_def GetRW_body_def)
  with assms that show thesis by (simp add: NewTPMTlsConfig_def Let_def)
qed

lemma closer_sel:
  assumes "tx_rw tpm \<noteq> None" "tp_rw conn = None" "tp_rwc conn = Some d"
  shows "ts_open (closer conn tpm s) = ts_open s - {d}" "ts_loaded (closer conn tpm s) = ts_loaded s - {#tx_cachedKeyContext tpm#}"
  using assms by (auto simp: closer_def ctx_Close_def ctx_Close_body_def conn_Close_def conn_Close_body_def close_descriptor_def
      FlushContext_def)

subsection \<open>Properties\<close>

text \<open>What a context that could not be created, or was created, leaves of the state.\<close>

lemma NewTPMContext_failed:
  assumes "NewTPMContext lib opts s = (s', Inl e)" "0 \<notin># ts_loaded s"
  shows "e \<notin> {NoDevice, OpenFailed, UnsupportedMode, NotTPM2}" "ts_open s' = ts_open s"
    "ts_loaded s' = ts_loaded s \<or> e = PublicUnreadable \<and> (\<exists>h. ts_loaded s' = add_mset h (ts_loaded s))"
proof -
  have e: "e \<notin> {NoDevice, OpenFailed, UnsupportedMode, NotTPM2}"
    "s' = s \<or> e = PublicUnreadable \<and> (\<exists>h. s' = s\<lparr>ts_loaded := add_mset h (ts_loaded s)\<rparr>)"
    using NewTPMContext_cases [OF assms(2), where lib = lib and opts = opts] unfolding assms(1) by simp_all
  show "e \<notin> {NoDevice, OpenFailed, UnsupportedMode, NotTPM2}" by (rule e(1))
  show "ts_open s' = ts_open s" "ts_loaded s' = ts_loaded s \<or> e = PublicUnreadable \<and> (\<exists>h. ts_loaded s' = add_mset h (ts_loaded s))"
    using e(2) by (elim disjE conjE exE; simp)+
qed

lemma NewTPMContext_ready:
  assumes "NewTPMContext lib opts s = (s', Inr tpm)" "0 \<notin># ts_loaded s"
    and "co_ExtTLSConfig opts = Some \<lparr>et_RootCAs = pool, et_InsecureSkipVerify = False, et_Certificates = [], et_CipherSuites = []\<rparr>"
  obtains cfg where "s' = s\<lparr>ts_loaded := add_mset (tx_cachedKeyContext tpm) (ts_loaded s)\<rparr>" "tx_rw tpm \<noteq> None"
    "ctx_TLSConfig tpm = Some cfg" "\<not> tc_InsecureSkipVerify cfg" "tc_RootCAs cfg = pool" "tc_Certificates cfg = [[tx_cert tpm]]"
proof -
  have t: "s' = s\<lparr>ts_loaded := add_mset (tx_cachedKeyContext tpm) (ts_loaded s)\<rparr>" "tx_rw tpm \<noteq> None" "co_ExtTLSConfig opts = Some (tx_ext tpm)"
    using NewTPMContext_cases [OF assms(2), where lib = lib and opts = opts] unfolding assms(1) prod.case sum.case by blast+
  with assms(3) that show thesis by (simp add: ctx_TLSConfig_def)
qed

text \<open>
  (C27) The TPM is taken and given back: a configuration made from it verifies the server against the given
  roots and offers the one device certificate; one descriptor is open and one key loaded for it, and the
  function returned with it restores both. When no configuration is made the descriptor is given back only if
  the device could not be opened as a TPM; after a later error it stays open, and with an unreadable public key
  the loaded key may stay too.
\<close>

theorem NewTPMTlsConfig_resources:
  assumes "descriptors_ok s" and "0 \<notin># ts_loaded s"
  shows "case NewTPMTlsConfig lib settings pool s of
     (s', Inr (cfg, conn, tpm)) \<Rightarrow>
       \<not> tc_InsecureSkipVerify cfg \<and> tc_RootCAs cfg = pool \<and> tc_Certificates cfg = [[tx_cert tpm]] \<and>
       ts_open s' = insert (ts_next s) (ts_open s) \<and> ts_loaded s' = add_mset (tx_cachedKeyContext tpm) (ts_loaded s) \<and>
       ts_open (closer conn tpm s') = ts_open s \<and> ts_loaded (closer conn tpm s') = ts_loaded s
   | (s', Inl e) \<Rightarrow>
       ts_open s' = ts_open s \<union> (if e \<in> {NoDevice, OpenFailed, UnsupportedMode, NotTPM2} then {} else {ts_next s}) \<and>
       (ts_loaded s' = ts_loaded s \<or> e = PublicUnreadable \<and> (\<exists>h. ts_loaded s' = add_mset h (ts_loaded s)))"
proof -
  obtain s1 r where r: "NewTpmConnection lib (TPMDevice settings) s = (s1, r)" by fastforce
  have new: "ts_next s \<notin> ts_open s" using assms(1) by (auto simp: descriptors_ok_def)
  show ?thesis
  proof (cases r)
    case (Inl e)
    with r NewTpmConnection_cases [where lib = lib and f = "TPMDevice settings" and s = s] new show ?thesis
      by (auto simp: NewTPMTlsConfig_def split: if_splits)
  next
    case (Inr conn)
    with r NewTpmConnection_cases [where lib = lib and f = "TPMDevice settings" and s = s]
    have s1: "s1 = fst (open_descriptor s)" "tp_rwc conn = Some (ts_next s)" "tp_rw conn = None" by simp_all
    then have st: "ts_open s1 = insert (ts_next s) (ts_open s)" "ts_loaded s1 = ts_loaded s" by (simp_all add: open_descriptor_def)
    from r Inr have "NewTpmConnection lib (TPMDevice settings) s = (s1, Inr conn)" by simp
    then obtain opts where opts: "NewTPMTlsConfig lib settings pool s = (case NewTPMContext lib opts s1 of
        (s2, Inl e) \<Rightarrow> (s2, Inl e)
      | (s2, Inr tpm) \<Rightarrow> (case ctx_TLSConfig tpm of None \<Rightarrow> (s2, Inl BackendNotWorking) | Some cfg \<Rightarrow> (s2, Inr (cfg, conn, tpm))))"
      "co_ExtTLSConfig opts = Some \<lparr>et_RootCAs = pool, et_InsecureSkipVerify = False, et_Certificates = [], et_CipherSuites = []\<rparr>"
      by (rule NewTPMTlsConfig_connected)
    obtain s2 r2 where r2: "NewTPMContext lib opts s1 = (s2, r2)" by fastforce
    have c: "0 \<notin># ts_loaded s1" using st assms(2) by simp
    show ?thesis
    proof (cases r2)
      case (Inl e)
      have run: "NewTPMTlsConfig lib settings pool s = (s2, Inl e)" unfolding opts(1) r2 Inl by simp
      note fail = NewTPMContext_failed [OF r2 [unfolded Inl] c]
      then show ?thesis unfolding run using st by simp
    next
      case (Inr tpm)
      obtain cfg where t: "s2 = s1\<lparr>ts_loaded := add_mset (tx_cachedKeyContext tpm) (ts_loaded s1)\<rparr>" "tx_rw tpm \<noteq> None"
        and cfg: "ctx_TLSConfig tpm = Some cfg" "\<not> tc_InsecureSkipVerify cfg" "tc_RootCAs cfg = pool" "tc_Certificates cfg = [[tx_cert tpm]]"
        by (rule NewTPMContext_ready [OF r2 [unfolded Inr] c opts(2)])
      have run: "NewTPMTlsConfig lib settings pool s = (s2, Inr (cfg, conn, tpm))" unfolding opts(1) r2 Inr by (simp add: cfg(1))
      show ?thesis unfolding run using t(1) cfg(2-4) st new closer_sel [OF t(2) s1(3,2), of s2] by simp
    qed
  qed
qed

definition sample_lib :: "(string, unit) tpm_lib" where
  "sample_lib = \<lparr>t_Mode = (\<lambda>_. Some ModeSocket), t_OpenFile = (\<lambda>_. False), t_Dial = (\<lambda>_. True), t_Manufacturer = (\<lambda>_. True),
     t_ReadFile = (\<lambda>_. Some []), t_PEM = Some, t_ParseCertificate = (\<lambda>_. Some ''cert''), t_Unmarshal = Some,
     t_Load = (\<lambda>_ _ _. Some 7), t_ReadPublic = Some \<circ> (\<lambda>_. ()), t_Key = (\<lambda>_. Some []), t_Sign = (\<lambda>_ d. Some d),
     t_RSADecrypt = (\<lambda>_ d. Some d)\<rparr>"

definition sample_tls :: TLSSettings where
  "sample_tls = \<lparr>CACert = ''ca'', Cert = ''crt'', Key = '''', Alpn = [], TPMKey = ''priv'', TPMKeyPub = ''pub'',
     TPMHandle = 0x81000001, TPMDevice = ''/dev/tpm0''\<rparr>"

definition idle_tpm :: tpm_state where
  "idle_tpm = \<lparr>ts_next = 3, ts_open = {1}, ts_loaded = {#}\<rparr>"

theorem NewTPMTlsConfig_resources_witness:
  "\<exists>s' cfg conn tpm. NewTPMTlsConfig sample_lib sample_tls () idle_tpm = (s', Inr (cfg, conn, tpm)) \<and>
     ts_open s' = {1, 3} \<and> ts_open (closer conn tpm s') = {1} \<and> ts_loaded (closer conn tpm s') = {#}"
proof -
  obtain s' r where r: "NewTPMTlsConfig sample_lib sample_tls () idle_tpm = (s', r)" by fastforce
  moreover have "\<exists>cfg conn tpm. r = Inr (cfg, conn, tpm)"
    using r by (auto simp: NewTPMTlsConfig_def NewTpmConnection_def sample_lib_def sample_tls_def idle_tpm_def open_descriptor_def
        GetRW_def GetRW_body_def NewTPMContext_def checkOpts_def validateAndLoadPublicCert_def loadKeysContext_def loadPubKey_def
        ctx_TLSConfig_def Let_def)
  ultimately show ?thesis
    using NewTPMTlsConfig_resources [where s = idle_tpm and lib = sample_lib and settings = sample_tls and pool = "()"]
    by (auto simp: descriptors_ok_def idle_tpm_def)
qed

text \<open>
  The documented ownership of the connection is lost with the copies of its methods: a connection gives out
  its stream however often it is asked, refuses to take it back, and closes while it is in use, and a closed
  context neither refuses a second close nor to sign. The bodies of the methods, kept on one object, do
  follow the documentation: the stream is given out once, the connection does not close before it is
  given back, and giving it back restores it.
\<close>

lemma tpm_value_receivers:
  "let t = \<lparr>tp_deviceFile = f, tp_rwc = Some d, tp_rw = None\<rparr> in
     GetRW t = Inr (Some d) \<and> ReleaseRW (Some d) t = Inl UnexpectedRW \<and>
     conn_Close t s = (close_descriptor d s, Inr (Inr ())) \<and>
     snd (ctx_Close ctx (fst (ctx_Close ctx s))) = snd (ctx_Close ctx s) \<and>
     (let (t', r) = GetRW_body t
      in r = GetRW t \<and> GetRW t' = Inl RWUnavailable \<and> conn_Close t' s = (s, Inr (Inl InUse)) \<and>
         ReleaseRW_body (Some d) t' = (t, Inr ())) \<and>
     (let (ctx', _, r) = ctx_Close_body ctx s in r = snd (ctx_Close ctx s) \<and> snd (ctx_Close ctx' s) = Inl ContextClosed)"
  by (simp add: Let_def GetRW_def GetRW_body_def ReleaseRW_def ReleaseRW_body_def conn_Close_def conn_Close_body_def ctx_Close_def
      ctx_Close_body_def)

text \<open>
  Only the lower half of the configured handle reaches the TPM: the upper 32 bits make no difference, and a
  handle whose lower half is zero is refused as missing once the device is open.
\<close>

lemma tpm_handle_lower_half:
  "NewTPMTlsConfig lib (c\<lparr>TPMHandle := h\<rparr>) pool s = NewTPMTlsConfig lib (c\<lparr>TPMHandle := take_bit 32 h\<rparr>) pool s \<and>
   (case NewTpmConnection lib (TPMDevice c) s of
      (s1, Inl e) \<Rightarrow> NewTPMTlsConfig lib (c\<lparr>TPMHandle := push_bit 32 h\<rparr>) pool s = (s1, Inl e)
    | (s1, Inr conn) \<Rightarrow> NewTPMTlsConfig lib (c\<lparr>TPMHandle := push_bit 32 h\<rparr>) pool s = (s1, Inl HandleRequired))"
proof -
  have "(ucast h :: 32 word) = ucast (take_bit 32 h)"
    by (rule bit_word_eqI) (simp add: bit_simps)
  moreover have "(ucast (push_bit 32 h) :: 32 word) = 0"
    by (rule bit_word_eqI) (simp add: bit_simps)
  ultimately show ?thesis
    using NewTpmConnection_cases [where lib = lib and f = "TPMDevice c" and s = s]
    by (auto simp: NewTPMTlsConfig_def NewTPMContext_def checkOpts_def GetRW_def GetRW_body_def Let_def split: prod.splits sum.splits)
qed

subsection \<open>The hub connection with a TPM\<close>

text \<open>The world of the settings in which the TPM is the one modelled here, in the given state.\<close>

definition with_tpm :: "('cert, 'pub) tpm_lib \<Rightarrow> tpm_state \<Rightarrow> ('pool, 'cert) world \<Rightarrow> ('pool, 'cert) world" where
  "with_tpm lib st w = w\<lparr>w_TPM := (\<lambda>s pool. case snd (NewTPMTlsConfig lib s pool st) of Inl _ \<Rightarrow> None | Inr (cfg, _) \<Rightarrow> Some cfg)\<rparr>"

lemma with_tpm_CAPool [simp]: "w_CAPool (with_tpm lib st w) = w_CAPool w"
  by (simp add: with_tpm_def)

lemma TPM_config:
  assumes "NewTPMTlsConfig lib c pool s = (s', Inr (cfg, conn, tpm))"
  shows "\<not> tc_InsecureSkipVerify cfg \<and> tc_RootCAs cfg = pool"
  using assms
  by (auto simp: NewTPMTlsConfig_def NewTPMContext_def checkOpts_def ctx_TLSConfig_def Let_def
      split: prod.splits sum.splits option.splits if_splits)

lemma NewHubTLSConfig_verifies:
  assumes "NewHubTLSConfig (with_tpm lib st w) c = Inr (t, clean)"
  shows "\<not> tc_InsecureSkipVerify t \<and> w_CAPool w (CACert c) = Some (tc_RootCAs t)"
proof -
  let ?w = "with_tpm lib st w"
  obtain cfg where cfg: "newHubTLSConfig0 ?w c = Inr (cfg, clean)" "tc_InsecureSkipVerify t = tc_InsecureSkipVerify cfg"
    "tc_RootCAs t = tc_RootCAs cfg"
    using assms by (auto simp: NewHubTLSConfig_def and_then_def split: sum.splits if_splits)
  obtain pool where pool: "w_CAPool w (CACert c) = Some pool"
    and rest: "(if length (TPMDevice c) > 0 then case w_TPM ?w c pool of None \<Rightarrow> Inl TPMFailed | Some cfg \<Rightarrow> Inr (cfg, True)
       else if length (Cert c) > 0 \<or> length (Key c) > 0
       then and_then (NewFSTlsConfig ?w pool (Cert c) (Key c)) (\<lambda>cfg. Inr (cfg, False))
       else Inr (plain_tls ?w pool [], False)) = Inr (cfg, clean)"
    using cfg(1) by (cases "w_CAPool w (CACert c)") (simp_all add: newHubTLSConfig0_def NewCAPool_def)
  have "\<not> tc_InsecureSkipVerify cfg \<and> tc_RootCAs cfg = pool"
  proof (cases "length (TPMDevice c) > 0")
    case True
    with rest have "w_TPM ?w c pool = Some cfg" by (auto split: option.splits)
    then obtain conn tpm where "snd (NewTPMTlsConfig lib c pool st) = Inr (cfg, conn, tpm)"
      by (auto simp: with_tpm_def split: sum.splits)
    then show ?thesis using TPM_config by (metis prod.collapse)
  next
    case False
    with rest show ?thesis
      by (auto simp: NewFSTlsConfig_def plain_tls_def and_then_def split: if_splits sum.splits option.splits)
  qed
  with pool cfg show ?thesis by simp
qed

lemma hub_credentials_TLS: "hub_credentials w t s cfg = Inr (s', cfg') \<Longrightarrow> TLSConfig cfg' = TLSConfig cfg"
  by (auto simp: hub_credentials_def with_password_def Let_def split: list.splits if_splits sum.splits)

lemma finish_hub_TLS: "finish_hub w s cfg cl = (s', Inr (c, cl')) \<Longrightarrow> TLSConfig (mc_config c) = TLSConfig cfg \<and> cl' = cl"
  by (auto simp: finish_hub_def NewMQTTConnectionCredentialsProvider_def Let_def split: sum.splits if_splits)

lemma CreateHubConnection_TLS:
  assumes "CreateHubConnection w s nop = (s', Inr (c, cl))"
  shows "case TLSConfig (mc_config c) of None \<Rightarrow> cl = None | Some t \<Rightarrow> \<exists>clean. NewHubTLSConfig w (hs_TLS s) = Inr (t, clean)"
proof -
  have plain: "TLSConfig (hub_intervals w nop cfg) = None" "TLSConfig (with_password x (hub_intervals w nop cfg)) = None"
    if "NewMQTTClientConfig f a = Some cfg" for f a cfg x
    using that by (auto simp: NewMQTTClientConfig_def hub_intervals_def with_password_def split: option.splits)
  show ?thesis
    using assms unfolding CreateHubConnection_def Let_def
    by (auto split: option.splits if_splits sum.splits dest!: finish_hub_TLS simp: plain)
qed

text \<open>
  (C28) The hub is always authenticated: whatever the settings, the device and the files are, a hub connection
  with TLS verifies the server, against the certificate authorities of the configured file.
\<close>

theorem hub_connection_verifies:
  fixes w :: "('pool, 'cert) world"
  shows "case CreateHubConnection (with_tpm lib st w) s nopStore :: _ \<times> ('pool, 'cert, 'h, 'l) hub_result of
     (s', Inl _) \<Rightarrow> True
   | (s', Inr (c, cleaner)) \<Rightarrow>
       (case TLSConfig (mc_config c) of
          None \<Rightarrow> cleaner = None
        | Some t \<Rightarrow> \<not> tc_InsecureSkipVerify t \<and> w_CAPool w (CACert (hs_TLS s)) = Some (tc_RootCAs t))"
proof -
  obtain s' r where r: "CreateHubConnection (with_tpm lib st w) s nopStore = (s', r :: ('pool, 'cert, 'h, 'l) hub_result)" by fastforce
  show ?thesis
  proof (cases r)
    case (Inr p)
    obtain c cl where p: "p = (c, cl)" by fastforce
    have "case TLSConfig (mc_config c) of None \<Rightarrow> cl = None
        | Some t \<Rightarrow> \<exists>clean. NewHubTLSConfig (with_tpm lib st w) (hs_TLS s) = Inr (t, clean)"
      using CreateHubConnection_TLS r Inr p by blast
    then show ?thesis
      by (cases "TLSConfig (mc_config c)") (auto simp: r Inr p dest: NewHubTLSConfig_verifies)
  qed (simp add: r)
qed

end
