(* ===== verification/Program.thy ===== *)
theory Program
  imports Launcher Flags Tpm
begin

text \<open>
  The program, \<^verbatim>\<open>src/cmd/connector/main.go\<close>: the command line, the configuration file and the defaults are
  combined to the settings, which are validated before the application is run with them. \<open>merge\<close> is \<^verbatim>\<open>mergo.Map\<close>,
  which overrides settings with the flags that were given.
\<close>

subsection \<open>Running\<close>

datatype run_error =
  Help
| ErrParse
| ConfigUnreadable config_read_error
| MergeFailure
| SettingsInvalid settings_error
| InitFailure app_error

text \<open>How a run ends; \<open>Ongoing\<close> as long as the application has not returned.\<close>

datatype run_end = VersionPrinted | Failed run_error | Finished | Ongoing

definition config_file :: "flag_set \<Rightarrow> string" where
  "config_file f = (case lookup_flag f ''configFile'' of Some x \<Rightarrow> (case fl_value x of StringV s \<Rightarrow> s | _ \<Rightarrow> '''') | None \<Rightarrow> '''')"

text \<open>The settings the application is started with, if it is, and the end.\<close>

definition main_run ::
  "('pool, 'cert) world \<Rightarrow> flag_lib \<Rightarrow> (string \<Rightarrow> byte list option) \<Rightarrow> (byte list \<Rightarrow> Settings \<Rightarrow> Settings option)
   \<Rightarrow> ((string, any_value) mapping \<Rightarrow> Settings \<Rightarrow> Settings option) \<Rightarrow> (Settings \<Rightarrow> (app_error + unit) option)
   \<Rightarrow> string list \<Rightarrow> Settings option \<times> run_end" where
  "main_run w lib readFile decode merge app args =
     (case Parse lib args (Add @ AddGlobal) of
        Inl e \<Rightarrow> (None, Failed (if e = HelpRequested then Help else ErrParse))
      | Inr (f, True) \<Rightarrow> (None, VersionPrinted)
      | Inr (f, False) \<Rightarrow>
          (case ReadConfig (w_stat w) readFile decode (config_file f) (KPtr (Some KStruct)) DefaultSettings of
             Inl e \<Rightarrow> (None, Failed (ConfigUnreadable e))
           | Inr settings \<Rightarrow>
               (case merge (Copy f) settings of
                  None \<Rightarrow> (None, Failed MergeFailure)
                | Some settings \<Rightarrow>
                    (case ValidateStatic w settings of
                       Inl e \<Rightarrow> (None, Failed (SettingsInvalid e))
                     | Inr _ \<Rightarrow>
                         (Some settings,
                          case app settings of None \<Rightarrow> Ongoing | Some (Inl e) \<Rightarrow> Failed (InitFailure e) | Some (Inr _) \<Rightarrow> Finished)))))"

text \<open>The exit code of the process.\<close>

definition exit_code :: "run_end \<Rightarrow> nat option" where
  "exit_code r =
     (case r of
        Ongoing \<Rightarrow> None
      | Failed Help \<Rightarrow> Some 0
      | Failed ErrParse \<Rightarrow> Some 2
      | Failed _ \<Rightarrow> Some 1
      | _ \<Rightarrow> Some 0)"

definition ConfigCheck :: "(string \<Rightarrow> stat_result) \<Rightarrow> string \<Rightarrow> bool" where
  "ConfigCheck stat configFile \<longleftrightarrow> length configFile > 0 \<and> \<not> FileExists stat configFile"

text \<open>The middlewares of the router of a launcher: the recovery from panics, and the tracer for the given prefixes.\<close>

datatype middleware = Recoverer | Tracer "string list"

definition SetupTracing :: "(string \<Rightarrow> string) \<Rightarrow> middleware list" where
  "SetupTracing Getenv =
     (let tracingPrefixes = Getenv ''TRACE_TOPIC_PREFIX''
      in Recoverer # (if length tracingPrefixes > 0 then [Tracer (Split tracingPrefixes (CHR '',''))] else []))"

text \<open>The router of a launcher is known by its middlewares.\<close>

definition NewRouter :: "(string \<Rightarrow> string) \<Rightarrow> middleware list" where
  "NewRouter Getenv = SetupTracing Getenv"

text \<open>A panic of a handler never ends the connector: the recovery is the first middleware of every router.\<close>

lemma NewRouter_recovers: "\<exists>ms. NewRouter Getenv = Recoverer # ms"
  by (simp add: NewRouter_def SetupTracing_def Let_def)

subsection \<open>Lemmas\<close>

text \<open>The settings by the keys of the copied flags.\<close>

definition settings_values :: "Settings \<Rightarrow> (string \<times> any_value) list" where
  "settings_values s = (let l = st_Log s; h = st_Hub s; t = hs_TLS h; b = st_Local s in
    [(''logLevel'', ALevel (LogLevel l)), (''logFileSize'', AInt (LogFileSize l)), (''logFileCount'', AInt (LogFileCount l)),
     (''logFileMaxAge'', AInt (LogFileMaxAge l)), (''logFile'', AString (LogFile l)), (''address'', AString (hs_Address h)),
     (''deviceIDPattern'', AString (hs_DeviceIDPattern h)), (''deviceID'', AString (hs_DeviceID h)), (''tenantID'', AString (hs_TenantID h)),
     (''policyID'', AString (hs_PolicyID h)), (''authID'', AString (hs_AuthID h)), (''password'', AString (hs_Password h)),
     (''username'', AString (hs_Username h)), (''clientID'', AString (hs_ClientID h)), (''generic'', ABool (hs_Generic h)),
     (''alpn'', AStrings (Alpn t)), (''CACert'', AString (CACert t)), (''cert'', AString (Cert t)), (''key'', AString (Key t)),
     (''TPMKey'', AString (TPMKey t)), (''TPMKeyPub'', AString (TPMKeyPub t)), (''TPMDevice'', AString (TPMDevice t)),
     (''TPMHandle'', AUint64 (TPMHandle t)), (''localAddress'', AString (LocalAddress b)), (''localUsername'', AString (LocalUsername b)),
     (''localPassword'', AString (LocalPassword b)), (''localCACert'', AString (LocalCACert b)), (''localCert'', AString (LocalCert b)),
     (''localKey'', AString (LocalKey b)), (''provisioningFile'', AString (st_ProvisioningFile s))])"

definition settings_value :: "Settings \<Rightarrow> string \<Rightarrow> any_value option" where
  "settings_value s = map_of (settings_values s)"

text \<open>The documented behaviour of the merge: the given keys override, the others stay.\<close>

definition merged_over :: "(string, any_value) mapping \<Rightarrow> Settings \<Rightarrow> Settings \<Rightarrow> bool" where
  "merged_over cli s s' \<longleftrightarrow> (\<forall>k v. settings_value s k = Some v \<longrightarrow>
     settings_value s' k = (case Mapping.lookup cli k of Some v' \<Rightarrow> Some v' | None \<Rightarrow> Some v))"

lemma settings_value_keys: "settings_value s k \<noteq> None \<longleftrightarrow> k \<in> copied_name ` fl_name ` set Add"
proof -
  have "map copied_name (map fl_name Add) = take 30 (map copied_name (map fl_name all_flags))"
  proof -
    have "map copied_name (map fl_name all_flags) = map copied_name (map fl_name Add) @ map copied_name (map fl_name (AddGlobal @ [new_flag ''version'' (BoolV False)]))"
      by (simp add: all_flags_def)
    moreover have "length Add = 30" by (simp add: registered_defs Let_def)
    ultimately show ?thesis by simp
  qed
  moreover have "map fst (settings_values s) = take 30 (map copied_name (map fl_name all_flags))"
    unfolding copied_names by (simp add: settings_values_def Let_def)
  ultimately have "set (map fst (settings_values s)) = copied_name ` fl_name ` set Add" by (metis image_set map_map)
  then show ?thesis unfolding settings_value_def by (simp add: map_of_eq_None_iff)
qed

lemma main_run_started:
  assumes "main_run w lib readFile decode merge app args = (Some s, r)"
  obtains f c where "Parse lib args (Add @ AddGlobal) = Inr (f, False)"
    "ReadConfig (w_stat w) readFile decode (config_file f) (KPtr (Some KStruct)) DefaultSettings = Inr c"
    "merge (Copy f) c = Some s" "ValidateStatic w s = Inr ()"
  using assms by (auto simp: main_run_def split: sum.splits prod.splits bool.splits option.splits)

lemma and_then_apply_names:
  assumes "and_then (apply_flag lib n x v f) k = Inr f'"
    and "\<And>g. k g = Inr f' \<Longrightarrow> map fl_name (formal f') = map fl_name (formal g)"
  shows "map fl_name (formal f') = map fl_name (formal f)"
proof -
  obtain u where "k (set_flag n u f) = Inr f'"
    using assms(1) by (auto simp: apply_flag_def and_then_def split: option.splits)
  from assms(2) [OF this] show ?thesis by (simp add: set_flag_def)
qed

lemma parse_args_names: "parse_args lib args f = Inr f' \<Longrightarrow> map fl_name (formal f') = map fl_name (formal f)"
proof (induction args arbitrary: f rule: length_induct)
  case (1 args)
  show ?case
  proof (cases args)
    case Nil
    with "1.prems" show ?thesis by simp
  next
    case (Cons s as)
    have IH: "map fl_name (formal f') = map fl_name (formal g)" if "parse_args lib bs g = Inr f'" "length bs \<le> length as" for bs g
      using "1.IH" that Cons by (metis length_Cons less_Suc_eq_le)
    from "1.prems" show ?thesis
      unfolding Cons parse_args.simps
      by (simp only: split: option.splits if_splits prod.splits list.splits)
        (auto elim!: and_then_apply_names IH)
  qed
qed

lemma Parse_names:
  assumes "Parse lib args (Add @ AddGlobal) = Inr (f, v)"
  shows "map fl_name (formal f) = map fl_name all_flags"
  using assms parse_args_names [of lib args "\<lparr>formal = (Add @ AddGlobal) @ [new_flag ''version'' (BoolV False)], actual = []\<rparr>" f]
  by (auto simp: Parse_def and_then_def all_flags_def split: sum.splits)

subsection \<open>Properties\<close>

text \<open>
  (C13) The command line wins over the configuration file, and that over the defaults: the application is started
  only with settings that pass the static validation, and each of them that has a flag has the value given for
  the flag on the command line, or else the one the configuration file leaves.
\<close>

theorem settings_precedence:
  assumes "main_run w lib readFile decode merge app args = (Some s, r)"
    and "\<And>cli c c'. merge cli c = Some c' \<Longrightarrow> merged_over cli c c'"
  shows "ValidateStatic w s = Inr () \<and>
    (\<exists>f c. Parse lib args (Add @ AddGlobal) = Inr (f, False) \<and>
       ReadConfig (w_stat w) readFile decode (config_file f) (KPtr (Some KStruct)) DefaultSettings = Inr c \<and>
       (\<forall>x \<in> set (formal f). fl_name x \<in> fl_name ` set Add \<longrightarrow>
          settings_value s (copied_name (fl_name x)) =
            (if fl_name x \<in> set (actual f) then Some (flag_Get (fl_value x)) else settings_value c (copied_name (fl_name x)))))"
proof -
  obtain f c where f: "Parse lib args (Add @ AddGlobal) = Inr (f, False)"
    and c: "ReadConfig (w_stat w) readFile decode (config_file f) (KPtr (Some KStruct)) DefaultSettings = Inr c"
    and m: "merge (Copy f) c = Some s" and v: "ValidateStatic w s = Inr ()"
    using assms(1) by (rule main_run_started)
  have dist: "distinct (map (copied_name \<circ> fl_name) (formal f))"
    using all_flags_distinct(2) Parse_names [OF f] by (simp flip: map_map)
  have "settings_value s (copied_name (fl_name x)) =
      (if fl_name x \<in> set (actual f) then Some (flag_Get (fl_value x)) else settings_value c (copied_name (fl_name x)))"
    if x: "x \<in> set (formal f)" "fl_name x \<in> fl_name ` set Add" for x
  proof -
    obtain u where "settings_value c (copied_name (fl_name x)) = Some u"
      using settings_value_keys [of c "copied_name (fl_name x)"] x(2) by blast
    with assms(2) [OF m] Copy_lookup [OF dist x(1)] show ?thesis by (simp add: merged_over_def)
  qed
  with f c v show ?thesis by blast
qed

definition device_merge :: "(string, any_value) mapping \<Rightarrow> Settings \<Rightarrow> Settings option" where
  "device_merge cli s =
     (if cli = Mapping.update ''deviceID'' (AString ''ns:dev'') Mapping.empty
      then Some (s\<lparr>st_Hub := (st_Hub s)\<lparr>hs_DeviceID := ''ns:dev''\<rparr>\<rparr>) else None)"

lemma map_of_list_update:
  assumes "distinct (map fst xs)" "i < length xs" "fst (xs ! i) = k"
  shows "map_of (xs[i := (k, v)]) = (map_of xs)(k \<mapsto> v)"
  using assms
proof (induction xs arbitrary: i)
  case (Cons x xs)
  show ?case
  proof (cases i)
    case (Suc j)
    with Cons.prems have "fst x \<noteq> k" by force
    with Suc Cons show ?thesis by (auto simp: fun_eq_iff)
  qed (use Cons.prems in \<open>auto simp: fun_eq_iff\<close>)
qed simp

lemma settings_values_distinct: "distinct (map fst (settings_values s))"
  by (simp add: settings_values_def Let_def)

lemma settings_value_device:
  "settings_value (s\<lparr>st_Hub := (st_Hub s)\<lparr>hs_DeviceID := d\<rparr>\<rparr>) = (settings_value s)(''deviceID'' \<mapsto> AString d)"
proof -
  have "settings_values (s\<lparr>st_Hub := (st_Hub s)\<lparr>hs_DeviceID := d\<rparr>\<rparr>) = (settings_values s)[7 := (''deviceID'', AString d)]"
    "7 < length (settings_values s)" "fst (settings_values s ! 7) = ''deviceID''"
    by (simp_all add: settings_values_def Let_def)
  then show ?thesis unfolding settings_value_def by (simp only: map_of_list_update [OF settings_values_distinct])
qed

lemma device_merge_over: "device_merge cli c = Some c' \<Longrightarrow> merged_over cli c c'"
  by (auto simp: device_merge_def merged_over_def settings_value_device lookup_mapping_if split: if_splits)

theorem settings_precedence_witness:
  "case main_run sample_world \<lparr>fp_Int = Atoi, fp_Uint64 = (\<lambda>_. None), fp_RequestURI = (\<lambda>_. True)\<rparr> (\<lambda>_. None) (\<lambda>_. Some) device_merge
       (\<lambda>_. None) [''-deviceId=ns:dev''] of
     (None, _) \<Rightarrow> False
   | (Some s, r) \<Rightarrow> r = Ongoing \<and> settings_value s ''deviceID'' = Some (AString ''ns:dev'')"
proof -
  let ?lib = "\<lparr>fp_Int = Atoi, fp_Uint64 = (\<lambda>_. None), fp_RequestURI = (\<lambda>_. True)\<rparr>"
  let ?x = "\<lparr>fl_name = ''deviceId'', fl_value = StringV ''ns:dev''\<rparr>"
  have p: "\<exists>f. Parse ?lib [''-deviceId=ns:dev''] (Add @ AddGlobal) = Inr (f, False) \<and> actual f = [''deviceId''] \<and>
      ?x \<in> set (formal f) \<and> config_file f = []"
    by (simp add: Parse_def strip_hyphens_def split_arg_def lookup_flag_def registered_defs apply_flag_def set_flag_def
        NewStringSliceV_def NewLogLevelV_def NewURLV_def IsBoolFlag_def config_file_def DefaultSettings_def Let_def)
  then obtain f where f: "Parse ?lib [''-deviceId=ns:dev''] (Add @ AddGlobal) = Inr (f, False)" "actual f = [''deviceId'']"
    "?x \<in> set (formal f)" "config_file f = []" by blast
  have dist: "distinct (map (copied_name \<circ> fl_name) (formal f))"
    using all_flags_distinct(2) Parse_names [OF f(1)] by (simp flip: map_map)
  have name: "copied_name ''deviceId'' = ''deviceID''" by (simp add: copied_name_def flagCACert_def HasPrefix_def)
  have "Mapping.keys (Copy f) = {''deviceID''}"
    unfolding Copy_keys [OF dist] f(2) using f(3) name by (auto intro!: bexI [of _ ?x])
  moreover have look: "Mapping.lookup (Copy f) ''deviceID'' = Some (AString ''ns:dev'')"
    using Copy_lookup [OF dist f(3)] name f(2) by simp
  ultimately have copy: "Copy f = Mapping.update ''deviceID'' (AString ''ns:dev'') Mapping.empty"
    by (intro mapping_eqI) (metis (no_types, lifting) in_keys_lookup lookup_empty lookup_update' singletonD singletonI)
  let ?s = "DefaultSettings\<lparr>st_Hub := (st_Hub DefaultSettings)\<lparr>hs_DeviceID := ''ns:dev''\<rparr>\<rparr>"
  have "ReadConfig (w_stat sample_world) (\<lambda>_. None) (\<lambda>_. Some) (config_file f) (KPtr (Some KStruct)) DefaultSettings = Inr DefaultSettings"
    by (simp add: ReadConfig_def f(4) FileExists_def validStructPointer_def)
  moreover have "ValidateStatic sample_world ?s = Inr ()"
    by (simp add: ValidateStatic_def sample_world_def DefaultSettings_def LogSettings_Validate_def local_Validate_def
        isConnectionSecure_def FileExists_def Let_def)
  ultimately have run: "main_run sample_world ?lib (\<lambda>_. None) (\<lambda>_. Some) device_merge (\<lambda>_. None) [''-deviceId=ns:dev''] = (Some ?s, Ongoing)"
    by (simp add: main_run_def f(1) copy device_merge_def)
  have "settings_value ?s (copied_name (fl_name ?x)) = Some (flag_Get (fl_value ?x))"
  proof -
    have "fl_name ?x \<in> fl_name ` set Add" by (simp add: registered_defs Let_def)
    with settings_precedence [OF run device_merge_over] f(1-3) show ?thesis by auto
  qed
  then show ?thesis by (simp add: run name)
qed

end
