(* ===== verification/Settings_Copy.thy ===== *)
theory Settings_Copy
  imports Settings
begin

text \<open>
  \<^verbatim>\<open>DeepCopy\<close> of \<^verbatim>\<open>src/config/settings.go\<close>: a launcher works on a copy of the settings of the application, which it
  changes through its own pointer. The settings live in a store, and so do the arrays behind the slices of protocol names
  (\<open>Alpn\<close>), because the copy of a struct copies the reference to the array and not its elements.
\<close>

subsection \<open>Store\<close>

text \<open>The field \<open>Alpn\<close> of a stored struct is not used; \<open>ss_alpn\<close> is the array its slice refers to.\<close>

record settings_store =
  ss_settings :: "nat \<Rightarrow> Settings"
  ss_alpn :: "nat \<Rightarrow> nat"
  ss_arrays :: "nat \<Rightarrow> string list"
  ss_next :: nat
  ss_next_array :: nat

definition with_alpn :: "string list \<Rightarrow> Settings \<Rightarrow> Settings" where
  "with_alpn a s = s\<lparr>st_Hub := (st_Hub s)\<lparr>hs_TLS := (hs_TLS (st_Hub s))\<lparr>Alpn := a\<rparr>\<rparr>\<rparr>"

definition read_settings :: "settings_store \<Rightarrow> nat \<Rightarrow> Settings" where
  "read_settings st p = with_alpn (ss_arrays st (ss_alpn st p)) (ss_settings st p)"

text \<open>
  \<open>clone := *settings\<close> with a pointer to the new struct; an assignment to fields, where a new slice has an array of
  its own; and an assignment to an element of the slice, which is out of range where the slice is shorter.
\<close>

definition DeepCopy :: "nat \<Rightarrow> settings_store \<Rightarrow> nat \<times> settings_store" where
  "DeepCopy p st =
     (let clone = ss_next st
      in (clone, st\<lparr>ss_settings := (ss_settings st)(clone := ss_settings st p),
            ss_alpn := (ss_alpn st)(clone := ss_alpn st p), ss_next := clone + 1\<rparr>))"

definition assign_settings :: "nat \<Rightarrow> Settings \<Rightarrow> settings_store \<Rightarrow> settings_store" where
  "assign_settings p s st =
     (let a = ss_next_array st
      in st\<lparr>ss_settings := (ss_settings st)(p := s), ss_alpn := (ss_alpn st)(p := a),
           ss_arrays := (ss_arrays st)(a := Alpn (hs_TLS (st_Hub s))), ss_next_array := a + 1\<rparr>)"

definition assign_element :: "nat \<Rightarrow> nat \<Rightarrow> string \<Rightarrow> settings_store \<Rightarrow> settings_store outcome" where
  "assign_element p i v st =
     (let a = ss_alpn st p
      in if i < length (ss_arrays st a) then Inr (st\<lparr>ss_arrays := (ss_arrays st)(a := (ss_arrays st a)[i := v])\<rparr>)
         else Inl IndexOutOfRange)"

definition store_ok :: "settings_store \<Rightarrow> bool" where
  "store_ok st \<longleftrightarrow> (\<forall>p < ss_next st. ss_alpn st p < ss_next_array st)"

subsection \<open>Properties\<close>

text \<open>The copy has the content of the original.\<close>

lemma DeepCopy_equal:
  assumes "DeepCopy p st = (q, st')"
  shows "read_settings st' q = read_settings st p"
  using assms by (auto simp: DeepCopy_def read_settings_def Let_def)

lemma DeepCopy_ok:
  assumes "DeepCopy p st = (q, st')" "store_ok st" "p < ss_next st"
  shows "store_ok st' \<and> q \<noteq> p \<and> p < ss_next st' \<and> read_settings st' p = read_settings st p"
  using assms by (auto simp: DeepCopy_def read_settings_def store_ok_def Let_def less_Suc_eq)

lemma assign_ok:
  assumes "store_ok st" "q \<noteq> p" "p < ss_next st"
  shows "store_ok (assign_settings q s st) \<and> p < ss_next (assign_settings q s st) \<and>
    read_settings (assign_settings q s st) p = read_settings st p"
  using assms by (fastforce simp: assign_settings_def read_settings_def store_ok_def Let_def)

text \<open>An assignment is read back.\<close>

lemma assign_read: "read_settings (assign_settings q s st) q = s"
  by (simp add: assign_settings_def read_settings_def with_alpn_def Let_def)

text \<open>
  A launcher does not change the settings of the application: however often it assigns to the fields of its copy, the
  original reads as before, so that the next launcher starts from the same settings.
\<close>

lemma DeepCopy_isolated:
  assumes "DeepCopy p st = (q, st')" "store_ok st" "p < ss_next st"
  shows "read_settings (fold (assign_settings q) ss st') p = read_settings st p"
proof -
  have "read_settings (fold (assign_settings q) ss u) p = read_settings u p"
    if "store_ok u" "q \<noteq> p" "p < ss_next u" for u
    using that
  proof (induction ss arbitrary: u)
    case (Cons s ss)
    from assign_ok [OF Cons.prems, of s] Cons.prems(2) Cons.IH [of "assign_settings q s u"] show ?case by simp
  qed simp
  with DeepCopy_ok [OF assms] show ?thesis by simp
qed

text \<open>The copy is not deep: an assignment to an element of the protocol names of the copy is seen in the original.\<close>

lemma DeepCopy_shares_alpn:
  assumes "DeepCopy p st = (q, st')" "store_ok st" "p < ss_next st" "assign_element q i v st' = Inr st''"
  shows "Alpn (hs_TLS (st_Hub (read_settings st'' p))) = (Alpn (hs_TLS (st_Hub (read_settings st p))))[i := v]"
  using assms by (auto simp: DeepCopy_def assign_element_def read_settings_def with_alpn_def Let_def split: if_splits)

end
