(* ===== verification/Test_Util.thy ===== *)
theory Test_Util
  imports Client_Config Logger
begin

text \<open>
  What the packages of the connector offer to tests, \<^verbatim>\<open>src/testutil\<close>: the configuration of a connection to the broker of
  the tests, and a logger that hands its lines to the log of a test. The environment and the URL parser are parameters.
\<close>

subsection \<open>Configuration\<close>

definition env_or :: "(string \<Rightarrow> string) \<Rightarrow> string \<Rightarrow> string \<Rightarrow> string" where
  "env_or Getenv k def = (let v = Getenv k in if length v = 0 then def else v)"

definition NewLocalConfig :: "(string \<Rightarrow> string) \<Rightarrow> (string \<Rightarrow> string option) \<Rightarrow> 'tls Configuration option" where
  "NewLocalConfig Getenv requestURI =
     (let uri = env_or Getenv ''TEST_MQTT_URI'' ''tcp://localhost:1883'' in
      case NewMQTTClientConfig requestURI uri of
        None \<Rightarrow> None
      | Some cfg \<Rightarrow>
          let cfg = cfg\<lparr>ConnectRetryInterval := 0\<rparr>;
              testUser = env_or Getenv ''TEST_MQTT_USER'' ''admin'';
              testPass = env_or Getenv ''TEST_MQTT_PASS'' ''admin''
          in Some (cfg\<lparr>Creds := \<lparr>UserName = testUser, Password = testPass\<rparr>\<rparr>))"

subsection \<open>Logger\<close>

text \<open>The exporter gives the log of the test three arguments: the name in brackets, the aligned level, and the message.\<close>

record testExporter =
  te_name :: string

definition newTestExporter :: "string \<Rightarrow> testExporter" where
  "newTestExporter name = \<lparr>te_name = ''['' @ name @ '']''\<rparr>"

definition test_Export :: "testExporter \<Rightarrow> string list Exporter" where
  "test_Export e level msg = [te_name e, StringAligned level, strip_newline msg]"

definition test_NewLogger :: "string \<Rightarrow> LogLevel \<Rightarrow> ('v, string list) loggerExt" where
  "test_NewLogger name level = NewLoggerWithExporter (test_Export (newTestExporter name)) level"

text \<open>The logger of the MQTT library in tests writes to the standard output, with the bare name as its prefix.\<close>

definition test_init :: "(string \<Rightarrow> string) \<Rightarrow> logger_out \<Rightarrow> paho_logs \<Rightarrow> paho_logs" where
  "test_init Getenv stdout p =
     (let pahoLogLevel = Getenv ''TEST_MQTT_LOG_LEVEL''
      in if length pahoLogLevel > 0
         then ConfigMQTT (ParseLogLevel pahoLogLevel) \<lparr>gl_out = stdout, gl_prefix = ''[paho]''\<rparr> p else p)"

subsection \<open>Properties\<close>

text \<open>
  Connections of tests fail fast and never without a user: the client made from the configuration does not retry its first
  connect and presents a user name, whatever the environment holds; and the configuration is valid when the parser accepts
  the address it printed.
\<close>

lemma NewLocalConfig_client:
  assumes "NewLocalConfig Getenv requestURI = Some (c :: 'tls Configuration)"
    and "\<And>b u. requestURI b = Some u \<Longrightarrow> u \<noteq> [] \<and> urlParses u"
  shows "Validate urlParses c = Inr () \<and> co_ConnectRetry (createClientOptions defaults c i clean) = co_ConnectRetry defaults \<and>
    (\<exists>u p. co_Credentials (createClientOptions defaults c i clean) = Some (u, p) \<and> u \<noteq> [] \<and> p \<noteq> [])"
proof -
  let ?uri = "env_or Getenv ''TEST_MQTT_URI'' ''tcp://localhost:1883''"
  obtain d :: "'tls Configuration" where d: "NewMQTTClientConfig requestURI ?uri = Some d"
    and c: "c = d\<lparr>ConnectRetryInterval := 0, Creds := \<lparr>UserName = env_or Getenv ''TEST_MQTT_USER'' ''admin'',
      Password = env_or Getenv ''TEST_MQTT_PASS'' ''admin''\<rparr>\<rparr>"
    using assms(1) by (auto simp: NewLocalConfig_def Let_def split: option.splits)
  have "Validate urlParses d = Inr ()"
    using d assms(2) by (auto simp: Validate_ok_iff NewMQTTClientConfig_def config_consts duration_defs split: option.splits)
  then have "Validate urlParses c = Inr ()" by (simp add: c Validate_ok_iff)
  moreover have "UserName (Creds c) \<noteq> []" "Password (Creds c) \<noteq> []" by (simp_all add: c env_or_def Let_def)
  moreover have "ConnectRetryInterval c = 0" by (simp add: c)
  ultimately show ?thesis
    by (cases "TLSConfig c") (simp_all add: createClientOptions_def Let_def)
qed

text \<open>An address the parser refuses is reported and gives no configuration.\<close>

lemma NewLocalConfig_invalid:
  "NewLocalConfig Getenv requestURI = None \<longleftrightarrow> requestURI (env_or Getenv ''TEST_MQTT_URI'' ''tcp://localhost:1883'') = None"
  by (auto simp: NewLocalConfig_def NewMQTTClientConfig_def Let_def split: option.splits)

text \<open>A message without fields reaches the log of the test as it is, without its line break, if the level allows it.\<close>

lemma test_logger_Info:
  "log_Info add render sh (test_NewLogger name level) msg None =
     (if Enabled level INFO then [[''['' @ name @ '']'', ''INFO  '', strip_newline msg]] else [])"
  by (simp add: log_Info_def test_NewLogger_def NewLoggerWithExporter_def log_record_def record_fields_def test_Export_def
      newTestExporter_def StringAligned_def level_defs)

end
