(* ===== verification/Command_Round_Trip.thy ===== *)
theory Command_Round_Trip
  imports Handlers Cache_Cleaner
begin

text \<open>
  A command and its response through the handlers of \<^verbatim>\<open>routing/commands.go\<close>, which share the cache of requests with
  the handlers of all other commands and with its cleaner. Between the request and the response any steps of the others
  happen (\<open>Cache_Cleaner\<close>): requests and responses of other commands, passes of the cleaner, notifications.
\<close>

text \<open>The call of \<open>Put\<close> that the request handler makes is the step of its goroutine at the mutex.\<close>

lemma remember_step:
  assumes "ParseTimeout tmo = Inr d" "cid \<noteq> []" "d \<noteq> 0" "cache_inv (cache s)" "\<not> closed (cache s)"
  shows "\<exists>s'. act (PutCS now cid True (d + 5 * Second)) s = Some s' \<and> remember now cid tmo (cache s) = Inr (cache s')"
proof -
  have "0 \<le> d" "d < Hour" using ParseTimeout_range [OF assms(1)] by auto
  then have w: "wrap64 (d + Second * 5) = d + 5 * Second" "0 \<le> d + 5 * Second"
    by (simp_all add: wrap64_id in_int64_def duration_defs)
  obtain c' where "Put now cid True (d + 5 * Second) (cache s) = Inr (c', True)"
    by (rule Put_facts [OF assms(4,5) w(2)])
  with assms(1-3) w(1) show ?thesis by (simp add: remember_def finish_cs_def)
qed

text \<open>
  Whatever message a handler is given, all it does to the cache is one such step, or none: the handlers of other commands are
  among the steps that interleave.
\<close>

lemma HandleResponse_step:
  assumes "HandleResponse envelope h msg (cache s) = Inr (c, r)"
  shows "c = cache s \<or> (\<exists>cid s'. act (RemoveCS cid) s = Some s' \<and> cache s' = c)"
proof (cases "TopicFromCtx (Context msg)")
  case None
  with assms show ?thesis by (simp add: HandleResponse_def)
next
  case (Some topic)
  show ?thesis
  proof (cases "envelope (Payload msg)")
    case None
    with Some assms show ?thesis by (simp add: HandleResponse_def)
  next
    case env: (Some e)
    obtain cid tmo where e: "e = (cid, tmo)" by (cases e)
    obtain c' b where "Remove cid (cache s) = Inr (c', b)" "c' = c"
      using assms Some env e
      by (auto simp: HandleResponse_def and_then_eq_Inr split: if_splits sum.splits) (metis sum.exhaust)
    then have "\<exists>s'. act (RemoveCS cid) s = Some s' \<and> cache s' = c" by (simp add: finish_cs_def)
    then show ?thesis by blast
  qed
qed

lemma remember_is_step:
  assumes "remember now cid tmo (cache s) = Inr c"
  shows "c = cache s \<or> (\<exists>d s'. act (PutCS now cid True d) s = Some s' \<and> cache s' = c)"
proof (cases "cid = [] \<or> ParseTimeout tmo = Inr 0")
  case True
  with assms show ?thesis by (auto simp: remember_def and_then_eq_Inr split: if_splits)
next
  case False
  then obtain d b where "Put now cid True (wrap64 (d + Second * 5)) (cache s) = Inr (c, b)"
    using assms by (auto simp: remember_def and_then_eq_Inr split: if_splits)
  then have "\<exists>s'. act (PutCS now cid True (wrap64 (d + Second * 5))) s = Some s' \<and> cache s' = c" by (simp add: finish_cs_def)
  then show ?thesis by blast
qed

lemma HandleRequest_step:
  assumes "HandleRequest envelope now h msg (cache s) = Inr (c, r)"
  shows "c = cache s \<or> (\<exists>cid d s'. act (PutCS now cid True d) s = Some s' \<and> cache s' = c)"
proof -
  have "c = cache s \<or> (\<exists>cid tmo. remember now cid tmo (cache s) = Inr c)"
    using assms
    by (auto simp: HandleRequest_def request_copies_def and_then_eq_Inr Let_def split: option.splits if_splits prod.splits sum.splits)
  with remember_is_step show ?thesis by blast
qed

text \<open>
  The response of the device, on either spelling of its topic, goes out exactly once on the hub's response topic for
  the same device: it is forwarded the first time, and swallowed however much later it is repeated, unless the same
  correlation ID is requested again.
\<close>

lemma command_round_trip:
  assumes "run as new_sys = Some s0" "\<not> closed (cache s0)"
    and "envelope (Payload req) = Some (cid, tmo)" "ParseTimeout tmo = Inr d" "cid \<noteq> []" "d \<noteq> 0"
    and "TopicFromCtx (Context req) = Some (hub_request_topic (rs_generic rs) (rs_tenantID rs) (rs_deviceID rs) dev rest)"
    and "rq_generic rq = rs_generic rs"
    and "CHR ''/'' \<notin> set (rs_tenantID rs)" "CHR ''/'' \<notin> set (rs_deviceID rs)" "CHR ''/'' \<notin> set dev" "rs_generic rs \<longrightarrow> dev \<noteq> []"
    and "run (PutCS now cid True (d + 5 * Second) # bs) s0 = Some s2" "list_all (spares cid (add_dur now (d + 5 * Second))) bs"
    and "\<not> closed (cache s2)" "run (RemoveCS cid # bs') s2 = Some s4" "\<forall>now v d. PutCS now cid v d \<notin> set bs'"
    and "envelope (Payload res) = Some (cid, tmo')" "TopicFromCtx (Context res) = Some t"
    and "t \<in> local_response_topics (local_device (rs_generic rs) (rs_deviceID rs) dev) rest'"
  obtains m1 m2 s1 s3 c5 where "HandleRequest envelope now rq req (cache s0) = Inr (cache s1, Inr [m1, m2])"
    "TopicFromCtx (Context m1) = Some (''command//'' @ local_device (rs_generic rs) (rs_deviceID rs) dev @ ''/req/'' @ rest)"
    "TopicFromCtx (Context m2) = Some (''c//'' @ local_device (rs_generic rs) (rs_deviceID rs) dev @ ''/q/'' @ rest)"
    "\<forall>m \<in> {m1, m2}. UUID m = UUID req \<and> Payload m = Payload req \<and> QosFromCtx (Context m) = QosFromCtx (Context req)"
    "\<forall>m \<in> {m1, m2}. RetainFromCtx (Context m) = RetainFromCtx (Context req)"
    "run bs s1 = Some s2"
    "HandleResponse envelope rs res (cache s2) = Inr (cache s3, Inr [SetContext res (SetTopicToCtx (Context res)
       (hub_response_topic (rs_generic rs) (rs_prefix rs) (rs_tenantID rs) (rs_deviceID rs) dev rest'))])"
    "run bs' s3 = Some s4"
    "HandleResponse envelope rs res (cache s4) = Inr (c5, Inr [])"
proof -
  have inv: "sys_inv s0 \<and> known_crash s0" using cleaner.run_inv [OF assms(1)] new_sys_inv by blast
  then have "cache_inv (cache s0)" by (simp add: sys_inv_def)
  then obtain s1 where s1: "remember now cid tmo (cache s0) = Inr (cache s1)" "act (PutCS now cid True (d + 5 * Second)) s0 = Some s1"
    using remember_step [OF assms(4-6) _ assms(2)] by blast
  with assms(13) have run_s1: "run bs s1 = Some s2" unfolding run_steps_Cons by auto
  have "0 < d + 5 * Second" using ParseTimeout_range [OF assms(4)] by (simp add: duration_defs)
  note kept = pending_kept [OF inv this assms(2,13,14)]
  then have "cache_inv (cache s2)" by (simp add: sys_inv_def)
  then obtain c3 where "Remove cid (cache s2) = Inr (c3, cache_abs (cache s2) cid \<noteq> None)"
      "cache_abs c3 = (cache_abs (cache s2))(cid := None)"
    using assms(15) by (rule Remove_facts)
  with kept have c3: "Remove cid (cache s2) = Inr (c3, True)" "cache_abs c3 cid = None" by simp_all
  obtain s3 where s3: "act (RemoveCS cid) s2 = Some s3" "run bs' s3 = Some s4" "crashed s2 = None"
    using assms(16) unfolding run_steps_Cons by blast
  then have s3_cache: "cache s3 = c3" using c3 by (auto simp: finish_cs_def)
  have inv3: "sys_inv s3 \<and> known_crash s3" using act_inv [OF s3(1) _ s3(3)] kept by blast
  have "cache_inv (cache s4)" using cleaner.run_inv [OF s3(2) inv3] by (simp add: sys_inv_def)
  moreover have "cache_abs (cache s4) cid = None"
    using removed_stays_away [OF conjunct1 [OF inv3] conjunct2 [OF inv3] s3(2), of cid] c3(2) s3_cache assms(17) by simp
  ultimately have "\<exists>c5. Remove cid (cache s4) = Inr (c5, False)"
    by (cases "closed (cache s4)") (simp add: Remove_def, metis Remove_facts)
  then obtain c5 where c5: "Remove cid (cache s4) = Inr (c5, False)" by blast
  note answers = HandleResponse_pending [of res t rs dev rest' envelope, OF assms(19,20,18) c3(1) assms(10-12)]
    HandleResponse_unknown [of res t envelope, OF assms(19,18) c5, of rs]
  show thesis
  proof (rule HandleRequest_eq [of req rq "rs_tenantID rs" "rs_deviceID rs" dev rest envelope cid tmo now "cache s0" "cache s1",
        unfolded assms(8), OF assms(7,3) s1(1) assms(9-11)])
    fix m1 m2
    assume "HandleRequest envelope now rq req (cache s0) = Inr (cache s1, Inr [m1, m2])"
      "TopicFromCtx (Context m1) = Some (''command//'' @ local_device (rs_generic rs) (rs_deviceID rs) dev @ ''/req/'' @ rest)"
      "TopicFromCtx (Context m2) = Some (''c//'' @ local_device (rs_generic rs) (rs_deviceID rs) dev @ ''/q/'' @ rest)"
      "\<forall>m \<in> {m1, m2}. UUID m = UUID req \<and> Payload m = Payload req \<and> QosFromCtx (Context m) = QosFromCtx (Context req)"
      "\<forall>m \<in> {m1, m2}. RetainFromCtx (Context m) = RetainFromCtx (Context req)"
    from that [OF this run_s1 answers(1) [folded s3_cache] s3(2) answers(2)] show thesis .
  qed
qed

end
