(* ===== verification/Subscribe_Steps.thy ===== *)
theory Subscribe_Steps
  imports Connection Transitions
begin

text \<open>
  Subscribing while a connection comes and goes, \<^verbatim>\<open>src/connector/connection.go\<close>. Any number of calls of
  \<^verbatim>\<open>subscribe\<close> and \<^verbatim>\<open>unsubscribe\<close> interleave with the handlers \<^verbatim>\<open>onConnected\<close>, one of which the client starts
  in a goroutine of its own each time the connection has been opened. The steps are the atomic operations of the
  \<^verbatim>\<open>sync.Map\<close>, the question whether the connection is open, the call on the client, and the sections under the lock
  of a subscription.
\<close>

subsection \<open>State and steps\<close>

text \<open>
  A subscription is known by its address. \<open>ss_checking\<close> and \<open>ss_sending\<close> are the subscriptions whose call has still to ask
  for the connection or to send the packet, \<open>ss_leaving\<close> those that have been taken out of the map and not yet been
  disposed. \<open>ss_starting\<close> counts the handlers that have still to begin their range, and a range is the list of the
  subscriptions it has still to visit. The last two are no state of the program: \<open>ss_active\<close> records the subscriptions
  for which a packet was sent on the present connection that no unsubscribe packet followed, and \<open>ss_kept\<close> those that were
  disposed of without one on purpose, or while the call that made them had still to send its packet.
\<close>

record sub_sys =
  ss_topics :: "string \<Rightarrow> nat option"
  ss_next :: nat
  ss_disposed :: "nat set"
  ss_open :: bool
  ss_checking :: "nat set"
  ss_sending :: "nat set"
  ss_leaving :: "nat set"
  ss_starting :: nat
  ss_ranges :: "nat list list"
  ss_active :: "nat set"
  ss_kept :: "nat set"

definition new_sub_sys :: sub_sys where
  "new_sub_sys = \<lparr>ss_topics = Map.empty, ss_next = 0, ss_disposed = {}, ss_open = False, ss_checking = {}, ss_sending = {},
     ss_leaving = {}, ss_starting = 0, ss_ranges = [], ss_active = {}, ss_kept = {}\<rparr>"

datatype sub_action =
  StoreTopic string
| CheckOpen nat
| SendSubscribe nat
| DeleteTopic string
| DisposeSub bool nat
| Opened
| Lost
| BeginRange "nat list"
| VisitNext nat
| SkipNext nat
| EndRange nat

text \<open>A subscribe packet is sent if the connection is open when the client is called.\<close>

definition packet_sent :: "nat \<Rightarrow> sub_sys \<Rightarrow> sub_sys" where
  "packet_sent a s = (if ss_open s then s\<lparr>ss_active := insert a (ss_active s)\<rparr> else s)"

text \<open>The parts of \<^verbatim>\<open>subscribe\<close>.\<close>

definition store_topic :: "string \<Rightarrow> sub_sys \<Rightarrow> sub_sys" where
  "store_topic i s =
     (let a = ss_next s
      in s\<lparr>ss_topics := (ss_topics s)(i \<mapsto> a), ss_next := a + 1, ss_checking := insert a (ss_checking s)\<rparr>)"

definition check_open :: "nat \<Rightarrow> sub_sys \<Rightarrow> sub_sys option" where
  "check_open a s =
     (if a \<notin> ss_checking s then None
      else Some (s\<lparr>ss_checking := ss_checking s - {a},
             ss_sending := (if ss_open s then insert a (ss_sending s) else ss_sending s)\<rparr>))"

definition send_subscribe :: "nat \<Rightarrow> sub_sys \<Rightarrow> sub_sys option" where
  "send_subscribe a s =
     (if a \<notin> ss_sending s then None else Some (packet_sent a (s\<lparr>ss_sending := ss_sending s - {a}\<rparr>)))"

text \<open>
  The parts of \<^verbatim>\<open>unsubscribe\<close>. The identifier of a single topic is the topic, so what is taken out may be a
  subscription whose own call has not returned.
\<close>

definition delete_topic :: "string \<Rightarrow> sub_sys \<Rightarrow> sub_sys option" where
  "delete_topic i s =
     (case ss_topics s i of
        None \<Rightarrow> Some s
      | Some a \<Rightarrow> Some (s\<lparr>ss_topics := (ss_topics s)(i := None), ss_leaving := insert a (ss_leaving s)\<rparr>))"

definition dispose_sub :: "bool \<Rightarrow> nat \<Rightarrow> sub_sys \<Rightarrow> sub_sys option" where
  "dispose_sub autoDelete a s =
     (if a \<notin> ss_leaving s then None
      else let s1 = s\<lparr>ss_leaving := ss_leaving s - {a}, ss_disposed := insert a (ss_disposed s),
             ss_kept := (if autoDelete \<and> a \<notin> ss_checking s \<union> ss_sending s then ss_kept s else insert a (ss_kept s))\<rparr>
        in Some (if autoDelete \<and> ss_open s1 then s1\<lparr>ss_active := ss_active s1 - {a}\<rparr> else s1))"

text \<open>
  The range of \<^verbatim>\<open>onConnected\<close> visits what is stored when it begins, unless it is removed before its turn, and may
  meet what is stored later. A visit is the section under the lock of the subscription.
\<close>

definition begin_range :: "nat list \<Rightarrow> sub_sys \<Rightarrow> sub_sys option" where
  "begin_range as s =
     (if ss_starting s = 0 \<or> \<not> ran (ss_topics s) \<subseteq> set as then None
      else Some (s\<lparr>ss_starting := ss_starting s - 1, ss_ranges := ss_ranges s @ [as]\<rparr>))"

definition visit_next :: "nat \<Rightarrow> sub_sys \<Rightarrow> sub_sys option" where
  "visit_next i s =
     (if i < length (ss_ranges s) then
        case ss_ranges s ! i of
          [] \<Rightarrow> None
        | a # as \<Rightarrow>
            if a < ss_next s then
              let s1 = s\<lparr>ss_ranges := (ss_ranges s)[i := as]\<rparr>
              in Some (if a \<in> ss_disposed s1 then s1 else packet_sent a s1)
            else None
      else None)"

definition skip_next :: "nat \<Rightarrow> sub_sys \<Rightarrow> sub_sys option" where
  "skip_next i s =
     (if i < length (ss_ranges s) then
        case ss_ranges s ! i of
          [] \<Rightarrow> None
        | a # as \<Rightarrow> if a \<in> ran (ss_topics s) then None else Some (s\<lparr>ss_ranges := (ss_ranges s)[i := as]\<rparr>)
      else None)"

definition end_range :: "nat \<Rightarrow> sub_sys \<Rightarrow> sub_sys option" where
  "end_range i s =
     (if i < length (ss_ranges s) \<and> ss_ranges s ! i = []
      then Some (s\<lparr>ss_ranges := take i (ss_ranges s) @ drop (i + 1) (ss_ranges s)\<rparr>) else None)"

fun sub_step :: "sub_action \<Rightarrow> sub_sys \<Rightarrow> sub_sys option" where
  "sub_step (StoreTopic i) s = Some (store_topic i s)"
| "sub_step (CheckOpen a) s = check_open a s"
| "sub_step (SendSubscribe a) s = send_subscribe a s"
| "sub_step (DeleteTopic i) s = delete_topic i s"
| "sub_step (DisposeSub ad a) s = dispose_sub ad a s"
| "sub_step Opened s = (if ss_open s then None else Some (s\<lparr>ss_open := True, ss_starting := ss_starting s + 1\<rparr>))"
| "sub_step Lost s = (if ss_open s then Some (s\<lparr>ss_open := False, ss_active := {}\<rparr>) else None)"
| "sub_step (BeginRange as) s = begin_range as s"
| "sub_step (VisitNext i) s = visit_next i s"
| "sub_step (SkipNext i) s = skip_next i s"
| "sub_step (EndRange i) s = end_range i s"

abbreviation sub_run :: "sub_action list \<Rightarrow> sub_sys \<Rightarrow> sub_sys option" where
  "sub_run \<equiv> run_steps (\<lambda>_. False) sub_step"

subsection \<open>Invariant\<close>

text \<open>What is still going to be sent.\<close>

definition ranged :: "nat list list \<Rightarrow> nat set" where
  "ranged rs = (\<Union>r \<in> set rs. set r)"

definition coming :: "sub_sys \<Rightarrow> nat set" where
  "coming s = ss_checking s \<union> ss_sending s \<union> ranged (ss_ranges s)"

definition addresses_ok :: "sub_sys \<Rightarrow> bool" where
  "addresses_ok s \<longleftrightarrow>
     inj_on (ss_topics s) (dom (ss_topics s)) \<and>
     ran (ss_topics s) \<union> ss_checking s \<union> ss_sending s \<union> ss_leaving s \<union> ss_disposed s \<subseteq> {..<ss_next s} \<and>
     ran (ss_topics s) \<inter> (ss_leaving s \<union> ss_disposed s) = {} \<and>
     (ss_checking s \<union> ss_sending s) \<inter> ss_disposed s \<subseteq> ss_kept s"

text \<open>
  While the connection is open, what is stored has been sent or is going to be, by its own call or by a range; and what has
  been disposed of with an unsubscribe packet is not sent again.
\<close>

definition sub_inv :: "sub_sys \<Rightarrow> bool" where
  "sub_inv s \<longleftrightarrow>
     addresses_ok s \<and>
     (ss_open s \<and> ss_starting s = 0 \<longrightarrow> ran (ss_topics s) \<subseteq> ss_active s \<union> coming s) \<and>
     (\<not> ss_open s \<longrightarrow> ss_active s = {}) \<and> ss_active s \<inter> ss_disposed s \<subseteq> ss_kept s"

lemma packet_sent_sel [simp]:
  "ss_topics (packet_sent a s) = ss_topics s" "ss_next (packet_sent a s) = ss_next s" "ss_disposed (packet_sent a s) = ss_disposed s"
  "ss_open (packet_sent a s) = ss_open s" "ss_checking (packet_sent a s) = ss_checking s" "ss_sending (packet_sent a s) = ss_sending s"
  "ss_leaving (packet_sent a s) = ss_leaving s" "ss_starting (packet_sent a s) = ss_starting s" "ss_ranges (packet_sent a s) = ss_ranges s"
  "ss_kept (packet_sent a s) = ss_kept s" "ss_active (packet_sent a s) = (if ss_open s then insert a (ss_active s) else ss_active s)"
  by (simp_all add: packet_sent_def)

lemma ran_delete: "inj_on f (dom f) \<Longrightarrow> f i = Some a \<Longrightarrow> ran (f(i := None)) = ran f - {a}"
  by (auto simp: ran_def inj_on_def dom_def) (metis option.inject)

lemma store_topic_inv:
  assumes "sub_inv s"
  shows "sub_inv (store_topic i s)"
proof -
  have new: "ran ((ss_topics s)(i \<mapsto> ss_next s)) \<subseteq> insert (ss_next s) (ran (ss_topics s))" by (auto simp: ran_def)
  have "ss_next s \<notin> ran (ss_topics s)" using assms by (auto simp: sub_inv_def addresses_ok_def)
  then have "inj_on ((ss_topics s)(i \<mapsto> ss_next s)) (dom ((ss_topics s)(i \<mapsto> ss_next s)))"
    using assms by (auto simp: sub_inv_def addresses_ok_def inj_on_def ran_def dom_def)
  with assms new show ?thesis
    by (fastforce simp: sub_inv_def addresses_ok_def store_topic_def coming_def Let_def)
qed

lemma check_open_inv: "check_open a s = Some s' \<Longrightarrow> sub_inv s \<Longrightarrow> sub_inv s'"
  by (auto simp: check_open_def sub_inv_def addresses_ok_def coming_def split: if_splits)

lemma send_subscribe_inv: "send_subscribe a s = Some s' \<Longrightarrow> sub_inv s \<Longrightarrow> sub_inv s'"
  by (auto simp: send_subscribe_def sub_inv_def addresses_ok_def coming_def split: if_splits)

lemma delete_topic_inv:
  assumes "delete_topic i s = Some s'" "sub_inv s"
  shows "sub_inv s'"
proof (cases "ss_topics s i")
  case None
  with assms show ?thesis by (simp add: delete_topic_def)
next
  case (Some a)
  have "inj_on (ss_topics s) (dom (ss_topics s))" using assms(2) by (simp add: sub_inv_def addresses_ok_def)
  note ran = ran_delete [OF this Some]
  have "inj_on ((ss_topics s)(i := None)) (dom ((ss_topics s)(i := None)))"
    using assms(2) by (auto simp: sub_inv_def addresses_ok_def inj_on_def)
  moreover have "a \<in> ran (ss_topics s)" using Some by (rule ranI)
  ultimately show ?thesis
    using assms Some by (auto simp: delete_topic_def sub_inv_def addresses_ok_def coming_def ran split: if_splits)
qed

lemma dispose_sub_inv: "dispose_sub ad a s = Some s' \<Longrightarrow> sub_inv s \<Longrightarrow> sub_inv s'"
  by (auto simp: dispose_sub_def sub_inv_def addresses_ok_def coming_def Let_def split: if_splits)

lemma begin_range_inv:
  assumes "begin_range as s = Some s'" "sub_inv s"
  shows "sub_inv s'"
proof -
  have as: "ran (ss_topics s) \<subseteq> set as"
    and s': "s' = s\<lparr>ss_starting := ss_starting s - 1, ss_ranges := ss_ranges s @ [as]\<rparr>"
    using assms(1) by (auto simp: begin_range_def split: if_splits)
  then have "ran (ss_topics s') \<subseteq> coming s'" by (auto simp: coming_def ranged_def)
  with assms(2) show ?thesis by (auto simp: s' sub_inv_def addresses_ok_def)
qed

lemma ranged_update:
  assumes "i < length rs" "rs ! i = a # as"
  shows "ranged rs \<subseteq> insert a (ranged (rs[i := as]))"
proof -
  have "set rs \<subseteq> insert (rs ! i) (set (rs[i := as]))"
    using assms(1) by (metis list_update_id list_update_overwrite set_update_subset_insert)
  moreover have "as \<in> set (rs[i := as])" using assms(1) by (simp add: set_update_memI)
  ultimately show ?thesis using assms(2) unfolding ranged_def by fastforce
qed

text \<open>A turn of a range loses nothing: what it drops has been sent or is not stored.\<close>

lemma turn_inv:
  assumes "sub_inv s" "i < length (ss_ranges s)" "ss_ranges s ! i = a # as"
    and "t = s\<lparr>ss_ranges := (ss_ranges s)[i := as]\<rparr>"
    and "s' = t \<and> a \<notin> ran (ss_topics s) \<or> s' = packet_sent a t \<and> a \<notin> ss_disposed s"
  shows "sub_inv s'"
proof -
  have same: "ss_open s' = ss_open s" "ss_starting s' = ss_starting s" "ss_topics s' = ss_topics s" using assms(4,5) by auto
  have "coming s \<subseteq> insert a (coming s')"
    using ranged_update [OF assms(2,3)] assms(4,5) by (auto simp: coming_def)
  moreover have "ss_active s \<subseteq> ss_active s'" "ss_open s' \<Longrightarrow> a \<in> ran (ss_topics s) \<Longrightarrow> a \<in> ss_active s'" using assms(4,5) by auto
  moreover have "ran (ss_topics s) \<subseteq> ss_active s \<union> coming s" if "ss_open s" "ss_starting s = 0"
    using assms(1) that by (simp add: sub_inv_def)
  ultimately have "ran (ss_topics s') \<subseteq> ss_active s' \<union> coming s'" if "ss_open s'" "ss_starting s' = 0"
    using that same by auto
  moreover have "addresses_ok s'" using assms(1,4,5) by (auto simp: sub_inv_def addresses_ok_def)
  moreover have "(\<not> ss_open s' \<longrightarrow> ss_active s' = {}) \<and> ss_active s' \<inter> ss_disposed s' \<subseteq> ss_kept s'"
    using assms(1,4,5) by (auto simp: sub_inv_def split: if_splits)
  ultimately show ?thesis unfolding sub_inv_def by simp
qed

lemma visit_next_inv:
  assumes "visit_next i s = Some s'" "sub_inv s"
  shows "sub_inv s'"
proof -
  obtain a as where r: "i < length (ss_ranges s)" "ss_ranges s ! i = a # as"
    and s': "s' = (let s1 = s\<lparr>ss_ranges := (ss_ranges s)[i := as]\<rparr> in if a \<in> ss_disposed s1 then s1 else packet_sent a s1)"
    using assms(1) by (auto simp: visit_next_def Let_def split: if_splits list.splits)
  have "a \<in> ss_disposed s \<Longrightarrow> a \<notin> ran (ss_topics s)" using assms(2) by (auto simp: sub_inv_def addresses_ok_def)
  then show ?thesis by (intro turn_inv [OF assms(2) r refl]) (simp add: s' Let_def)
qed

lemma skip_next_inv:
  assumes "skip_next i s = Some s'" "sub_inv s"
  shows "sub_inv s'"
proof -
  obtain a as where r: "i < length (ss_ranges s)" "ss_ranges s ! i = a # as" "a \<notin> ran (ss_topics s)"
    and s': "s' = s\<lparr>ss_ranges := (ss_ranges s)[i := as]\<rparr>"
    using assms(1) by (auto simp: skip_next_def split: if_splits list.splits)
  then show ?thesis by (intro turn_inv [OF assms(2) r(1,2) refl]) simp
qed

lemma end_range_inv:
  assumes "end_range i s = Some s'" "sub_inv s"
  shows "sub_inv s'"
proof -
  have i: "i < length (ss_ranges s)" "ss_ranges s ! i = []"
    and s': "s' = s\<lparr>ss_ranges := take i (ss_ranges s) @ drop (i + 1) (ss_ranges s)\<rparr>"
    using assms(1) by (auto simp: end_range_def split: if_splits)
  have "set (ss_ranges s) = insert [] (set (take i (ss_ranges s) @ drop (i + 1) (ss_ranges s)))"
    using id_take_nth_drop [OF i(1)] i(2) by (metis (no_types, opaque_lifting) Suc_eq_plus1 Un_insert_right list.simps(15) set_append)
  then have "coming s = coming s'" by (simp add: coming_def ranged_def s')
  with assms(2) show ?thesis by (simp add: s' sub_inv_def addresses_ok_def)
qed

lemmas sub_steps_inv = store_topic_inv check_open_inv send_subscribe_inv delete_topic_inv dispose_sub_inv begin_range_inv
  visit_next_inv skip_next_inv end_range_inv

lemma sub_step_inv: "sub_step a s = Some s' \<Longrightarrow> sub_inv s \<Longrightarrow> sub_inv s'"
  by (cases a) (auto intro: sub_steps_inv split: if_splits, auto simp: sub_inv_def addresses_ok_def coming_def)

interpretation subscribing: stepping "\<lambda>_. False" sub_step sub_inv
  by unfold_locales (rule sub_step_inv)

lemma new_sub_inv: "sub_inv new_sub_sys"
  by (simp add: new_sub_sys_def sub_inv_def addresses_ok_def)

subsection \<open>Settling\<close>

text \<open>
  The steps of what is under way, when nobody subscribes or unsubscribes and the connection neither opens nor breaks. A
  range that begins meets what is stored, each subscription once.
\<close>

fun under_way :: "sub_action \<Rightarrow> bool" where
  "under_way (CheckOpen a) = True"
| "under_way (SendSubscribe a) = True"
| "under_way (BeginRange as) = True"
| "under_way (VisitNext i) = True"
| "under_way (SkipNext i) = True"
| "under_way (EndRange i) = True"
| "under_way _ = False"

definition settle_step :: "sub_action \<Rightarrow> sub_sys \<Rightarrow> sub_sys option" where
  "settle_step a s =
     (if under_way a \<and> (\<forall>as. a = BeginRange as \<longrightarrow> as = sorted_list_of_set (ran (ss_topics s))) then sub_step a s else None)"

definition settled :: "sub_sys \<Rightarrow> bool" where
  "settled s \<longleftrightarrow> ss_checking s = {} \<and> ss_sending s = {} \<and> ss_starting s = 0 \<and> ss_ranges s = []"

definition settle_rank :: "sub_sys \<Rightarrow> nat" where
  "settle_rank s = 2 * card (ss_checking s) + card (ss_sending s) + sum_list (map (Suc \<circ> length) (ss_ranges s)) +
     ss_starting s * (card (ran (ss_topics s)) + 2)"

lemma addresses_finite:
  assumes "sub_inv s"
  shows "finite (ran (ss_topics s))" "finite (ss_checking s)" "finite (ss_sending s)"
  using assms by (auto simp: sub_inv_def addresses_ok_def intro: finite_subset [of _ "{..<ss_next s}"])

lemma turn_rank:
  assumes "i < length rs" "rs ! i = a # as"
  shows "sum_list (map (Suc \<circ> length) (rs[i := as])) < sum_list (map (Suc \<circ> length) rs)"
proof -
  have "rs = take i rs @ (a # as) # drop (Suc i) rs" using id_take_nth_drop [OF assms(1)] assms(2) by simp
  then obtain xs ys where rs: "rs = xs @ (a # as) # ys" "length xs = i" using assms(1) by (metis length_take min.absorb4)
  then have "rs[i := as] = xs @ as # ys" by auto
  with rs(1) show ?thesis by simp
qed

lemma settle_rank_less:
  assumes "sub_inv s" "settle_step a s = Some s'"
  shows "settle_rank s' < settle_rank s"
proof (cases a)
  case (CheckOpen x)
  with assms(2) have "x \<in> ss_checking s" and s': "s' = s\<lparr>ss_checking := ss_checking s - {x},
      ss_sending := (if ss_open s then insert x (ss_sending s) else ss_sending s)\<rparr>"
    by (auto simp: settle_step_def check_open_def split: if_splits)
  have "card (ss_checking s) = Suc (card (ss_checking s'))"
    using card.remove [OF addresses_finite(2) [OF assms(1)] \<open>x \<in> ss_checking s\<close>] by (simp add: s')
  moreover have "card (ss_sending s') \<le> Suc (card (ss_sending s))"
    using addresses_finite(3) [OF assms(1)] by (simp add: s' card_insert_if)
  moreover have "card (ran (ss_topics s')) = card (ran (ss_topics s))" by (simp add: s')
  ultimately
  show ?thesis by (simp add: settle_rank_def s')
next
  case (SendSubscribe x)
  with assms(2) have "x \<in> ss_sending s" and s': "s' = packet_sent x (s\<lparr>ss_sending := ss_sending s - {x}\<rparr>)"
    by (auto simp: settle_step_def send_subscribe_def split: if_splits)
  have "card (ss_sending s) = Suc (card (ss_sending s'))"
    using card.remove [OF addresses_finite(3) [OF assms(1)] \<open>x \<in> ss_sending s\<close>] by (simp add: s')
  then show ?thesis by (simp add: settle_rank_def s')
next
  case (BeginRange as)
  with assms(2) have "as = sorted_list_of_set (ran (ss_topics s))" "ss_starting s > 0"
    and s': "s' = s\<lparr>ss_starting := ss_starting s - 1, ss_ranges := ss_ranges s @ [as]\<rparr>"
    by (auto simp: settle_step_def begin_range_def split: if_splits)
  then obtain n where "ss_starting s = Suc n" "length as = card (ran (ss_topics s))"
    by (metis gr0_implies_Suc length_sorted_list_of_set)
  then show ?thesis by (simp add: settle_rank_def s')
next
  case (VisitNext i)
  with assms(2) show ?thesis
    by (auto simp: settle_step_def visit_next_def settle_rank_def Let_def turn_rank split: if_splits list.splits)
next
  case (SkipNext i)
  with assms(2) show ?thesis
    by (auto simp: settle_step_def skip_next_def settle_rank_def turn_rank split: if_splits list.splits)
next
  case (EndRange i)
  with assms(2) have i: "i < length (ss_ranges s)" "ss_ranges s ! i = []"
    and s': "s' = s\<lparr>ss_ranges := take i (ss_ranges s) @ drop (i + 1) (ss_ranges s)\<rparr>"
    by (auto simp: settle_step_def end_range_def split: if_splits)
  have "ss_ranges s = take i (ss_ranges s) @ [] # drop (i + 1) (ss_ranges s)"
    using id_take_nth_drop [OF i(1)] i(2) by simp
  from arg_cong [OF this, of "\<lambda>rs. sum_list (map (Suc \<circ> length) rs)"] show ?thesis
    by (simp add: settle_rank_def s')
qed (use assms(2) in \<open>simp_all add: settle_step_def\<close>)

lemma settle_not_stuck:
  assumes "sub_inv s" "\<not> settled s"
  shows "\<exists>a s'. under_way a \<and> settle_step a s = Some s'"
proof -
  consider x where "x \<in> ss_checking s" | x where "x \<in> ss_sending s" | "ss_starting s > 0" | "ss_ranges s \<noteq> []"
    using assms(2) by (auto simp: settled_def)
  then show ?thesis
  proof cases
    case (1 x)
    then show ?thesis by (intro exI [of _ "CheckOpen x"]) (simp add: settle_step_def check_open_def)
  next
    case (2 x)
    then show ?thesis by (intro exI [of _ "SendSubscribe x"]) (simp add: settle_step_def send_subscribe_def)
  next
    case 3
    then show ?thesis using addresses_finite(1) [OF assms(1)]
      by (intro exI [of _ "BeginRange (sorted_list_of_set (ran (ss_topics s)))"]) (simp add: settle_step_def begin_range_def)
  next
    case 4
    show ?thesis
    proof (cases "ss_ranges s ! 0")
      case Nil
      with 4 show ?thesis by (intro exI [of _ "EndRange 0"]) (simp add: settle_step_def end_range_def)
    next
      case (Cons a as)
      have "a \<in> ran (ss_topics s) \<Longrightarrow> a < ss_next s" using assms(1) by (auto simp: sub_inv_def addresses_ok_def)
      then have "\<exists>s'. settle_step (if a \<in> ran (ss_topics s) then VisitNext 0 else SkipNext 0) s = Some s'"
        using 4 Cons by (auto simp: settle_step_def visit_next_def skip_next_def Let_def)
      then show ?thesis by (metis under_way.simps(4,5))
    qed
  qed
qed

interpretation settling: progress "\<lambda>_. False" settle_step sub_inv under_way settle_rank settled
proof (unfold_locales, goal_cases)
  case (1 s a s')
  then show ?case using sub_step_inv by (auto simp: settle_step_def split: if_splits)
next
  case (2 s a s')
  then show ?case using settle_rank_less by blast
next
  case (3 s)
  then show ?case using settle_not_stuck by blast
qed

lemma settle_run: "run_steps (\<lambda>_. False) settle_step as s = Some s' \<Longrightarrow> sub_run as s = Some s'"
  by (induction as arbitrary: s) (auto simp: settle_step_def split: if_splits option.splits)

lemma under_way_frame:
  assumes "sub_step a s = Some s'" "under_way a"
  shows "ss_topics s' = ss_topics s \<and> ss_open s' = ss_open s"
  using assms
  by (cases a) (auto simp: check_open_def send_subscribe_def begin_range_def visit_next_def skip_next_def end_range_def Let_def
      split: if_splits list.splits)

lemma under_way_run: "sub_run as s = Some s' \<Longrightarrow> list_all under_way as \<Longrightarrow> ss_topics s' = ss_topics s \<and> ss_open s' = ss_open s"
  by (induction as arbitrary: s) (auto split: option.splits dest: under_way_frame)

subsection \<open>Uninterrupted calls\<close>

text \<open>The part of a connection that this model and that of theory \<open>Connection\<close> share.\<close>

definition same_view :: "sub_sys \<Rightarrow> ('tls, 'h, 'l) MQTTConnection \<Rightarrow> bool" where
  "same_view s c \<longleftrightarrow>
     ss_topics s = Mapping.lookup (topics c) \<and> ss_next s = nextSub c \<and> ss_open s = connectionOpen c \<and>
     ss_disposed s = {a. a < nextSub c \<and> si_disposed (subs c a)}"

lemma uninterrupted_subscribe:
  assumes "same_view s c" "subscribe u cb q ts c = Inr (c', i)" "ss_next s \<notin> ss_sending s \<union> ss_checking s"
  shows "\<exists>as s'. sub_run (StoreTopic i # as) s = Some s' \<and> same_view s' c' \<and>
    ss_checking s' = ss_checking s \<and> ss_sending s' = ss_sending s"
proof -
  let ?a = "ss_next s"
  note c' = subscribe_sel [OF assms(2)]
  have "{a. a < Suc (nextSub c) \<and> si_disposed (subs c' a)} = {a. a < nextSub c \<and> si_disposed (subs c a)}"
    by (auto simp: c' less_Suc_eq)
  with assms(1) c' have view: "same_view (t\<lparr>ss_topics := (ss_topics s)(i \<mapsto> ?a), ss_next := ?a + 1\<rparr>) c'"
    if "ss_open t = ss_open s" "ss_disposed t = ss_disposed s" for t
    using that by (auto simp: same_view_def fun_eq_iff lookup_mapping_if)
  define s1 where "s1 = store_topic i s"
  show ?thesis
  proof (cases "ss_open s")
    case True
    then have "sub_run [StoreTopic i, CheckOpen ?a, SendSubscribe ?a] s = Some (packet_sent ?a (s\<lparr>ss_topics := (ss_topics s)(i \<mapsto> ?a), ss_next := ?a + 1\<rparr>))"
      using assms(3) by (simp add: store_topic_def check_open_def send_subscribe_def packet_sent_def Let_def)
    moreover have "same_view (packet_sent ?a (s\<lparr>ss_topics := (ss_topics s)(i \<mapsto> ?a), ss_next := ?a + 1\<rparr>)) c'"
      using view [of s] by (simp add: same_view_def)
    ultimately show ?thesis by (intro exI [of _ "[CheckOpen ?a, SendSubscribe ?a]"]) (simp add: packet_sent_def True)
  next
    case False
    then have "sub_run [StoreTopic i, CheckOpen ?a] s = Some (s\<lparr>ss_topics := (ss_topics s)(i \<mapsto> ?a), ss_next := ?a + 1\<rparr>)"
      using assms(3) by (simp add: store_topic_def check_open_def Let_def)
    with view [of s] show ?thesis by (intro exI [of _ "[CheckOpen ?a]"]) simp
  qed
qed

lemma uninterrupted_unsubscribe:
  assumes "same_view s c" "ss_topics s i = Some a" "a < ss_next s"
  shows "\<exists>s'. sub_run [DeleteTopic i, DisposeSub ad a] s = Some s' \<and> same_view s' (unsubscribe i ad c)"
proof -
  let ?s = "s\<lparr>ss_topics := (ss_topics s)(i := None), ss_leaving := insert a (ss_leaving s)\<rparr>"
  have "delete_topic i s = Some ?s" using assms(2) by (simp add: delete_topic_def)
  moreover obtain s' where s': "dispose_sub ad a ?s = Some s'" "ss_topics s' = (ss_topics s)(i := None)"
    "ss_next s' = ss_next s" "ss_open s' = ss_open s" "ss_disposed s' = insert a (ss_disposed s)"
    by (simp add: dispose_sub_def Let_def)
  moreover have "same_view s' (unsubscribe i ad c)"
    using assms s' by (auto simp: same_view_def unsubscribe_def fun_eq_iff lookup_mapping_if)
  ultimately show ?thesis by simp
qed

subsection \<open>Properties\<close>



end
