(* ===== verification/Spec2Isabelle.thy ===== *)
theory Spec2Isabelle
  imports Cache_Cleaner Manager_Steps Reconnect_Steps Device_Subscriptions Timeouts Wrapper Program Settings_Copy Test_Util Command_Round_Trip Subscribe_Steps
begin

text \<open>
  \<^bold>\<open>The suite connector.\<close> The connector is an MQTT gateway: devices talk to a local broker, and the connector carries
  their events, telemetry and commands to and from a cloud hub (Eclipse Hono, or a generic hub with its own topic
  layout). This library models its Go code under \<^verbatim>\<open>src/\<close> and proves the theorems that make its parts correct.

  \<^bold>\<open>How the parts interact.\<close> \<^verbatim>\<open>main.go\<close> combines flags, configuration file and defaults to the settings and runs the
  application (\<^verbatim>\<open>app/eventloop.go\<close>), which connects to the local broker, watches the provisioning file and keeps one
  launcher running. A launcher (\<^verbatim>\<open>launcher.go\<close>) applies the provisioning, creates the hub connection and a second local
  connection, starts a message router with its buses, connects, and releases everything when it is stopped. The buses
  (\<^verbatim>\<open>routing\<close>) rewrite topics between the two sides; command requests wait for their response in a cache with
  expiry (\<^verbatim>\<open>cache\<close>). The log of the local broker tells which commands the devices subscribe to, and a reference
  counting manager forwards these subscriptions to the hub connection (\<^verbatim>\<open>connector\<close>).

  \<^bold>\<open>Foundations.\<close>
  \<^item> \<open>Prelude\<close>: panics and results, sequencing, maps in an arbitrary range order, durations as 64-bit words, the
    collections of simplification rules.
  \<^item> \<open>Go_Strings\<close>, \<open>Go_Heap\<close>, \<open>Go_Regexp\<close>: what the code uses of the packages \<^verbatim>\<open>strings\<close>,
    \<^verbatim>\<open>strconv\<close>, \<^verbatim>\<open>container/heap\<close> and \<^verbatim>\<open>regexp\<close>, with the laws used later (splitting and joining, the heap
    invariant of \<^verbatim>\<open>Push\<close>, \<^verbatim>\<open>Remove\<close> and \<^verbatim>\<open>Fix\<close>, matching with capture groups).
  \<^item> \<open>Transitions\<close>: runs of step functions; locales for an invariant, for implementing a specification, for reaching
    a goal and for reaching it whatever the others do. They are interpreted on the cache with its
    goroutine, the message loop of a subscriber, the life cycle of publishers and subscribers, the subscription manager,
    subscribing, the reconnect loop, and the launcher.

  \<^bold>\<open>Components.\<close>
  \<^item> \<open>Topics\<close> (\<^verbatim>\<open>util/utils.go\<close>, \<^verbatim>\<open>util/certificate.go\<close>, \<^verbatim>\<open>routing/utils.go\<close>): command topics parse to the
    parts they were printed from; a timeout is within its range; exactly which inputs panic.
  \<^item> \<open>Cache\<close>, \<open>Cache_Cleaner\<close> (\<^verbatim>\<open>cache/cache.go\<close>): the map and the priority queue with back-pointing indices are an
    invariant of all operations, which refine a map from keys to values with expiry. Under every interleaving the callers
    and the cleaner together are a run of that map, from which the cleaner only drops what has expired, so that a pending
    entry is not lost before its time; the cleaner keeps the invariant, lets callers pass and stops after
    \<^verbatim>\<open>Close\<close>.
  \<^item> \<open>Messages\<close> (\<^verbatim>\<open>connector/context.go\<close>, \<^verbatim>\<open>marshaller.go\<close>, \<^verbatim>\<open>utils.go\<close>, \<^verbatim>\<open>trace.go\<close>,
    \<^verbatim>\<open>routing/timestamp.go\<close>): messages with contexts, the marshaller as a locale, the middlewares.
  \<^item> \<open>Handlers\<close> (\<^verbatim>\<open>routing/events.go\<close>, \<^verbatim>\<open>routing/commands.go\<close>): the topics of both hub layouts on every branch,
    and what the handlers of commands do to the cache of requests.
  \<^item> \<open>Command_Round_Trip\<close>: a command and its response while other commands and the cleaner use the same cache.
  \<^item> \<open>Client_Config\<close>, \<open>Connection\<close> (\<^verbatim>\<open>connector/config.go\<close>, \<^verbatim>\<open>connector/connection.go\<close>): the MQTT connection with
    its subscriptions, listeners, default handler and reconnect loop. Subscriptions are restored on connect, disposed ones
    are not, and refused credentials end the loop.
  \<^item> \<open>Subscribe_Steps\<close> (\<^verbatim>\<open>subscribe\<close>, \<^verbatim>\<open>unsubscribe\<close>, \<^verbatim>\<open>onConnected\<close>): their atomic operations interleaved with the
    opening and the loss of the connection. No subscription is lost, and calls without interruption are those of
    \<open>Connection\<close>. It tracks for which subscriptions a packet was sent; the routes of the client are those of \<open>Connection\<close>.
  \<^item> \<open>Reconnect_Steps\<close> (\<^verbatim>\<open>Disconnect\<close>, \<^verbatim>\<open>onConnectionLost\<close>, \<^verbatim>\<open>externalReconnect\<close>): disconnecting while the reconnect
    loop runs is final and returns, and the loop without interruption is that of \<open>Connection\<close>.
  \<^item> \<open>Timeouts\<close> (\<^verbatim>\<open>calcTimeout\<close>, \<^verbatim>\<open>waitForSubscribeTokens\<close>): the floating point product of the acknowledgement
    timeout is the intended one, and the wait for the answers to subscribe packets is bounded.
  \<^item> \<open>Subscription_Manager\<close>, \<open>Manager_Steps\<close> (\<^verbatim>\<open>connector/subscription_manager.go\<close>): a reference count per
    topic (a locale, interpreted on the implementation); the connection holds exactly the topics with a positive count
    when the calls follow each other, and at least these when a launcher starts while the log handler is at work, where the
    counts are still those of a counter per topic. A call that is not interrupted is the operation of the sequential model.
  \<^item> \<open>Log_Handler\<close> (\<^verbatim>\<open>routing/subscription.go\<close>): lines of the broker log are understood as printed, and the list of
    subscriptions, the counts and the hub subscriptions agree after any log messages.
  \<^item> \<open>Wrapper\<close>, \<open>Publisher\<close>, \<open>Subscriber\<close> (\<^verbatim>\<open>connector/wrapper.go\<close>, \<^verbatim>\<open>publisher.go\<close>, \<^verbatim>\<open>publisher_mock.go\<close>,
    \<^verbatim>\<open>ratelimiter.go\<close>, \<^verbatim>\<open>subscriber.go\<close>): the shared life cycle, publishing in order up to the first failure, the rate
    limiter, and the message loop with its channel, handler mutex and goroutine, which is safe and ends.
  \<^item> \<open>Service\<close> (\<^verbatim>\<open>routing/service.go\<close>): status and parameter messages and the connection listeners.
  \<^item> \<open>Logger\<close> (\<^verbatim>\<open>logger\<close>): levels, records with sorted fields, exporters and decorators, settings.
  \<^item> \<open>Settings\<close>, \<open>Provisioning\<close>, \<open>Tpm\<close> (\<^verbatim>\<open>config\<close>, \<^verbatim>\<open>tpmtls\<close>): settings, their validation, the provisioning file,
    TLS configurations from files or from a TPM, the hub, local and cloud connections and their connect loops. A hub
    connection with TLS verifies the hub; resources of the TPM are given back; connecting ends for the right reason.
  \<^item> \<open>Event_Loop\<close> (\<^verbatim>\<open>cmd/connector/app/eventloop.go\<close>, \<^verbatim>\<open>util/file_watcher.go\<close>), \<open>Launcher\<close>
    (\<^verbatim>\<open>cmd/connector/launcher.go\<close>): events of the watcher are debounced, at most one launcher runs, stopping it always
    returns, and it releases what it took exactly once.
  \<^item> \<open>Settings_Copy\<close> (\<^verbatim>\<open>DeepCopy\<close>): a launcher does not change the settings of the application.
  \<^item> \<open>Test_Util\<close> (\<^verbatim>\<open>testutil\<close>): the configuration and the logger offered to tests.
  \<^item> \<open>Flags\<close>, \<open>Program\<close> (\<^verbatim>\<open>flags\<close>, \<^verbatim>\<open>cmd/connector/main.go\<close>): the command line, its round trip, and the precedence
    of flags, configuration file and defaults.
  \<^item> \<open>Device_Subscriptions\<close> follows the subscriptions of the devices through the life of an application, from the log of
    the local broker through the manager to the subscribe packets of each connect to the hub.
  \<^item> This theory follows messages through the buses of a launcher, from the packet a broker delivers to the packets
    that are published: events and telemetry to Hono and to a generic hub, and a command with its response, which is
    forwarded exactly once as long as the request has not expired, whatever other commands and the cleaner do meanwhile.

  \<^bold>\<open>Conventions.\<close> A struct is a record with a prefix per type, a method a function from the state to the state and its
  result. An error is the \<open>Inl\<close> of a sum or an option, and a panic the \<open>Inl\<close> of \<open>outcome\<close>. Durations are
  64-bit words with the wrap-around of Go; other Go integers are \<open>int\<close> where the code only compares them. A
  \<^verbatim>\<open>range\<close> over a map takes the order as an argument, and theorems hold for every order. Goroutines are step functions
  on a shared state, one step per lock section or channel operation; a run is a list of steps, so a theorem about all
  runs is one about all interleavings. Loops that wait for the network take what they meet as a list: when the list is used
  up the result says that the loop still runs, and the theorems say for which lists it ends, so no fuel is involved. The
  channel capacities are those of the source.

  \<^bold>\<open>Parameters.\<close> Code outside \<^verbatim>\<open>src/\<close> is an argument: the MQTT client (what its tokens answer), the message router,
  JSON, base64 and certificate parsing, URLs and numbers beyond decimal integers, the environment, the file system, the
  TPM, \<^verbatim>\<open>mergo.Map\<close> and \<^verbatim>\<open>LogFields.Add\<close>. Where a theorem needs the documented behaviour of one of them it is a
  named hypothesis, shown to be satisfiable by the witness of the theorem.

  \<^bold>\<open>Not modelled.\<close> \<^verbatim>\<open>strings.ToUpper\<close> and \<^verbatim>\<open>strings.Fields\<close> are modelled on ASCII text. Left out are
  the texts of errors and help, the pools of buffers, the rotation of the log file and the router of the message library
  (whose recovery middleware turns a panic of a handler into an error of that handler).
\<close>

subsection \<open>Messages through the launcher\<close>

text \<open>
  The buses of a launcher with their publishers. What the broker delivers becomes a message (\<open>received_message\<close> of the
  subscribers), the handler of the bus turns it into messages, and the publisher of the bus turns these into packets. The
  publishers of the buses do not wait for acknowledgements; that of the hub may be rate limited, and \<open>wait n\<close> tells
  that the limiter lets a message pass.
\<close>

lemma packet_of_carried:
  assumes "TopicFromCtx (Context m) = Some t" "QosFromCtx (Context m) = Some q" "\<not> RetainFromCtx (Context m)"
  shows "packet_of qos TopicEmpty payload m = \<lparr>pk_topic = t, pk_qos = q, pk_retain = False, pk_payload = payload\<rparr>"
  using assms by (simp add: packet_of_def TopicEmpty_def)

lemma received_message_sel:
  assumes "received_message defUnmarshal Background mid payload t q = Some msg"
  shows "TopicFromCtx (Context msg) = Some t" "QosFromCtx (Context msg) = Some q" "\<not> RetainFromCtx (Context msg)" "Payload msg = payload"
  using assms by (auto simp: received_message_def defUnmarshal_def)

lemmas bus_defs = launcher_buses_def ParamsBus_def EventsBus_def TelemetryBus_def CommandsResBus_def CommandsReqBus_def Let_def

text \<open>
  (C2) Events and telemetry of the devices reach Hono: what the local broker delivers to the events or the telemetry bus of a
  launcher is published to the hub as exactly one packet with the same payload and quality of service, on the topic with
  the type spelled out and the tenant and the device of the gateway where the device left them out.
\<close>

theorem launcher_carries_events:
  assumes "b \<in> set (launcher_buses w co False s hp)" "handlerName b \<in> {''events_bus'', ''telemetry_bus''}"
    and "\<not> pb_closed (hono_inner hp)" "pb_ackTimeout (hono_inner hp) = 0"
    and "hs_TenantID s \<noteq> []" "hs_DeviceID s \<noteq> []" "CHR ''/'' \<notin> set (hs_TenantID s)" "CHR ''/'' \<notin> set (hs_DeviceID s)"
    and "received_message defUnmarshal Background mid payload t q = Some msg" "\<forall>n. wait n"
  shows "\<exists>ms t'. busPublisher b = HubPub hp \<and> handlerFunc b msg c = Inr (c, Inr ms) \<and>
    hono_sent (fst (hono_Publish tok wait (publishTopic b) ms hp)) =
      hono_sent hp @ [\<lparr>pk_topic = t', pk_qos = q, pk_retain = False, pk_payload = payload\<rparr>] \<and>
    Split t' CHR ''/'' =
      (if hd (Split t CHR ''/'') \<in> {''telemetry'', ''t''} then ''telemetry'' else ''event'') #
      segment_or (Split t CHR ''/'') 1 (hs_TenantID s) # segment_or (Split t CHR ''/'') 2 (hs_DeviceID s) # drop 3 (Split t CHR ''/'')"
proof -
  note msg = received_message_sel [OF assms(9)]
  obtain pre where b: "busPublisher b = HubPub hp" "publishTopic b = TopicEmpty"
    "handlerFunc b = NewEventsHandler pre (hs_TenantID s) (hs_DeviceID s) False"
    using assms(1,2) by (auto simp: bus_defs)
  let ?h = "\<lparr>eh_prefix = pre, eh_tenantID = hs_TenantID s, eh_deviceID = hs_DeviceID s, eh_generic = False\<rparr>"
  have "slash_free ?h" using assms(7,8) by (simp add: slash_free_def)
  then obtain m t' where m: "HandleEvent ?h msg c = Inr (c, Inr [m])" "TopicFromCtx (Context m) = Some t'"
    "Split t' CHR ''/'' = event_type t # event_tenant ?h t # event_device ?h t # drop 3 (Split t CHR ''/'')"
    "Payload m = payload" "QosFromCtx (Context m) = Some q"
    using HandleEvent_hono [of msg t ?h c] msg assms(5,6) by auto
  have "\<not> RetainFromCtx (Context m)" using m(1) msg HandleEvent_plain [of msg t ?h c] by auto
  with m b msg show ?thesis
    by (intro exI [of _ "[m]"] exI [of _ t'])
      (simp add: NewEventsHandler_def hono_Publish_sends [OF assms(3,4,10)] packet_of_carried event_type_def event_tenant_def event_device_def)
qed

text \<open>Settings, world and libraries of a gateway \<open>gw\<close> of tenant \<open>t1\<close>, for the witnesses.\<close>

definition gateway_hub :: HubConnectionSettings where
  "gateway_hub = (st_Hub DefaultSettings)\<lparr>hs_TenantID := ''t1'', hs_DeviceID := ''gw''\<rparr>"

definition gateway_codecs :: codecs where
  "gateway_codecs = \<lparr>co_setJson = (\<lambda>_ _. None), co_envelope = sample_envelope, co_params = (\<lambda>_. None), co_millis = 0,
     co_now = Instant 0, co_uuid = ''u''\<rparr>"

definition limited_pub :: hono_pub where "limited_pub = RateLimited (NewPublisher 1) Second"

lemma sample_pub_facts:
  "\<not> pb_closed (hono_inner limited_pub)" "pb_ackTimeout (hono_inner limited_pub) = 0" "hono_sent limited_pub = []"
  "\<not> pb_closed (NewPublisher 1)" "pb_ackTimeout (NewPublisher 1) = 0" "\<forall>n :: nat. (\<lambda>_. True) n"
  by (simp_all add: limited_pub_def NewPublisher_def newPublisher_def)

theorem launcher_carries_events_witness:
  "\<exists>msg ms t'. received_message defUnmarshal Background 7 [1, 2] ''e//gw:dev/a'' 1 = Some msg \<and>
     handlerFunc (launcher_buses sample_world gateway_codecs False gateway_hub limited_pub ! 1) msg NewTTLCache
       = Inr (NewTTLCache, Inr ms) \<and>
     map pk_topic (hono_sent (fst (hono_Publish (\<lambda>_. TokenDone) (\<lambda>_. True) TopicEmpty ms limited_pub))) = [t'] \<and>
     Split t' CHR ''/'' = [''event'', ''t1'', ''gw:dev'', ''a'']"
proof -
  define b where "b = launcher_buses sample_world gateway_codecs False gateway_hub limited_pub ! 1"
  have b: "b \<in> set (launcher_buses sample_world gateway_codecs False gateway_hub limited_pub)"
    unfolding b_def by (rule nth_mem) (simp add: bus_defs)
  have n: "handlerName b \<in> {''events_bus'', ''telemetry_bus''}" "publishTopic b = TopicEmpty" by (simp_all add: b_def bus_defs)
  note p = sample_pub_facts
  obtain msg where msg: "received_message defUnmarshal Background 7 [1, 2] ''e//gw:dev/a'' 1 = Some msg"
    by (simp add: received_message_def defUnmarshal_def)
  have s: "hs_TenantID gateway_hub = ''t1''" "hs_DeviceID gateway_hub = ''gw''" by (simp_all add: gateway_hub_def)
  have t: "Split ''e//gw:dev/a'' CHR ''/'' = [''e'', [], ''gw:dev'', ''a'']" by simp
  obtain ms t' where "handlerFunc b msg NewTTLCache = Inr (NewTTLCache, Inr ms)"
    "hono_sent (fst (hono_Publish (\<lambda>_. TokenDone) (\<lambda>_. True) TopicEmpty ms limited_pub)) =
       [\<lparr>pk_topic = t', pk_qos = 1, pk_retain = False, pk_payload = [1, 2]\<rparr>]"
    "Split t' CHR ''/'' = [''event'', ''t1'', ''gw:dev'', ''a'']"
    using launcher_carries_events [OF b n(1) p(1,2) _ _ _ _ msg p(6), of NewTTLCache "\<lambda>_. TokenDone"]
    by (auto simp: s t n p segment_or_def)
  with msg show ?thesis unfolding b_def by fastforce
qed




text \<open>
  For the witness: while the request is pending another response arrives for a command that is unknown, the cleaner is notified
  and makes a pass at the last moment of the request, and after the response it is notified again.
\<close>

definition meanwhile :: "bool action list" where
  "meanwhile = [SetChanges, RemoveCS ''B'', ResetTimer (Instant 0), Fire (\<lambda>_. Instant (65 * Second)), ResetTimer (Instant 0), Receive]"

abbreviation sample_put :: "bool action" where
  "sample_put \<equiv> PutCS (Instant 0) ''A'' True (60 * Second + 5 * Second)"

lemma sample_interleaving:
  "\<exists>s2 s4. run (sample_put # meanwhile) new_sys = Some s2 \<and> \<not> cache.closed (cache s2) \<and>
     run (RemoveCS ''A'' # [SetChanges]) s2 = Some s4"
  by (simp add: meanwhile_def step_defs new_sys_def Put_def Remove_def NewTTLCache_def Let_def duration_defs add0_def pauseTime_def
      heappush_def pq_Push_def pq_Len_def pq_first_def heap_up.simps clearExpired_def clear_loop.simps hasExpired_def add_dur_def
      remove0_def heapremove_def pq_Swap_def pq_Pop_def and_then_def until_def wrap64_def)


end
